(* ===== verification/Maize_Prelude.thy ===== *)
theory Maize_Prelude
  imports Main "HOL-Library.Word" "HOL-Library.Signed_Division"
begin

unbundle bit_operations_syntax

section \<open>Shared vocabulary of the Maize v2 development\<close>

text \<open>
  The width names of the sources (\<open>std::uint8_t\<close> to \<open>std::uint64_t\<close>), the theorem
  collections the component theories fill, and the generic facts on lists and machine words
  that more than one component uses. Nothing here models code of its own.
\<close>

type_synonym u8 = "8 word"
type_synonym u16 = "16 word"
type_synonym u32 = "32 word"
type_synonym u64 = "64 word"

named_theorems field_frames \<open>what an operation leaves alone: projections through updates\<close>
named_theorems wf_intros \<open>preservation of the components' well-formedness invariants\<close>
named_theorems wf_dests \<open>what the components' well-formedness invariants give\<close>

subsection \<open>Words\<close>

lemma of_nat_inj_64:
  fixes i j :: nat
  assumes "i < 2 ^ 64" and "j < 2 ^ 64"
  shows "(of_nat i :: u64) = of_nat j \<longleftrightarrow> i = j"
  using assms by (auto simp: word_of_nat_eq_iff take_bit_nat_eq_self)

lemma unat_of_nat_64: "n < 2 ^ 64 \<Longrightarrow> unat (of_nat n :: u64) = n"
  by (simp add: unat_of_nat)

lemma add_of_nat_Suc: "(a :: u64) + of_nat (Suc n) = (a + of_nat n) + 1"
  by (simp add: algebra_simps)

lemma inj_on_add_of_nat: "n \<le> 2 ^ 64 \<Longrightarrow> inj_on (\<lambda>i. (a :: u64) + of_nat i) {..<n}"
  by (auto simp: inj_on_def of_nat_inj_64)

lemma u8_lt_256: "unat (b :: u8) < 256"
  using unsigned_less [of b] by simp

text \<open>A word that has only bits below \<open>n\<close> keeps its value under a truncating cast.\<close>

lemma word_eq_0_iff_bits: "(w :: 'a::len word) = 0 \<longleftrightarrow> (\<forall>i < LENGTH('a). \<not> bit w i)"
  by (auto simp: bit_eq_iff dest: bit_imp_le_length)

text \<open>
  All bytes can be enumerated: a decidable property of an opcode byte is checked on the
  256 elements of the list.
\<close>

lemma byte_exhaust:
  assumes "list_all P (map of_nat [0..<256])"
  shows "P (b :: u8)"
proof -
  have "b = of_nat (unat b)" by simp
  moreover have "unat b \<in> set [0..<256]" using u8_lt_256 [of b] by simp
  ultimately have "b \<in> set (map of_nat [0..<256])" by (metis image_eqI list.set_map)
  with assms show ?thesis unfolding list_all_iff by blast
qed

text \<open>The same for a word with only \<open>n\<close> low bits.\<close>

lemma take_bit_word_self:
  fixes v :: "'a::len word"
  assumes "unat v < 2 ^ n"
  shows "take_bit n v = v"
proof -
  have "unat (take_bit n v) = unat v" using assms by (simp add: unsigned_take_bit_eq take_bit_nat_eq_self)
  then show ?thesis by (rule unsigned_word_eqI)
qed

lemma take_bit_of_and_not_mask:
  fixes v :: "'a::len word"
  assumes "v AND NOT (mask n) = 0"
  shows "take_bit n v = v"
proof -
  have "v = (v AND mask n) OR (v AND NOT (mask n))"
    by (intro bit_word_eqI) (auto simp: bit_simps)
  with assms show ?thesis by (simp add: take_bit_eq_mask)
qed

lemma low_bits_exhaust:
  fixes v :: "'a::len word"
  assumes "v AND NOT (mask n) = 0" and "list_all P (map of_nat [0..<2 ^ n])"
  shows "P v"
proof -
  have "unat v < 2 ^ n"
    using arg_cong [OF take_bit_of_and_not_mask [OF assms(1)], of unat]
    by (metis take_bit_nat_less_exp unsigned_take_bit_eq)
  then have "of_nat (unat v) \<in> (of_nat :: nat \<Rightarrow> 'a word) ` {0..<2 ^ n}" by (intro imageI) simp
  with assms(2) show ?thesis by (auto simp: list_all_iff)
qed

subsection \<open>Lists as arrays\<close>

text \<open>
  The arrays and vectors of the sources are lists, \<open>xs[i := v]\<close> being an assignment to one
  element. These facts let \<open>simp\<close> read an array after writes.
\<close>

lemma nth_list_update_if:
  "i < length xs \<Longrightarrow> xs[i := v] ! j = (if i = j then v else xs ! j)"
  by auto

lemma list_update_same: "i < length xs \<Longrightarrow> xs[i := xs ! i] = xs"
  by simp

lemma list_all_nthD: "list_all P xs \<Longrightarrow> i < length xs \<Longrightarrow> P (xs ! i)"
  by (simp add: list_all_length)

subsection \<open>Little-endian words\<close>

text \<open>
  A multi-byte value assembled from \<open>n\<close> bytes, byte \<open>i\<close> contributing bits \<open>8 * i\<close> to
  \<open>8 * i + 7\<close>. Every little-endian read loop of the sources is an instance, so the bit-level
  argument is made once.
\<close>

definition le_value :: "(nat \<Rightarrow> u8) \<Rightarrow> nat \<Rightarrow> u64" where
  "le_value f n = fold (\<lambda>i value. value OR push_bit (i * 8) (ucast (f i))) [0..<n] 0"

lemma le_value_0 [simp]: "le_value f 0 = 0"
  by (simp add: le_value_def)

lemma le_value_Suc: "le_value f (Suc n) = le_value f n OR push_bit (n * 8) (ucast (f n))"
  by (simp add: le_value_def)

lemma le_value_cong: "(\<And>i. i < n \<Longrightarrow> f i = g i) \<Longrightarrow> le_value f n = le_value g n"
  by (induction n) (auto simp: le_value_Suc)

lemma bit_le_value:
  "k < 64 \<Longrightarrow> bit (le_value f n) k \<longleftrightarrow> k div 8 < n \<and> bit (f (k div 8)) (k mod 8)"
proof (induction n)
  case 0
  then show ?case by simp
next
  case (Suc n)
  have "bit (push_bit (n * 8) (ucast (f n) :: u64)) k \<longleftrightarrow> k div 8 = n \<and> bit (f n) (k mod 8)"
  proof (cases "k div 8 = n")
    case True
    then have "k = n * 8 + k mod 8" using div_mult_mod_eq [of k 8] by simp
    then have "k - n * 8 = k mod 8" "n * 8 \<le> k" by linarith+
    with True Suc.prems show ?thesis by (auto simp: bit_simps dest: bit_imp_le_length)
  next
    case False
    then have "k < n * 8 \<or> n * 8 + 8 \<le> k" by linarith
    with False show ?thesis by (auto simp: bit_simps dest: bit_imp_le_length)
  qed
  with Suc show ?case by (auto simp: le_value_Suc bit_simps less_Suc_eq)
qed

lemma le_value_bytes:
  assumes "n \<le> 8"
  shows "le_value (\<lambda>i. ucast (drop_bit (i * 8) v)) n = take_bit (8 * n) v"
proof (rule bit_word_eqI)
  fix k assume "k < LENGTH(64)"
  then show "bit (le_value (\<lambda>i. ucast (drop_bit (i * 8) v)) n) k = bit (take_bit (8 * n) v) k"
    by (auto simp: bit_le_value bit_simps mult.commute)
qed

lemma ucast_drop_bit_le_value:
  assumes "i < n" "n \<le> 8"
  shows "ucast (drop_bit (i * 8) (le_value f n)) = f i"
proof (rule bit_word_eqI)
  fix k assume "k < LENGTH(8)"
  then have "(i * 8 + k) div 8 = i" "(i * 8 + k) mod 8 = k" "i * 8 + k < 64"
    using assms by auto
  with \<open>k < LENGTH(8)\<close> assms show "bit (ucast (drop_bit (i * 8) (le_value f n)) :: u8) k = bit (f i) k"
    by (simp add: bit_simps bit_le_value)
qed

subsection \<open>Byte stores\<close>

text \<open>
  What a store of bytes promises the loops that read and write several of them: a write to an
  accessible address is read back there and nowhere else, and changes no accessibility. The
  addresses of one access are given by a function of the byte's index, so the same facts serve
  an access at consecutive addresses and one whose bytes were translated page by page.
\<close>

locale byte_store =
  fixes rd :: "'m \<Rightarrow> u64 \<Rightarrow> u8"
    and wr :: "'m \<Rightarrow> u64 \<Rightarrow> u8 \<Rightarrow> 'm"
    and acc :: "'m \<Rightarrow> u64 \<Rightarrow> bool"
  assumes rd_wr: "acc m a \<Longrightarrow> rd (wr m a v) b = (if a = b then v else rd m b)"
    and acc_wr: "acc (wr m a v) b = acc m b"
begin

lemma acc_fold: "acc (fold (\<lambda>i m. wr m (at i) (f i)) is m) b = acc m b"
  by (induction "is" arbitrary: m) (simp_all add: acc_wr)

lemma rd_fold_miss:
  "\<lbrakk>\<forall>i < n. acc m (at i); \<forall>i < n. at i \<noteq> b\<rbrakk> \<Longrightarrow>
   rd (fold (\<lambda>i m. wr m (at i) (f i)) [0..<n] m) b = rd m b"
  by (induction n) (simp_all add: rd_wr acc_fold)

lemma rd_fold_hit:
  assumes "\<forall>i < n. acc m (at i)" and "inj_on at {..<n}" and "j < n"
  shows "rd (fold (\<lambda>i m. wr m (at i) (f i)) [0..<n] m) (at j) = f j"
  using assms
proof (induction n)
  case 0
  then show ?case by simp
next
  case (Suc n)
  show ?case
  proof (cases "j = n")
    case True
    with Suc.prems show ?thesis by (simp add: rd_wr acc_fold)
  next
    case False
    with Suc.prems have j: "j < n" and ne: "at n \<noteq> at j"
      by (auto simp: inj_on_def)
    from Suc.prems have "inj_on at {..<n}" by (auto simp: inj_on_def)
    with Suc.IH Suc.prems(1) j have
      "rd (fold (\<lambda>i m. wr m (at i) (f i)) [0..<n] m) (at j) = f j" by simp
    with Suc.prems(1) ne show ?thesis by (simp add: rd_wr acc_fold)
  qed
qed

lemma le_round_trip:
  assumes "\<forall>i < n. acc m (at i)" and "inj_on at {..<n}" and "n \<le> 8"
  shows "le_value (\<lambda>i. rd (fold (\<lambda>i m. wr m (at i) (ucast (drop_bit (i * 8) v))) [0..<n] m) (at i)) n
         = take_bit (8 * n) v"
proof -
  have "le_value (\<lambda>i. rd (fold (\<lambda>i m. wr m (at i) (ucast (drop_bit (i * 8) v))) [0..<n] m) (at i)) n
        = le_value (\<lambda>i. ucast (drop_bit (i * 8) v)) n"
    using assms by (intro le_value_cong rd_fold_hit) auto
  with assms(3) show ?thesis by (simp add: le_value_bytes)
qed

end

end
