(* ===== verification/Registers.thy ===== *)
theory Registers
  imports Maize_Prelude
begin

text \<open>
  The general registers and the positional views, \<^verbatim>\<open>src/v2/registers_v2.h\<close>: thirty-two
  64-bit registers with \<open>r0\<close> hardwired to zero, the byte, quarter-word and half-word
  elements of a register value, and the two extensions of a narrow value.
\<close>

section \<open>The general registers\<close>

abbreviation (input) kRegisterCount :: nat where
  "kRegisterCount \<equiv> 32"

abbreviation (input) kLinkRegister :: nat where
  "kLinkRegister \<equiv> 31"

record RegistersV2 =
  reg_file :: "u64 list"

definition read_reg :: "RegistersV2 \<Rightarrow> nat \<Rightarrow> u64" where
  "read_reg r n = (if n = 0 then 0 else reg_file r ! n)"

definition write_reg :: "RegistersV2 \<Rightarrow> nat \<Rightarrow> u64 \<Rightarrow> RegistersV2" where
  "write_reg r n value = (if n \<noteq> 0 then r\<lparr>reg_file := (reg_file r)[n := value]\<rparr> else r)"

definition raw :: "RegistersV2 \<Rightarrow> nat \<Rightarrow> u64" where
  "raw r n = reg_file r ! n"

definition set_raw :: "RegistersV2 \<Rightarrow> nat \<Rightarrow> u64 \<Rightarrow> RegistersV2" where
  "set_raw r n value = r\<lparr>reg_file := (reg_file r)[n := value]\<rparr>"

definition reset_registers :: "RegistersV2 \<Rightarrow> RegistersV2" where
  "reset_registers r = r\<lparr>reg_file := replicate kRegisterCount 0\<rparr>"

definition initial_registers :: RegistersV2 where
  "initial_registers = \<lparr>reg_file = replicate kRegisterCount 0\<rparr>"

section \<open>Positional views\<close>

definition byte_element :: "u64 \<Rightarrow> nat \<Rightarrow> u8" where
  "byte_element value index = ucast (drop_bit (index * 8) value)"

definition quarter_element :: "u64 \<Rightarrow> nat \<Rightarrow> u16" where
  "quarter_element value index = ucast (drop_bit (index * 16) value)"

definition half_element :: "u64 \<Rightarrow> nat \<Rightarrow> u32" where
  "half_element value index = ucast (drop_bit (index * 32) value)"

definition insert_byte :: "u64 \<Rightarrow> nat \<Rightarrow> u8 \<Rightarrow> u64" where
  "insert_byte target index value =
     (let shift = index * 8; mask = push_bit shift (0xFF :: u64)
      in (target AND NOT mask) OR push_bit shift (ucast value))"

definition insert_quarter :: "u64 \<Rightarrow> nat \<Rightarrow> u16 \<Rightarrow> u64" where
  "insert_quarter target index value =
     (let shift = index * 16; mask = push_bit shift (0xFFFF :: u64)
      in (target AND NOT mask) OR push_bit shift (ucast value))"

definition insert_half :: "u64 \<Rightarrow> nat \<Rightarrow> u32 \<Rightarrow> u64" where
  "insert_half target index value =
     (let shift = index * 32; mask = push_bit shift (0xFFFFFFFF :: u64)
      in (target AND NOT mask) OR push_bit shift (ucast value))"

section \<open>Extension\<close>

definition sign_extend :: "u64 \<Rightarrow> nat \<Rightarrow> u64" where
  "sign_extend value bits =
     (if bits \<ge> 64 then value
      else let sgn_bit = push_bit (bits - 1) (1 :: u64);
               mask = push_bit bits (1 :: u64) - 1;
               truncated = value AND mask
           in (truncated XOR sgn_bit) - sgn_bit)"

definition zero_extend :: "u64 \<Rightarrow> nat \<Rightarrow> u64" where
  "zero_extend value bits =
     (if bits \<ge> 64 then value else value AND (push_bit bits 1 - 1))"

section \<open>Properties of the registers\<close>

definition wf_registers :: "RegistersV2 \<Rightarrow> bool" where
  "wf_registers r \<longleftrightarrow> length (reg_file r) = kRegisterCount"

lemma wf_initial_registers [wf_intros, simp]: "wf_registers initial_registers"
  by (simp add: wf_registers_def initial_registers_def)

lemma wf_write_reg [wf_intros, simp]: "wf_registers (write_reg r n v) \<longleftrightarrow> wf_registers r"
  by (simp add: wf_registers_def write_reg_def)

lemma read_reg_zero [simp]: "read_reg r 0 = 0"
  by (simp add: read_reg_def)

lemma write_reg_zero [simp]: "write_reg r 0 v = r"
  by (simp add: write_reg_def)

lemma read_write_reg:
  "wf_registers r \<Longrightarrow> n < kRegisterCount \<Longrightarrow>
   read_reg (write_reg r n v) k = (if n = k \<and> n \<noteq> 0 then v else read_reg r k)"
  by (auto simp: read_reg_def write_reg_def wf_registers_def)

lemma read_write_reg_other [simp]: "n \<noteq> k \<Longrightarrow> read_reg (write_reg r n v) k = read_reg r k"
  by (auto simp: read_reg_def write_reg_def)

section \<open>Properties of the views\<close>

lemma low_masks:
  "(0xFF :: u64) = mask 8" "(0xFFFF :: u64) = mask 16" "(0xFFFFFFFF :: u64) = mask 32"
  by (simp_all add: mask_eq_exp_minus_1)

text \<open>
  Writing element \<open>i\<close> is seen by a read of element \<open>i\<close> and by no other. The three widths
  have one bit-level argument: bit \<open>j * w + n\<close> lies in the window of element \<open>i\<close> exactly
  when \<open>i = j\<close>.
\<close>

lemma window_iff:
  fixes i j n w :: nat
  assumes "n < w"
  shows "(i * w \<le> j * w + n \<and> j * w + n - i * w < w) \<longleftrightarrow> i = j"
proof
  assume h: "i * w \<le> j * w + n \<and> j * w + n - i * w < w"
  then have "j * w + n < Suc i * w" by auto
  with assms have "j * w < Suc i * w" and "i * w < Suc j * w" using h by auto
  then show "i = j" by (metis less_Suc_eq_le mult_less_cancel2 order_antisym)
qed (use assms in auto)

lemma byte_element_insert_byte:
  "i < 8 \<Longrightarrow> j < 8 \<Longrightarrow>
   byte_element (insert_byte t i v) j = (if i = j then v else byte_element t j)"
  unfolding byte_element_def insert_byte_def Let_def low_masks
  using window_iff [of _ 8 i j]
  by (intro bit_word_eqI) (auto simp: bit_simps dest: bit_imp_le_length)

lemma quarter_element_insert_quarter:
  "i < 4 \<Longrightarrow> j < 4 \<Longrightarrow>
   quarter_element (insert_quarter t i v) j = (if i = j then v else quarter_element t j)"
  unfolding quarter_element_def insert_quarter_def Let_def low_masks
  using window_iff [of _ 16 i j]
  by (intro bit_word_eqI) (auto simp: bit_simps dest: bit_imp_le_length)

lemma half_element_insert_half:
  "i < 2 \<Longrightarrow> j < 2 \<Longrightarrow>
   half_element (insert_half t i v) j = (if i = j then v else half_element t j)"
  unfolding half_element_def insert_half_def Let_def low_masks
  using window_iff [of _ 32 i j]
  by (intro bit_word_eqI) (auto simp: bit_simps dest: bit_imp_le_length)

lemma sign_extend_signed_take_bit:
  assumes "0 < bits" "bits \<le> 64"
  shows "sign_extend v bits = signed_take_bit (bits - 1) v"
proof (cases "bits = 64")
  case True
  moreover have "signed_take_bit 63 v = v" 
  proof (rule bit_word_eqI)
    fix n assume "n < LENGTH(64)"
    then show "bit (signed_take_bit 63 v) n = bit v n"
      by (cases "n = 63") (auto simp: bit_simps min_def)
  qed
  ultimately show ?thesis by (simp add: sign_extend_def)
next
  case False
  define n where "n = bits - 1"
  with assms False have n: "n < 63" "bits = Suc n" by auto
  have e: "sign_extend v bits = (take_bit (Suc n) v XOR push_bit n 1) - push_bit n 1"
    using n by (simp add: sign_extend_def Let_def take_bit_eq_mask mask_eq_exp_minus_1 push_bit_of_1)
  show ?thesis
  proof (cases "bit v n")
    case True
    have "take_bit (Suc n) v XOR push_bit n 1 = take_bit n v"
      using True n by (intro bit_word_eqI) (auto simp: bit_simps less_Suc_eq)
    moreover have "take_bit n v - push_bit n 1 = take_bit n v OR NOT (mask n)"
    proof -
      have "take_bit n v OR NOT (mask n) = take_bit n v + NOT (mask n)"
        by (rule disjunctive_add [symmetric]) (auto simp: bit_simps)
      then show ?thesis
        by (simp add: push_bit_of_1 minus_exp_eq_not_mask [symmetric])
    qed
    ultimately show ?thesis using True n e by (simp add: signed_take_bit_def)
  next
    case False
    have "take_bit (Suc n) v XOR push_bit n 1 = take_bit n v + push_bit n 1"
    proof -
      have "take_bit n v + push_bit n 1 = take_bit n v OR push_bit n 1"
        by (rule disjunctive_add) (auto simp: bit_simps)
      also have "\<dots> = take_bit (Suc n) v XOR push_bit n 1"
        using False n by (intro bit_word_eqI) (auto simp: bit_simps less_Suc_eq)
      finally show ?thesis by simp
    qed
    then show ?thesis using False n e by (simp add: signed_take_bit_def)
  qed
qed

lemma sint_sign_extend:
  assumes "0 < bits" "bits \<le> 64"
  shows "sint (sign_extend v bits) = signed_take_bit (bits - 1) (uint v)"
proof (rule bit_eqI)
  fix n
  show "bit (sint (sign_extend v bits)) n = bit (signed_take_bit (bits - 1) (uint v)) n"
    using assms
    by (auto simp: sign_extend_signed_take_bit bit_simps min_def)
qed

lemma zero_extend_take_bit: "zero_extend v bits = take_bit bits v"
proof (cases "bits \<ge> 64")
  case True
  then have "take_bit bits v = v"
    by (intro bit_word_eqI) (simp add: bit_simps)
  with True show ?thesis by (simp add: zero_extend_def)
next
  case False
  then show ?thesis
    by (simp add: zero_extend_def take_bit_eq_mask mask_eq_exp_minus_1 push_bit_of_1)
qed

lemma uint_zero_extend: "uint (zero_extend v bits) = uint v mod 2 ^ bits"
  by (simp add: zero_extend_take_bit unsigned_take_bit_eq flip: take_bit_eq_mod)

end
