(* ===== verification/Alu.thy ===== *)
theory Alu
  imports Registers
begin

text \<open>
  The arithmetic helpers of \<^verbatim>\<open>src/v2/interpreter_v2.cpp\<close> that need no machine: predicates, the
  128-bit product built from 32-bit halves, byte reversal and field masks, with the facts that tie
  them to exact integer arithmetic.
\<close>

section \<open>The helpers\<close>

abbreviation (input) kAllOnes :: u64 where
  "kAllOnes \<equiv> NOT 0"

definition low_half :: "u64 \<Rightarrow> u64" where
  "low_half value = value AND 0xFFFFFFFF"

definition half_result :: "u32 \<Rightarrow> u64" where
  "half_result value = ucast value"

definition field_mask :: "nat \<Rightarrow> u64" where
  "field_mask width = (if width \<ge> 64 then kAllOnes else push_bit width 1 - 1)"

definition reverse_bytes_word :: "u64 \<Rightarrow> u64" where
  "reverse_bytes_word value =
     fold (\<lambda>i result. result OR push_bit ((7 - i) * 8) (drop_bit (i * 8) value AND 0xFF)) [0..<8] 0"

definition reverse_bytes_half :: "u32 \<Rightarrow> u32" where
  "reverse_bytes_half value =
     fold (\<lambda>i result. result OR push_bit ((3 - i) * 8) (drop_bit (i * 8) value AND 0xFF)) [0..<4] 0"

definition evaluate_predicate :: "nat \<Rightarrow> u64 \<Rightarrow> u64 \<Rightarrow> bool" where
  "evaluate_predicate predicate left right =
     (let signed_left = sint left; signed_right = sint right
      in if predicate = 0 then left = right
         else if predicate = 1 then left \<noteq> right
         else if predicate = 2 then signed_left < signed_right
         else if predicate = 3 then signed_left \<le> signed_right
         else if predicate = 4 then signed_left > signed_right
         else if predicate = 5 then signed_left \<ge> signed_right
         else if predicate = 6 then left < right
         else if predicate = 7 then left \<le> right
         else if predicate = 8 then left > right
         else if predicate = 9 then left \<ge> right
         else False)"

text \<open>The two out-parameters of \<^verbatim>\<open>multiply_full_unsigned\<close> are the pair \<open>(low, high)\<close>.\<close>

definition multiply_full_unsigned :: "u64 \<Rightarrow> u64 \<Rightarrow> u64 \<times> u64" where
  "multiply_full_unsigned a b =
     (let a_low = a AND 0xFFFFFFFF; a_high = drop_bit 32 a;
          b_low = b AND 0xFFFFFFFF; b_high = drop_bit 32 b;
          low_low = a_low * b_low; low_high = a_low * b_high;
          high_low = a_high * b_low; high_high = a_high * b_high;
          middle = drop_bit 32 low_low + (low_high AND 0xFFFFFFFF) + (high_low AND 0xFFFFFFFF);
          low = push_bit 32 middle OR (low_low AND 0xFFFFFFFF);
          high = high_high + drop_bit 32 low_high + drop_bit 32 high_low + drop_bit 32 middle
      in (low, high))"

definition multiply_high_signed_value :: "u64 \<Rightarrow> u64 \<Rightarrow> u64" where
  "multiply_high_signed_value a b =
     (let high = snd (multiply_full_unsigned a b);
          high = (if sint a < 0 then high - b else high);
          high = (if sint b < 0 then high - a else high)
      in high)"

text \<open>The two carry chains of the execute stage, as value and carry-out.\<close>

definition add_with_carry :: "u64 \<Rightarrow> u64 \<Rightarrow> u64 \<Rightarrow> u64 \<times> bool" where
  "add_with_carry a b carry_in =
     (let partial = a + b; carry_from_sum = partial < a;
          total = partial + carry_in; carry_from_increment = total < partial
      in (total, carry_from_sum \<or> carry_from_increment))"

definition subtract_with_borrow :: "u64 \<Rightarrow> u64 \<Rightarrow> u64 \<Rightarrow> u64 \<times> bool" where
  "subtract_with_borrow a b carry_in =
     (let partial = a - b; borrow_from_difference = a < b;
          total = partial - carry_in; borrow_from_decrement = partial < carry_in
      in (total, borrow_from_difference \<or> borrow_from_decrement))"

section \<open>Halves of a product\<close>

lemma unat_low_half: "unat (x AND 0xFFFFFFFF :: u64) = unat x mod 2 ^ 32"
proof -
  have "x AND 0xFFFFFFFF = take_bit 32 x" by (simp add: take_bit_eq_mask mask_eq_exp_minus_1)
  then show ?thesis by (simp only: unsigned_take_bit_eq) (simp add: take_bit_eq_mod)
qed

lemma unat_high_half: "unat (drop_bit 32 x :: u64) = unat x div 2 ^ 32"
  by (subst unat_drop_bit_eq) (rule drop_bit_eq_div)

lemma u64_lt: "unat (x :: u64) < 2 ^ 64"
  using unsigned_less [of x] by simp

lemma unat_add_small: "unat x + unat y < 2 ^ 64 \<Longrightarrow> unat (x + y :: u64) = unat x + unat y"
  by (simp add: unat_word_ariths)

lemma unat_mult_small: "unat x < 2 ^ 32 \<Longrightarrow> unat y < 2 ^ 32 \<Longrightarrow> unat (x * y :: u64) = unat x * unat y"
proof -
  assume a: "unat x < 2 ^ 32" "unat y < 2 ^ 32"
  have "unat x * unat y < 2 ^ 32 * 2 ^ 32" using a by (intro mult_strict_mono) auto
  then show ?thesis by (simp add: unat_word_ariths)
qed

lemma unat_glue:
  "unat (push_bit 32 m OR (l AND 0xFFFFFFFF) :: u64) = (unat m mod 2 ^ 32) * 2 ^ 32 + unat l mod 2 ^ 32"
proof -
  have "push_bit 32 m OR (l AND 0xFFFFFFFF) = push_bit 32 m + take_bit 32 l"
  proof -
    have "l AND 0xFFFFFFFF = take_bit 32 l" by (simp add: take_bit_eq_mask mask_eq_exp_minus_1)
    moreover have "push_bit 32 m + take_bit 32 l = push_bit 32 m OR take_bit 32 l"
      by (rule disjunctive_add) (auto simp: bit_simps)
    ultimately show ?thesis by simp
  qed
  moreover have "unat (push_bit 32 m) = (unat m mod 2 ^ 32) * 2 ^ 32"
  proof -
    have "unat (push_bit 32 m) = take_bit 64 (push_bit 32 (unat m))"
      by (simp add: unsigned_push_bit_eq)
    also have "\<dots> = push_bit 32 (take_bit 32 (unat m))" by (simp add: take_bit_push_bit)
    also have "\<dots> = (unat m mod 2 ^ 32) * 2 ^ 32" by (simp only: push_bit_eq_mult take_bit_eq_mod)
    finally show ?thesis .
  qed
  moreover have "unat (take_bit 32 l) = unat l mod 2 ^ 32"
    by (subst unsigned_take_bit_eq) (rule take_bit_eq_mod)
  moreover have "(unat m mod 2 ^ 32) * 2 ^ 32 + unat l mod 2 ^ 32 < 2 ^ 64"
  proof -
    have "unat m mod 2 ^ 32 < 2 ^ 32" "unat l mod 2 ^ 32 < 2 ^ 32" by simp_all
    then show ?thesis by simp
  qed
  ultimately show ?thesis by (simp only: unat_word_ariths) simp
qed

text \<open>The schoolbook identity on the four half products, over the naturals.\<close>

lemma product_halves:
  fixes al ah bl bh :: nat
  defines "ll \<equiv> al * bl" and "lh \<equiv> al * bh" and "hl \<equiv> ah * bl" and "hh \<equiv> ah * bh"
  defines "mid \<equiv> ll div 2 ^ 32 + lh mod 2 ^ 32 + hl mod 2 ^ 32"
  shows "(al + 2 ^ 32 * ah) * (bl + 2 ^ 32 * bh) =
         ((mid mod 2 ^ 32) * 2 ^ 32 + ll mod 2 ^ 32) +
         2 ^ 64 * (hh + lh div 2 ^ 32 + hl div 2 ^ 32 + mid div 2 ^ 32)"
proof -
  have d: "ll = 2 ^ 32 * (ll div 2 ^ 32) + ll mod 2 ^ 32" "lh = 2 ^ 32 * (lh div 2 ^ 32) + lh mod 2 ^ 32"
    "hl = 2 ^ 32 * (hl div 2 ^ 32) + hl mod 2 ^ 32" "mid = 2 ^ 32 * (mid div 2 ^ 32) + mid mod 2 ^ 32"
    by simp_all
  have "(al + 2 ^ 32 * ah) * (bl + 2 ^ 32 * bh) = ll + 2 ^ 32 * (lh + hl) + 2 ^ 64 * hh"
    by (simp add: ll_def lh_def hl_def hh_def algebra_simps)
  also have "\<dots> = ll mod 2 ^ 32 + 2 ^ 32 * mid + 2 ^ 64 * (hh + lh div 2 ^ 32 + hl div 2 ^ 32)"
  proof -
    have e: "2 ^ 32 * x = 2 ^ 64 * (x div 2 ^ 32) + 2 ^ 32 * (x mod 2 ^ 32)" for x :: nat
    proof -
      have "2 ^ 32 * x = 2 ^ 32 * (2 ^ 32 * (x div 2 ^ 32) + x mod 2 ^ 32)" by simp
      also have "\<dots> = 2 ^ 64 * (x div 2 ^ 32) + 2 ^ 32 * (x mod 2 ^ 32)" by (simp only: distrib_left) simp
      finally show ?thesis .
    qed
    show ?thesis
      using d(1) e [of lh] e [of hl] unfolding mid_def distrib_left by linarith
  qed
  also have "\<dots> = ((mid mod 2 ^ 32) * 2 ^ 32 + ll mod 2 ^ 32) +
         2 ^ 64 * (hh + lh div 2 ^ 32 + hl div 2 ^ 32 + mid div 2 ^ 32)"
  proof -
    have "2 ^ 32 * mid = 2 ^ 32 * (2 ^ 32 * (mid div 2 ^ 32) + mid mod 2 ^ 32)" by simp
    also have "\<dots> = 2 ^ 64 * (mid div 2 ^ 32) + 2 ^ 32 * (mid mod 2 ^ 32)" by (simp only: distrib_left) simp
    finally show ?thesis unfolding distrib_left mult.commute [of "mid mod 2 ^ 32"] by linarith
  qed
  finally show ?thesis .
qed

lemma multiply_full_exact:
  "unat (fst (multiply_full_unsigned a b)) + 2 ^ 64 * unat (snd (multiply_full_unsigned a b)) =
   unat a * unat b"
proof -
  define al ah bl bh where "al = unat a mod 2 ^ 32" and "ah = unat a div 2 ^ 32"
    and "bl = unat b mod 2 ^ 32" and "bh = unat b div 2 ^ 32"
  define ll lh hl hh where "ll = al * bl" and "lh = al * bh" and "hl = ah * bl" and "hh = ah * bh"
  define mid where "mid = ll div 2 ^ 32 + lh mod 2 ^ 32 + hl mod 2 ^ 32"
  have lt: "al < 2 ^ 32" "bl < 2 ^ 32" "ah < 2 ^ 32" "bh < 2 ^ 32"
    using u64_lt [of a] u64_lt [of b] by (simp_all add: al_def bl_def ah_def bh_def less_mult_imp_div_less)
  have split: "unat a = al + 2 ^ 32 * ah" "unat b = bl + 2 ^ 32 * bh"
    by (simp_all add: al_def ah_def bl_def bh_def)
  let ?al = "a AND 0xFFFFFFFF" and ?ah = "drop_bit 32 a" and ?bl = "b AND 0xFFFFFFFF" and ?bh = "drop_bit 32 b"
  have u: "unat ?al = al" "unat ?ah = ah" "unat ?bl = bl" "unat ?bh = bh"
    by (simp_all only: unat_low_half unat_high_half al_def ah_def bl_def bh_def)
  have p: "unat (?al * ?bl) = ll" "unat (?al * ?bh) = lh" "unat (?ah * ?bl) = hl" "unat (?ah * ?bh) = hh"
    using lt by (simp_all only: unat_mult_small u ll_def lh_def hl_def hh_def)
  let ?mid = "drop_bit 32 (?al * ?bl) + (?al * ?bh AND 0xFFFFFFFF) + (?ah * ?bl AND 0xFFFFFFFF)"
  have "ll < 2 ^ 64" using u64_lt [of "?al * ?bl"] by (simp only: p)
  then have "ll div 2 ^ 32 < 2 ^ 32" by (simp add: less_mult_imp_div_less)
  moreover have "lh mod 2 ^ 32 < 2 ^ 32" "hl mod 2 ^ 32 < 2 ^ 32" by simp_all
  moreover have x: "unat (drop_bit 32 (?al * ?bl)) = ll div 2 ^ 32"
    "unat (?al * ?bh AND 0xFFFFFFFF) = lh mod 2 ^ 32" "unat (?ah * ?bl AND 0xFFFFFFFF) = hl mod 2 ^ 32"
    by (simp_all only: unat_high_half unat_low_half p)
  ultimately have m: "unat ?mid = mid"
    unfolding mid_def by (simp add: unat_add_small)
  have low: "unat (fst (multiply_full_unsigned a b)) = (mid mod 2 ^ 32) * 2 ^ 32 + ll mod 2 ^ 32"
    unfolding multiply_full_unsigned_def Let_def fst_conv unat_glue m p ..
  have id: "unat a * unat b = ((mid mod 2 ^ 32) * 2 ^ 32 + ll mod 2 ^ 32) +
         2 ^ 64 * (hh + lh div 2 ^ 32 + hl div 2 ^ 32 + mid div 2 ^ 32)"
    unfolding split mid_def ll_def lh_def hl_def hh_def by (rule product_halves)
  have "2 ^ 64 * (hh + lh div 2 ^ 32 + hl div 2 ^ 32 + mid div 2 ^ 32) \<le> unat a * unat b"
    unfolding id by (rule le_add2)
  also have "unat a * unat b < 2 ^ 64 * 2 ^ 64"
    using u64_lt [of a] u64_lt [of b] by (intro mult_strict_mono) auto
  finally have h: "hh + lh div 2 ^ 32 + hl div 2 ^ 32 + mid div 2 ^ 32 < 2 ^ 64"
    by (simp only: mult_less_cancel1)
  have high: "unat (snd (multiply_full_unsigned a b)) = hh + lh div 2 ^ 32 + hl div 2 ^ 32 + mid div 2 ^ 32"
  proof -
    have y: "unat (drop_bit 32 (?al * ?bh)) = lh div 2 ^ 32" "unat (drop_bit 32 (?ah * ?bl)) = hl div 2 ^ 32"
      "unat (drop_bit 32 ?mid) = mid div 2 ^ 32"
      by (simp_all only: unat_high_half p m)
    show ?thesis
      unfolding multiply_full_unsigned_def Let_def snd_conv
      using h by (simp add: unat_add_small y p)
  qed
  show ?thesis unfolding low high id ..
qed

lemma multiply_full_int:
  "uint (fst (multiply_full_unsigned a b)) + 2 ^ 64 * uint (snd (multiply_full_unsigned a b)) =
   uint a * uint b"
proof -
  have "int (unat (fst (multiply_full_unsigned a b)) + 2 ^ 64 * unat (snd (multiply_full_unsigned a b))) =
        int (unat a * unat b)"
    by (simp only: multiply_full_exact)
  then show ?thesis
    by (simp only: of_nat_add of_nat_mult of_nat_power of_nat_numeral uint_nat [symmetric])
qed

lemma sint_uint_64: "sint (a :: u64) = uint a - (if sint a < 0 then 2 ^ 64 else 0)"
proof -
  have "sint a = signed_take_bit 63 (uint a)" by (simp add: sint_uint)
  then have s: "sint a = (if bit (uint a) 63 then uint a - 2 ^ 64 else uint a)"
    using signed_take_bit_eq_take_bit_minus [of 63 "uint a"]
    by (simp add: take_bit_int_eq_self unsigned_less [of a, simplified] split: if_splits)
  have "uint a < 2 ^ 64" using unsigned_less [of a] by simp
  with s show ?thesis by (auto split: if_splits)
qed

lemma word_of_int_eq_uint_mod: "uint (word_of_int k :: u64) = k mod 2 ^ 64"
  by (simp add: unsigned_of_int take_bit_eq_mod)

text \<open>The signed high word, from the unsigned one by the two corrections of the source.\<close>

lemma multiply_high_signed_exact:
  "sint (multiply_high_signed_value a b) = (sint a * sint b) div 2 ^ 64"
proof -
  define lo where "lo = uint (fst (multiply_full_unsigned a b))"
  define hi where "hi = uint (snd (multiply_full_unsigned a b))"
  define x where "x = (if sint a < 0 then 1 else 0 :: int)"
  define y where "y = (if sint b < 0 then 1 else 0 :: int)"
  define h where "h = hi - x * uint b - y * uint a + x * y * 2 ^ 64"
  have p: "lo + 2 ^ 64 * hi = uint a * uint b" unfolding lo_def hi_def by (rule multiply_full_int)
  have sa: "sint a = uint a - x * 2 ^ 64" and sb: "sint b = uint b - y * 2 ^ 64"
    using sint_uint_64 [of a] sint_uint_64 [of b] by (auto simp: x_def y_def)
  have prod: "sint a * sint b = lo + 2 ^ 64 * h"
    unfolding sa sb h_def using p by (simp add: algebra_simps)
  have lo: "0 \<le> lo" "lo < 2 ^ 64" unfolding lo_def using unsigned_less [of "fst (multiply_full_unsigned a b)"] by simp_all
  have d: "(sint a * sint b) div 2 ^ 64 = h" unfolding prod using lo by simp
  have r: "- (2 ^ 63) \<le> sint a" "sint a < 2 ^ 63" "- (2 ^ 63) \<le> sint b" "sint b < 2 ^ 63"
    using sint_greater_eq [of a] sint_less [of a] sint_greater_eq [of b] sint_less [of b] by simp_all
  have "\<bar>sint a\<bar> * \<bar>sint b\<bar> \<le> 2 ^ 63 * 2 ^ 63" using r by (intro mult_mono) auto
  then have ab: "- (2 ^ 126) \<le> sint a * sint b" "sint a * sint b \<le> 2 ^ 126"
    by (simp_all add: abs_mult [symmetric] abs_le_iff)
  have hb: "- (2 ^ 63) \<le> h" "h < 2 ^ 63" using ab lo prod by simp_all
  have "multiply_high_signed_value a b = word_of_int h"
  proof -
    have "multiply_high_signed_value a b = word_of_int (hi - x * uint b - y * uint a)"
      by (simp add: multiply_high_signed_value_def Let_def hi_def x_def y_def)
    also have "\<dots> = word_of_int h"
      unfolding h_def by (rule word_of_int_eq_iff [THEN iffD2]) (simp add: take_bit_eq_mod)
    finally show ?thesis .
  qed
  moreover have "sint (word_of_int h :: u64) = h"
    using hb by (simp add: signed_of_int signed_take_bit_int_eq_self)
  ultimately show ?thesis unfolding d by simp
qed

section \<open>Carry chains\<close>

lemma add_with_carry_exact:
  assumes "c \<le> 1"
  shows "unat (fst (add_with_carry a b c)) + (if snd (add_with_carry a b c) then 2 ^ 64 else 0) =
         unat a + unat b + unat c"
proof -
  have "unat a < 2 ^ 64" "unat b < 2 ^ 64" "unat c \<le> 1"
    using u64_lt [of a] u64_lt [of b] assms by (simp_all add: word_le_nat_alt)
  then show ?thesis
    by (auto simp: add_with_carry_def Let_def word_less_nat_alt unat_plus_if' split: if_splits)
qed

lemma subtract_with_borrow_exact:
  assumes "c \<le> 1"
  shows "unat (fst (subtract_with_borrow a b c)) + unat b + unat c =
         unat a + (if snd (subtract_with_borrow a b c) then 2 ^ 64 else 0)"
proof -
  have "unat a < 2 ^ 64" "unat b < 2 ^ 64" "unat c \<le> 1"
    using u64_lt [of a] u64_lt [of b] assms by (simp_all add: word_le_nat_alt)
  then show ?thesis
    by (auto simp: subtract_with_borrow_def Let_def word_less_nat_alt unat_sub_if' split: if_splits)
qed

section \<open>Byte reversal\<close>

lemma and_0xFF: "x AND 0xFF = (ucast (ucast x :: u8) :: u64)"
proof -
  have "x AND 0xFF = take_bit 8 x" by (simp add: take_bit_eq_mask mask_eq_exp_minus_1)
  also have "\<dots> = ucast (ucast x :: u8)"
    by (intro bit_word_eqI) (auto simp: bit_simps dest: bit_imp_le_length)
  finally show ?thesis .
qed

lemma reverse_bytes_word_le: "reverse_bytes_word v = le_value (\<lambda>i. byte_element v (7 - i)) 8"
  unfolding reverse_bytes_word_def le_value_def byte_element_def and_0xFF
  by (simp add: upt_rec_numeral upt_conv_Cons or.assoc or.commute or.left_commute)

lemma byte_element_reverse: "i < 8 \<Longrightarrow> byte_element (reverse_bytes_word v) i = byte_element v (7 - i)"
  unfolding reverse_bytes_word_le by (simp add: byte_element_def ucast_drop_bit_le_value)

lemma reverse_bytes_word_involution: "reverse_bytes_word (reverse_bytes_word v) = v"
proof -
  have "reverse_bytes_word (reverse_bytes_word v) = le_value (\<lambda>i. byte_element v i) 8"
    by (subst reverse_bytes_word_le) (rule le_value_cong, simp add: byte_element_reverse)
  also have "\<dots> = take_bit 64 v" using le_value_bytes [of 8 v] by (simp add: byte_element_def)
  also have "\<dots> = v" by (rule bit_word_eqI) (simp add: bit_simps)
  finally show ?thesis .
qed

section \<open>Bit fields\<close>

definition bitfield_insert :: "u64 \<Rightarrow> u64 \<Rightarrow> nat \<Rightarrow> nat \<Rightarrow> u64" where
  "bitfield_insert target source position width =
     (let mask = field_mask width; field = source AND mask
      in (target AND NOT (push_bit position mask)) OR push_bit position field)"

definition bitfield_extract :: "u64 \<Rightarrow> nat \<Rightarrow> nat \<Rightarrow> u64" where
  "bitfield_extract source position width = drop_bit position source AND field_mask width"

lemma field_mask_eq: "width \<le> 64 \<Longrightarrow> field_mask width = mask width"
proof (cases "width = 64")
  case True
  have "NOT 0 = (mask 64 :: u64)" by (rule bit_word_eqI) (simp add: bit_simps)
  with True show ?thesis by (simp add: field_mask_def)
qed (simp add: field_mask_def mask_eq_exp_minus_1 push_bit_of_1)

lemma bit_bitfield_insert:
  assumes "position + width \<le> 64" and "n < 64"
  shows "bit (bitfield_insert target source position width) n =
         (if position \<le> n \<and> n < position + width then bit source (n - position) else bit target n)"
  using assms
  by (auto simp: bitfield_insert_def Let_def field_mask_eq bit_simps)

lemma bitfield_extract_insert:
  assumes "position + width \<le> 64"
  shows "bitfield_extract (bitfield_insert target source position width) position width =
         source AND field_mask width"
  using assms
  by (intro bit_word_eqI)
    (auto simp: bitfield_extract_def bit_bitfield_insert field_mask_eq bit_simps dest: bit_imp_le_length)

section \<open>Properties\<close>

text \<open>C31: The product built from 32-bit halves is exact: its low and high words together are the
  full 128-bit unsigned product, and the signed high word is the upper half of the exact signed
  product.\<close>

theorem multiply_exact:
  "uint (fst (multiply_full_unsigned a b)) + 2 ^ 64 * uint (snd (multiply_full_unsigned a b)) =
     uint a * uint b \<and>
   sint (multiply_high_signed_value a b) = (sint a * sint b) div 2 ^ 64"
  using multiply_full_int multiply_high_signed_exact by blast

text \<open>C32: The carry chains are exact: the sum and its carry-out, and the difference and its
  borrow-out, account for both operands and the carry-in bit over the integers.\<close>

theorem carry_chains_exact:
  "unat (fst (add_with_carry a b (c AND 1))) + (if snd (add_with_carry a b (c AND 1)) then 2 ^ 64 else 0) =
     unat a + unat b + unat (c AND 1) \<and>
   unat (fst (subtract_with_borrow a b (c AND 1))) + unat b + unat (c AND 1) =
     unat a + (if snd (subtract_with_borrow a b (c AND 1)) then 2 ^ 64 else 0)"
proof -
  have "c AND 1 \<le> 1" by (simp add: and_one_eq mod2_eq_if)
  then show ?thesis using add_with_carry_exact subtract_with_borrow_exact by blast
qed

text \<open>Byte reversal sends byte \<open>i\<close> to byte \<open>7 - i\<close> and undoes itself.\<close>

theorem byte_reverse_correct:
  "reverse_bytes_word (reverse_bytes_word v) = v \<and>
   map (byte_element (reverse_bytes_word v)) [0..<8] = rev (map (byte_element v) [0..<8])"
proof -
  have u: "[0..<8] = [0, 1, 2, 3, 4, 5, 6, 7 :: nat]" by code_simp
  have "map (byte_element (reverse_bytes_word v)) [0..<8] = map (\<lambda>i. byte_element v (7 - i)) [0..<8]"
    by (simp add: byte_element_reverse)
  also have "\<dots> = rev (map (byte_element v) [0..<8])" unfolding u by simp
  finally show ?thesis by (simp add: reverse_bytes_word_involution)
qed



end
