(* ===== verification/Opcodes.thy ===== *)
theory Opcodes
  imports Maize_Prelude
begin

text \<open>
  The primary opcode page, \<^verbatim>\<open>src/v2/opcode_v2.h\<close>: the fifteen length classes, the operand
  slot classes, the opcode bytes, and the 256-entry table built by the source's sequence of
  assignments.
\<close>

section \<open>Length classes and slot classes\<close>

datatype Shape = Shape_None | Op | OpR | OpRR | OpRRR | OpRRRR | OpI1 | OpI4 | OpRI1 | OpRI2
  | OpRI4 | OpRI8 | OpRRI1 | OpRRI2 | OpRRI4 | OpRRI1I1

datatype Slot = Slot_None | Plain | ByteSliced | QuarterSliced | HalfSliced

datatype OpcodeKind = Reserved | Escape | Assigned

record ShapeInfo =
  si_operands :: nat
  si_immediates :: nat
  si_immediate_bytes :: "nat list"
  si_length :: nat

fun shape_info :: "Shape \<Rightarrow> ShapeInfo" where
  "shape_info Shape_None =
     \<lparr>si_operands = 0, si_immediates = 0, si_immediate_bytes = [0, 0], si_length = 0\<rparr>"
| "shape_info Op =
     \<lparr>si_operands = 0, si_immediates = 0, si_immediate_bytes = [0, 0], si_length = 1\<rparr>"
| "shape_info OpR =
     \<lparr>si_operands = 1, si_immediates = 0, si_immediate_bytes = [0, 0], si_length = 2\<rparr>"
| "shape_info OpRR =
     \<lparr>si_operands = 2, si_immediates = 0, si_immediate_bytes = [0, 0], si_length = 3\<rparr>"
| "shape_info OpRRR =
     \<lparr>si_operands = 3, si_immediates = 0, si_immediate_bytes = [0, 0], si_length = 4\<rparr>"
| "shape_info OpRRRR =
     \<lparr>si_operands = 4, si_immediates = 0, si_immediate_bytes = [0, 0], si_length = 5\<rparr>"
| "shape_info OpI1 =
     \<lparr>si_operands = 0, si_immediates = 1, si_immediate_bytes = [1, 0], si_length = 2\<rparr>"
| "shape_info OpI4 =
     \<lparr>si_operands = 0, si_immediates = 1, si_immediate_bytes = [4, 0], si_length = 5\<rparr>"
| "shape_info OpRI1 =
     \<lparr>si_operands = 1, si_immediates = 1, si_immediate_bytes = [1, 0], si_length = 3\<rparr>"
| "shape_info OpRI2 =
     \<lparr>si_operands = 1, si_immediates = 1, si_immediate_bytes = [2, 0], si_length = 4\<rparr>"
| "shape_info OpRI4 =
     \<lparr>si_operands = 1, si_immediates = 1, si_immediate_bytes = [4, 0], si_length = 6\<rparr>"
| "shape_info OpRI8 =
     \<lparr>si_operands = 1, si_immediates = 1, si_immediate_bytes = [8, 0], si_length = 10\<rparr>"
| "shape_info OpRRI1 =
     \<lparr>si_operands = 2, si_immediates = 1, si_immediate_bytes = [1, 0], si_length = 4\<rparr>"
| "shape_info OpRRI2 =
     \<lparr>si_operands = 2, si_immediates = 1, si_immediate_bytes = [2, 0], si_length = 5\<rparr>"
| "shape_info OpRRI4 =
     \<lparr>si_operands = 2, si_immediates = 1, si_immediate_bytes = [4, 0], si_length = 7\<rparr>"
| "shape_info OpRRI1I1 =
     \<lparr>si_operands = 2, si_immediates = 2, si_immediate_bytes = [1, 1], si_length = 5\<rparr>"

record OpcodeInfo =
  oi_kind :: OpcodeKind
  oi_shape :: Shape
  oi_length :: nat
  oi_slots :: "Slot list"

definition unassigned :: OpcodeInfo where
  "unassigned = \<lparr>oi_kind = Reserved, oi_shape = Shape_None, oi_length = 0,
     oi_slots = [Slot_None, Slot_None, Slot_None, Slot_None]\<rparr>"

section \<open>Opcode bytes\<close>

abbreviation (input) op_kMove :: u8 where
  "op_kMove \<equiv> 0x01"

abbreviation (input) op_kMoveW :: u8 where
  "op_kMoveW \<equiv> 0x02"

abbreviation (input) op_kMoveZb :: u8 where
  "op_kMoveZb \<equiv> 0x03"

abbreviation (input) op_kMoveSb :: u8 where
  "op_kMoveSb \<equiv> 0x04"

abbreviation (input) op_kMoveZq :: u8 where
  "op_kMoveZq \<equiv> 0x05"

abbreviation (input) op_kMoveSq :: u8 where
  "op_kMoveSq \<equiv> 0x06"

abbreviation (input) op_kMoveZh :: u8 where
  "op_kMoveZh \<equiv> 0x07"

abbreviation (input) op_kMoveSh :: u8 where
  "op_kMoveSh \<equiv> 0x08"

abbreviation (input) op_kPcAdd :: u8 where
  "op_kPcAdd \<equiv> 0x09"

abbreviation (input) op_kAdd :: u8 where
  "op_kAdd \<equiv> 0x10"

abbreviation (input) op_kAddH :: u8 where
  "op_kAddH \<equiv> 0x11"

abbreviation (input) op_kSubtract :: u8 where
  "op_kSubtract \<equiv> 0x12"

abbreviation (input) op_kSubtractH :: u8 where
  "op_kSubtractH \<equiv> 0x13"

abbreviation (input) op_kMultiply :: u8 where
  "op_kMultiply \<equiv> 0x14"

abbreviation (input) op_kMultiplyH :: u8 where
  "op_kMultiplyH \<equiv> 0x15"

abbreviation (input) op_kMultiplyHighSigned :: u8 where
  "op_kMultiplyHighSigned \<equiv> 0x16"

abbreviation (input) op_kMultiplyHighUnsigned :: u8 where
  "op_kMultiplyHighUnsigned \<equiv> 0x17"

abbreviation (input) op_kDivideSigned :: u8 where
  "op_kDivideSigned \<equiv> 0x18"

abbreviation (input) op_kDivideSignedH :: u8 where
  "op_kDivideSignedH \<equiv> 0x19"

abbreviation (input) op_kDivideUnsigned :: u8 where
  "op_kDivideUnsigned \<equiv> 0x1A"

abbreviation (input) op_kDivideUnsignedH :: u8 where
  "op_kDivideUnsignedH \<equiv> 0x1B"

abbreviation (input) op_kRemainderSigned :: u8 where
  "op_kRemainderSigned \<equiv> 0x1C"

abbreviation (input) op_kRemainderSignedH :: u8 where
  "op_kRemainderSignedH \<equiv> 0x1D"

abbreviation (input) op_kRemainderUnsigned :: u8 where
  "op_kRemainderUnsigned \<equiv> 0x1E"

abbreviation (input) op_kRemainderUnsignedH :: u8 where
  "op_kRemainderUnsignedH \<equiv> 0x1F"

abbreviation (input) op_kAnd :: u8 where
  "op_kAnd \<equiv> 0x20"

abbreviation (input) op_kOr :: u8 where
  "op_kOr \<equiv> 0x21"

abbreviation (input) op_kXor :: u8 where
  "op_kXor \<equiv> 0x22"

abbreviation (input) op_kShiftLeft :: u8 where
  "op_kShiftLeft \<equiv> 0x23"

abbreviation (input) op_kShiftLeftH :: u8 where
  "op_kShiftLeftH \<equiv> 0x24"

abbreviation (input) op_kShiftRightLogical :: u8 where
  "op_kShiftRightLogical \<equiv> 0x25"

abbreviation (input) op_kShiftRightLogicalH :: u8 where
  "op_kShiftRightLogicalH \<equiv> 0x26"

abbreviation (input) op_kShiftRightArithmetic :: u8 where
  "op_kShiftRightArithmetic \<equiv> 0x27"

abbreviation (input) op_kShiftRightArithmeticH :: u8 where
  "op_kShiftRightArithmeticH \<equiv> 0x28"

abbreviation (input) op_kNot :: u8 where
  "op_kNot \<equiv> 0x29"

abbreviation (input) op_kNotH :: u8 where
  "op_kNotH \<equiv> 0x2A"

abbreviation (input) op_kNegate :: u8 where
  "op_kNegate \<equiv> 0x2B"

abbreviation (input) op_kNegateH :: u8 where
  "op_kNegateH \<equiv> 0x2C"

abbreviation (input) op_kByteReverse :: u8 where
  "op_kByteReverse \<equiv> 0x2D"

abbreviation (input) op_kByteReverseH :: u8 where
  "op_kByteReverseH \<equiv> 0x2E"

abbreviation (input) op_kAddCarry :: u8 where
  "op_kAddCarry \<equiv> 0x2F"

abbreviation (input) op_kSubtractBorrow :: u8 where
  "op_kSubtractBorrow \<equiv> 0x30"

abbreviation (input) op_kAddImm :: u8 where
  "op_kAddImm \<equiv> 0x31"

abbreviation (input) op_kAddHImm :: u8 where
  "op_kAddHImm \<equiv> 0x32"

abbreviation (input) op_kSubtractImm :: u8 where
  "op_kSubtractImm \<equiv> 0x33"

abbreviation (input) op_kSubtractHImm :: u8 where
  "op_kSubtractHImm \<equiv> 0x34"

abbreviation (input) op_kAndImm :: u8 where
  "op_kAndImm \<equiv> 0x35"

abbreviation (input) op_kOrImm :: u8 where
  "op_kOrImm \<equiv> 0x36"

abbreviation (input) op_kXorImm :: u8 where
  "op_kXorImm \<equiv> 0x37"

abbreviation (input) op_kShiftLeftImm :: u8 where
  "op_kShiftLeftImm \<equiv> 0x38"

abbreviation (input) op_kShiftLeftHImm :: u8 where
  "op_kShiftLeftHImm \<equiv> 0x39"

abbreviation (input) op_kShiftRightLogicalImm :: u8 where
  "op_kShiftRightLogicalImm \<equiv> 0x3A"

abbreviation (input) op_kShiftRightLogicalHImm :: u8 where
  "op_kShiftRightLogicalHImm \<equiv> 0x3B"

abbreviation (input) op_kShiftRightArithmeticImm :: u8 where
  "op_kShiftRightArithmeticImm \<equiv> 0x3C"

abbreviation (input) op_kShiftRightArithmeticHImm :: u8 where
  "op_kShiftRightArithmeticHImm \<equiv> 0x3D"

abbreviation (input) op_kCompareEq :: u8 where
  "op_kCompareEq \<equiv> 0x40"

abbreviation (input) op_kCompareNe :: u8 where
  "op_kCompareNe \<equiv> 0x41"

abbreviation (input) op_kCompareLtSigned :: u8 where
  "op_kCompareLtSigned \<equiv> 0x42"

abbreviation (input) op_kCompareLeSigned :: u8 where
  "op_kCompareLeSigned \<equiv> 0x43"

abbreviation (input) op_kCompareGtSigned :: u8 where
  "op_kCompareGtSigned \<equiv> 0x44"

abbreviation (input) op_kCompareGeSigned :: u8 where
  "op_kCompareGeSigned \<equiv> 0x45"

abbreviation (input) op_kCompareLtUnsigned :: u8 where
  "op_kCompareLtUnsigned \<equiv> 0x46"

abbreviation (input) op_kCompareLeUnsigned :: u8 where
  "op_kCompareLeUnsigned \<equiv> 0x47"

abbreviation (input) op_kCompareGtUnsigned :: u8 where
  "op_kCompareGtUnsigned \<equiv> 0x48"

abbreviation (input) op_kCompareGeUnsigned :: u8 where
  "op_kCompareGeUnsigned \<equiv> 0x49"

abbreviation (input) op_kCompareImmBase :: u8 where
  "op_kCompareImmBase \<equiv> 0x4A"

abbreviation (input) op_kBranchBase :: u8 where
  "op_kBranchBase \<equiv> 0x60"

abbreviation (input) op_kJumpDisp :: u8 where
  "op_kJumpDisp \<equiv> 0x70"

abbreviation (input) op_kJumpReg :: u8 where
  "op_kJumpReg \<equiv> 0x71"

abbreviation (input) op_kCallDisp :: u8 where
  "op_kCallDisp \<equiv> 0x72"

abbreviation (input) op_kCallReg :: u8 where
  "op_kCallReg \<equiv> 0x73"

abbreviation (input) op_kReturn :: u8 where
  "op_kReturn \<equiv> 0x74"

abbreviation (input) op_kSelectNz :: u8 where
  "op_kSelectNz \<equiv> 0x75"

abbreviation (input) op_kSelectZ :: u8 where
  "op_kSelectZ \<equiv> 0x76"

abbreviation (input) op_kLoad :: u8 where
  "op_kLoad \<equiv> 0x80"

abbreviation (input) op_kLoadZb :: u8 where
  "op_kLoadZb \<equiv> 0x81"

abbreviation (input) op_kLoadSb :: u8 where
  "op_kLoadSb \<equiv> 0x82"

abbreviation (input) op_kLoadZq :: u8 where
  "op_kLoadZq \<equiv> 0x83"

abbreviation (input) op_kLoadSq :: u8 where
  "op_kLoadSq \<equiv> 0x84"

abbreviation (input) op_kLoadZh :: u8 where
  "op_kLoadZh \<equiv> 0x85"

abbreviation (input) op_kLoadSh :: u8 where
  "op_kLoadSh \<equiv> 0x86"

abbreviation (input) op_kLoadDisp :: u8 where
  "op_kLoadDisp \<equiv> 0x87"

abbreviation (input) op_kStore :: u8 where
  "op_kStore \<equiv> 0x8E"

abbreviation (input) op_kStoreB :: u8 where
  "op_kStoreB \<equiv> 0x8F"

abbreviation (input) op_kStoreQ :: u8 where
  "op_kStoreQ \<equiv> 0x90"

abbreviation (input) op_kStoreH :: u8 where
  "op_kStoreH \<equiv> 0x91"

abbreviation (input) op_kStoreDisp :: u8 where
  "op_kStoreDisp \<equiv> 0x92"

abbreviation (input) op_kExtractZb :: u8 where
  "op_kExtractZb \<equiv> 0xA0"

abbreviation (input) op_kExtractSb :: u8 where
  "op_kExtractSb \<equiv> 0xA1"

abbreviation (input) op_kExtractZq :: u8 where
  "op_kExtractZq \<equiv> 0xA2"

abbreviation (input) op_kExtractSq :: u8 where
  "op_kExtractSq \<equiv> 0xA3"

abbreviation (input) op_kExtractZh :: u8 where
  "op_kExtractZh \<equiv> 0xA4"

abbreviation (input) op_kExtractSh :: u8 where
  "op_kExtractSh \<equiv> 0xA5"

abbreviation (input) op_kInsertB :: u8 where
  "op_kInsertB \<equiv> 0xA6"

abbreviation (input) op_kInsertQ :: u8 where
  "op_kInsertQ \<equiv> 0xA7"

abbreviation (input) op_kInsertH :: u8 where
  "op_kInsertH \<equiv> 0xA8"

abbreviation (input) op_kBitfieldExtract :: u8 where
  "op_kBitfieldExtract \<equiv> 0xA9"

abbreviation (input) op_kBitfieldExtractSigned :: u8 where
  "op_kBitfieldExtractSigned \<equiv> 0xAA"

abbreviation (input) op_kBitfieldInsert :: u8 where
  "op_kBitfieldInsert \<equiv> 0xAB"

abbreviation (input) op_kBlockCopy :: u8 where
  "op_kBlockCopy \<equiv> 0xB0"

abbreviation (input) op_kBlockCopyForward :: u8 where
  "op_kBlockCopyForward \<equiv> 0xB1"

abbreviation (input) op_kBlockSet :: u8 where
  "op_kBlockSet \<equiv> 0xB2"

abbreviation (input) op_kCsrRead :: u8 where
  "op_kCsrRead \<equiv> 0xB8"

abbreviation (input) op_kCsrWrite :: u8 where
  "op_kCsrWrite \<equiv> 0xB9"

abbreviation (input) op_kSysImm :: u8 where
  "op_kSysImm \<equiv> 0xBA"

abbreviation (input) op_kSysReg :: u8 where
  "op_kSysReg \<equiv> 0xBB"

abbreviation (input) op_kTrapReturn :: u8 where
  "op_kTrapReturn \<equiv> 0xBC"

abbreviation (input) op_kHalt :: u8 where
  "op_kHalt \<equiv> 0xBD"

abbreviation (input) op_kWaitForInterrupt :: u8 where
  "op_kWaitForInterrupt \<equiv> 0xBE"

abbreviation (input) op_kNop :: u8 where
  "op_kNop \<equiv> 0xBF"

abbreviation (input) op_kTlbInvalidateAll :: u8 where
  "op_kTlbInvalidateAll \<equiv> 0xC0"

abbreviation (input) op_kTlbInvalidateAddress :: u8 where
  "op_kTlbInvalidateAddress \<equiv> 0xC1"

abbreviation (input) op_kPortIn :: u8 where
  "op_kPortIn \<equiv> 0xC2"

abbreviation (input) op_kPortOut :: u8 where
  "op_kPortOut \<equiv> 0xC3"

abbreviation (input) op_kCsrSwap :: u8 where
  "op_kCsrSwap \<equiv> 0xC4"

abbreviation (input) op_kBreakpoint :: u8 where
  "op_kBreakpoint \<equiv> 0xFF"

section \<open>The table\<close>

text \<open>
  \<^verbatim>\<open>detail::assign\<close> with its default arguments: slots that are not given are
  \<^verbatim>\<open>Slot::None\<close>. A \<^verbatim>\<open>for\<close> loop over a run of bytes is \<open>assign_range\<close>.
\<close>

type_synonym opcode_table = "OpcodeInfo list"

definition assign :: "u8 \<Rightarrow> Shape \<Rightarrow> Slot list \<Rightarrow> opcode_table \<Rightarrow> opcode_table" where
  "assign byte shape slots t =
     t[unat byte := \<lparr>oi_kind = Assigned, oi_shape = shape, oi_length = si_length (shape_info shape),
                     oi_slots = take 4 (slots @ replicate 4 Slot_None)\<rparr>]"

definition assign_range :: "u8 \<Rightarrow> u8 \<Rightarrow> Shape \<Rightarrow> Slot list \<Rightarrow> opcode_table \<Rightarrow> opcode_table" where
  "assign_range lo hi shape slots t =
     fold (\<lambda>b t. assign (of_nat b) shape slots t) [unat lo..<Suc (unat hi)] t"

definition escape_range :: "u8 \<Rightarrow> u8 \<Rightarrow> opcode_table \<Rightarrow> opcode_table" where
  "escape_range lo hi t =
     fold (\<lambda>b t. t[b := (t ! b)\<lparr>oi_kind := Escape\<rparr>]) [unat lo..<Suc (unat hi)] t"

definition assign_moves :: "opcode_table \<Rightarrow> opcode_table" where
  "assign_moves t =
     (let t = assign op_kMove OpRR [Plain, Plain] t;
          t = assign op_kMoveW OpRI8 [Plain] t;
          t = assign op_kMoveZb OpRI1 [Plain] t;
          t = assign op_kMoveSb OpRI1 [Plain] t;
          t = assign op_kMoveZq OpRI2 [Plain] t;
          t = assign op_kMoveSq OpRI2 [Plain] t;
          t = assign op_kMoveZh OpRI4 [Plain] t;
          t = assign op_kMoveSh OpRI4 [Plain] t;
          t = assign op_kPcAdd OpRI4 [Plain] t
      in t)"

definition assign_integer :: "opcode_table \<Rightarrow> opcode_table" where
  "assign_integer t =
     (let t = assign_range op_kAdd op_kShiftRightArithmeticH OpRRR [Plain, Plain, Plain] t;
          t = assign_range op_kNot op_kByteReverseH OpRR [Plain, Plain] t;
          t = assign op_kAddCarry OpRRRR [Plain, Plain, Plain, Plain] t;
          t = assign op_kSubtractBorrow OpRRRR [Plain, Plain, Plain, Plain] t;
          t = assign_range op_kAddImm op_kXorImm OpRRI4 [Plain, Plain] t;
          t = assign_range op_kShiftLeftImm op_kShiftRightArithmeticHImm OpRRI1 [Plain, Plain] t;
          t = assign_range op_kCompareEq op_kCompareGeUnsigned OpRRR [Plain, Plain, Plain] t;
          t = assign_range op_kCompareImmBase (op_kCompareImmBase + 9) OpRRI4 [Plain, Plain] t
      in t)"

definition assign_control :: "opcode_table \<Rightarrow> opcode_table" where
  "assign_control t =
     (let t = assign_range op_kBranchBase (op_kBranchBase + 9) OpRRI4 [Plain, Plain] t;
          t = assign op_kJumpDisp OpI4 [] t;
          t = assign op_kJumpReg OpR [Plain] t;
          t = assign op_kCallDisp OpI4 [] t;
          t = assign op_kCallReg OpR [Plain] t;
          t = assign op_kReturn Op [] t;
          t = assign op_kSelectNz OpRRR [Plain, Plain, Plain] t;
          t = assign op_kSelectZ OpRRR [Plain, Plain, Plain] t
      in t)"

definition assign_memory :: "opcode_table \<Rightarrow> opcode_table" where
  "assign_memory t =
     (let t = assign_range op_kLoad op_kLoadSh OpRR [Plain, Plain] t;
          t = assign_range op_kLoadDisp (op_kLoadDisp + 6) OpRRI2 [Plain, Plain] t;
          t = assign_range op_kStore op_kStoreH OpRR [Plain, Plain] t;
          t = assign_range op_kStoreDisp (op_kStoreDisp + 3) OpRRI2 [Plain, Plain] t;
          t = assign op_kExtractZb OpRR [ByteSliced, Plain] t;
          t = assign op_kExtractSb OpRR [ByteSliced, Plain] t;
          t = assign op_kExtractZq OpRR [QuarterSliced, Plain] t;
          t = assign op_kExtractSq OpRR [QuarterSliced, Plain] t;
          t = assign op_kExtractZh OpRR [HalfSliced, Plain] t;
          t = assign op_kExtractSh OpRR [HalfSliced, Plain] t;
          t = assign op_kInsertB OpRR [Plain, ByteSliced] t;
          t = assign op_kInsertQ OpRR [Plain, QuarterSliced] t;
          t = assign op_kInsertH OpRR [Plain, HalfSliced] t;
          t = assign op_kBitfieldExtract OpRRI1I1 [Plain, Plain] t;
          t = assign op_kBitfieldExtractSigned OpRRI1I1 [Plain, Plain] t;
          t = assign op_kBitfieldInsert OpRRI1I1 [Plain, Plain] t;
          t = assign op_kBlockCopy OpRRR [Plain, Plain, Plain] t;
          t = assign op_kBlockCopyForward OpRRR [Plain, Plain, Plain] t;
          t = assign op_kBlockSet OpRRR [Plain, Plain, Plain] t
      in t)"

definition assign_system :: "opcode_table \<Rightarrow> opcode_table" where
  "assign_system t =
     (let t = assign op_kCsrRead OpRI2 [Plain] t;
          t = assign op_kCsrWrite OpRI2 [Plain] t;
          t = assign op_kSysImm OpI1 [] t;
          t = assign op_kSysReg OpR [Plain] t;
          t = assign op_kTrapReturn Op [] t;
          t = assign op_kHalt Op [] t;
          t = assign op_kWaitForInterrupt Op [] t;
          t = assign op_kNop Op [] t;
          t = assign op_kTlbInvalidateAll Op [] t;
          t = assign op_kTlbInvalidateAddress OpR [Plain] t;
          t = assign op_kPortIn OpRR [Plain, Plain] t;
          t = assign op_kPortOut OpRR [Plain, Plain] t;
          t = assign op_kCsrSwap OpRRI2 [Plain, Plain] t
      in t)"

definition assign_float :: "opcode_table \<Rightarrow> opcode_table" where
  "assign_float t =
     (let t = assign_range 0xC8 0xCF OpRRR [Plain, Plain, Plain] t;
          t = assign_range 0xD0 0xD5 OpRR [Plain, Plain] t;
          t = assign_range 0xD6 0xD9 OpRRRR [Plain, Plain, Plain, Plain] t;
          t = assign_range 0xDA 0xE9 OpRRR [Plain, Plain, Plain] t;
          t = assign_range 0xEA 0xF3 OpRR [Plain, Plain] t
      in t)"

definition build_opcode_table :: opcode_table where
  "build_opcode_table =
     (let t = replicate 256 unassigned;
          t = assign_moves t;
          t = assign_integer t;
          t = assign_control t;
          t = assign_memory t;
          t = assign_system t;
          t = assign_float t;
          t = escape_range 0xF8 0xFE t;
          t = assign op_kBreakpoint Op [] t
      in t)"

definition kOpcodeTable :: opcode_table where
  "kOpcodeTable = build_opcode_table"

definition opcode_info :: "u8 \<Rightarrow> OpcodeInfo" where
  "opcode_info b = kOpcodeTable ! unat b"

definition build_length_table :: "int list" where
  "build_length_table =
     map (\<lambda>i. if oi_kind (kOpcodeTable ! i) = Assigned then int (oi_length (kOpcodeTable ! i)) else - 1)
       [0..<256]"

definition instruction_length :: "u8 \<Rightarrow> int" where
  "instruction_length opcode_byte = build_length_table ! unat opcode_byte"

section \<open>Properties\<close>

text \<open>
  What every entry of the table satisfies: a byte has a shape exactly when it is assigned, its
  length is the opcode byte plus its operand bytes plus its immediates, and exactly the operand
  positions of its shape carry a slot class.
\<close>

definition wf_opcode_info :: "OpcodeInfo \<Rightarrow> bool" where
  "wf_opcode_info i \<longleftrightarrow>
     (let s = shape_info (oi_shape i)
      in (oi_kind i = Assigned) = (oi_shape i \<noteq> Shape_None) \<and>
         oi_length i = si_length s \<and>
         (oi_kind i = Assigned \<longrightarrow>
            oi_length i = 1 + si_operands s + sum_list (take (si_immediates s) (si_immediate_bytes s))) \<and>
         map (\<lambda>c. c \<noteq> Slot_None) (oi_slots i) = map (\<lambda>k. k < si_operands s) [0..<4])"

lemma kOpcodeTable_checked:
  "length kOpcodeTable = 256 \<and> list_all wf_opcode_info kOpcodeTable"
  by code_simp

lemma wf_opcode_info_opcode_info: "wf_opcode_info (opcode_info b)"
  using kOpcodeTable_checked u8_lt_256 [of b] by (simp add: opcode_info_def list_all_nthD)

lemma shape_operands_le_4: "si_operands (shape_info s) \<le> 4"
  by (cases s) simp_all

lemma shape_immediates_le_2: "si_immediates (shape_info s) \<le> 2"
  by (cases s) simp_all

lemma shape_immediate_bytes_le_8:
  "i < si_immediates (shape_info s) \<Longrightarrow> si_immediate_bytes (shape_info s) ! i \<le> 8"
  by (cases s) (auto simp: less_Suc_eq numeral_2_eq_2)

lemma length_immediate_bytes [simp]: "length (si_immediate_bytes (shape_info s)) = 2"
  by (cases s) simp_all

lemma length_slots: "length (oi_slots (opcode_info b)) = 4"
proof -
  have "length (map (\<lambda>c. c \<noteq> Slot_None) (oi_slots (opcode_info b))) =
        length (map (\<lambda>k. k < si_operands (shape_info (oi_shape (opcode_info b)))) [0..<4])"
    using wf_opcode_info_opcode_info [of b] unfolding wf_opcode_info_def Let_def by argo
  then show ?thesis by simp
qed

lemma assigned_length_bounds:
  assumes "oi_kind (opcode_info b) = Assigned"
  shows "1 \<le> oi_length (opcode_info b)" and "oi_length (opcode_info b) \<le> 10"
proof -
  have "oi_length (opcode_info b) = si_length (shape_info (oi_shape (opcode_info b)))"
    and "oi_shape (opcode_info b) \<noteq> Shape_None"
    using wf_opcode_info_opcode_info [of b] assms unfolding wf_opcode_info_def Let_def by argo+
  then show "1 \<le> oi_length (opcode_info b)" and "oi_length (opcode_info b) \<le> 10"
    by (cases "oi_shape (opcode_info b)"; simp)+
qed

lemma assigned_count: "length (filter (\<lambda>i. oi_kind i = Assigned) kOpcodeTable) = 187"
  by code_simp

text \<open>The opcode table is total and self-consistent: every one of the 256 bytes has a length
  in the length table, which is minus one exactly for the 69 bytes that are not assigned and
  otherwise the opcode byte plus the operand bytes plus the immediate bytes of its shape; slot
  classes stand exactly at the shape's operand positions; byte zero is reserved.\<close>

theorem opcode_table_consistent:
  "instruction_length b =
     (if oi_kind (opcode_info b) = Assigned
      then int (1 + si_operands (shape_info (oi_shape (opcode_info b))) +
                sum_list (take (si_immediates (shape_info (oi_shape (opcode_info b))))
                               (si_immediate_bytes (shape_info (oi_shape (opcode_info b))))))
      else - 1) \<and>
   map (\<lambda>c. c \<noteq> Slot_None) (oi_slots (opcode_info b)) =
     map (\<lambda>k. k < si_operands (shape_info (oi_shape (opcode_info b)))) [0..<4] \<and>
   length (filter (\<lambda>i. oi_kind i \<noteq> Assigned) kOpcodeTable) = 69 \<and>
   oi_kind (opcode_info 0) = Reserved"
proof -
  note wf = wf_opcode_info_opcode_info [of b, unfolded wf_opcode_info_def Let_def]
  have len: "instruction_length b =
     (if oi_kind (opcode_info b) = Assigned then int (oi_length (opcode_info b)) else - 1)"
    using u8_lt_256 [of b] by (simp add: instruction_length_def build_length_table_def opcode_info_def)
  have cnt: "length (filter (\<lambda>i. oi_kind i \<noteq> Assigned) kOpcodeTable) = 69"
    using assigned_count sum_length_filter_compl [of "\<lambda>i. oi_kind i = Assigned" kOpcodeTable]
      kOpcodeTable_checked by simp
  have zero: "oi_kind (opcode_info 0) = Reserved" by code_simp
  from wf have slots: "map (\<lambda>c. c \<noteq> Slot_None) (oi_slots (opcode_info b)) =
     map (\<lambda>k. k < si_operands (shape_info (oi_shape (opcode_info b)))) [0..<4]" by argo
  show ?thesis
  proof (cases "oi_kind (opcode_info b) = Assigned")
    case True
    with wf have "oi_length (opcode_info b) = 1 + si_operands (shape_info (oi_shape (opcode_info b))) +
                sum_list (take (si_immediates (shape_info (oi_shape (opcode_info b))))
                               (si_immediate_bytes (shape_info (oi_shape (opcode_info b)))))" by argo
    then show ?thesis by (simp only: len True slots cnt zero if_True simp_thms)
  next
    case False
    then show ?thesis by (simp only: len slots cnt zero if_False simp_thms)
  qed
qed

end
