(* ===== verification/Traps.thy ===== *)
theory Traps
  imports Maize_Prelude
begin

text \<open>
  The trap record and the shapes around it, \<^verbatim>\<open>src/v2/trap_v2.h\<close>: the cause and subcode
  numbers, the four-word frame, the cause word and the vector table's addressing. A constant of a
  C++ namespace is named with the namespace first (\<^verbatim>\<open>cause::kSyscall\<close> is
  \<open>cause_kSyscall\<close>).
\<close>

section \<open>Causes and subcodes\<close>

abbreviation (input) cause_kIllegalInstruction :: u8 where
  "cause_kIllegalInstruction \<equiv> 0"

abbreviation (input) cause_kIllegalOperand :: u8 where
  "cause_kIllegalOperand \<equiv> 1"

abbreviation (input) cause_kDivideError :: u8 where
  "cause_kDivideError \<equiv> 2"

abbreviation (input) cause_kBreakpoint :: u8 where
  "cause_kBreakpoint \<equiv> 3"

abbreviation (input) cause_kPrivilegedOperation :: u8 where
  "cause_kPrivilegedOperation \<equiv> 4"

abbreviation (input) cause_kSyscall :: u8 where
  "cause_kSyscall \<equiv> 7"

abbreviation (input) cause_kPageFaultFetch :: u8 where
  "cause_kPageFaultFetch \<equiv> 8"

abbreviation (input) cause_kPageFaultLoad :: u8 where
  "cause_kPageFaultLoad \<equiv> 9"

abbreviation (input) cause_kPageFaultStore :: u8 where
  "cause_kPageFaultStore \<equiv> 10"

abbreviation (input) cause_kPhysicalMemoryFault :: u8 where
  "cause_kPhysicalMemoryFault \<equiv> 11"

abbreviation (input) cause_kFirstExternalInterrupt :: u8 where
  "cause_kFirstExternalInterrupt \<equiv> 32"

abbreviation (input) cause_kConsoleInterrupt :: u8 where
  "cause_kConsoleInterrupt \<equiv> cause_kFirstExternalInterrupt + 1"

abbreviation (input) cause_kTimerInterrupt :: u8 where
  "cause_kTimerInterrupt \<equiv> cause_kFirstExternalInterrupt + 3"

abbreviation (input) subcode_kOperandForm :: u8 where
  "subcode_kOperandForm \<equiv> 0"

abbreviation (input) subcode_kInvalidImmediate :: u8 where
  "subcode_kInvalidImmediate \<equiv> 1"

abbreviation (input) subcode_kReservedRoundingMode :: u8 where
  "subcode_kReservedRoundingMode \<equiv> 2"

abbreviation (input) subcode_kUnimplementedCsr :: u8 where
  "subcode_kUnimplementedCsr \<equiv> 3"

abbreviation (input) subcode_kReadOnlyCsr :: u8 where
  "subcode_kReadOnlyCsr \<equiv> 4"

abbreviation (input) subcode_kBlockMemoryOperands :: u8 where
  "subcode_kBlockMemoryOperands \<equiv> 5"

abbreviation (input) subcode_kInvalidCsrValue :: u8 where
  "subcode_kInvalidCsrValue \<equiv> 6"

abbreviation (input) subcode_kReservedCsrPrivilege :: u8 where
  "subcode_kReservedCsrPrivilege \<equiv> 7"

abbreviation (input) subcode_kDivideByZero :: u8 where
  "subcode_kDivideByZero \<equiv> 0"

abbreviation (input) subcode_kQuotientOverflow :: u8 where
  "subcode_kQuotientOverflow \<equiv> 1"

section \<open>The frame, the cause word and the vector table\<close>

abbreviation (input) trap_frame_kBytes :: u64 where
  "trap_frame_kBytes \<equiv> 32"

abbreviation (input) trap_frame_kPcOffset :: u64 where
  "trap_frame_kPcOffset \<equiv> 0"

abbreviation (input) trap_frame_kStatusOffset :: u64 where
  "trap_frame_kStatusOffset \<equiv> 8"

abbreviation (input) trap_frame_kCauseOffset :: u64 where
  "trap_frame_kCauseOffset \<equiv> 16"

abbreviation (input) trap_frame_kAuxOffset :: u64 where
  "trap_frame_kAuxOffset \<equiv> 24"

abbreviation (input) vector_table_kEntryBytes :: u64 where
  "vector_table_kEntryBytes \<equiv> 8"

abbreviation (input) vector_table_kEntryCount :: u64 where
  "vector_table_kEntryCount \<equiv> 256"

abbreviation (input) vector_table_kBytes :: u64 where
  "vector_table_kBytes \<equiv> vector_table_kEntryBytes * vector_table_kEntryCount"

definition encode_cause_word :: "u8 \<Rightarrow> u8 \<Rightarrow> u64" where
  "encode_cause_word cause_number subcode_number =
     ucast cause_number OR push_bit 8 (ucast subcode_number)"

definition entry_address :: "u64 \<Rightarrow> u8 \<Rightarrow> u64" where
  "entry_address base cause_number = base + ucast cause_number * vector_table_kEntryBytes"

record TrapV2 =
  trap_cause :: u8
  trap_subcode :: u8
  trap_aux :: u64
  trap_pc :: u64

abbreviation no_trap :: TrapV2 where
  "no_trap \<equiv> \<lparr>trap_cause = 0, trap_subcode = 0, trap_aux = 0, trap_pc = 0\<rparr>"

section \<open>Properties\<close>

text \<open>A handler recovers both fields of the cause word, and its reserved bits are zero.\<close>

lemma encode_cause_word_fields:
  "ucast (encode_cause_word c s) = c" "ucast (drop_bit 8 (encode_cause_word c s)) = s"
  "drop_bit 16 (encode_cause_word c s) = 0"
  by (rule bit_word_eqI, auto simp: encode_cause_word_def bit_simps dest: bit_imp_le_length)+

end
