(* ===== verification/Csr.thy ===== *)
theory Csr
  imports Traps
begin

text \<open>
  Privilege levels and the control-and-status-register space, \<^verbatim>\<open>src/v2/csr_v2.h\<close>: the number
  layout, the eighteen base registers, the one checked access with its four ordered rules and the
  registers' value rules, the writes the machine makes on its own account, and the interrupt
  pending and enable arrays.
\<close>

section \<open>Register numbers and encodings\<close>

abbreviation (input) csr_kFcsr :: u16 where
  "csr_kFcsr \<equiv> 0x0000"

abbreviation (input) csr_kFeatureBitmap :: u16 where
  "csr_kFeatureBitmap \<equiv> 0x2000"

abbreviation (input) csr_kStatus :: u16 where
  "csr_kStatus \<equiv> 0x4000"

abbreviation (input) csr_kTrapStack :: u16 where
  "csr_kTrapStack \<equiv> 0x4001"

abbreviation (input) csr_kTrapVectorBase :: u16 where
  "csr_kTrapVectorBase \<equiv> 0x4002"

abbreviation (input) csr_kPagingRoot :: u16 where
  "csr_kPagingRoot \<equiv> 0x4003"

abbreviation (input) csr_kInterruptEnable0 :: u16 where
  "csr_kInterruptEnable0 \<equiv> 0x4004"

abbreviation (input) csr_kInterruptEnable1 :: u16 where
  "csr_kInterruptEnable1 \<equiv> 0x4005"

abbreviation (input) csr_kInterruptEnable2 :: u16 where
  "csr_kInterruptEnable2 \<equiv> 0x4006"

abbreviation (input) csr_kInterruptEnable3 :: u16 where
  "csr_kInterruptEnable3 \<equiv> 0x4007"

abbreviation (input) csr_kSyscallProvider :: u16 where
  "csr_kSyscallProvider \<equiv> 0x4008"

abbreviation (input) csr_kScratch :: u16 where
  "csr_kScratch \<equiv> 0x4009"

abbreviation (input) csr_kInterruptPending0 :: u16 where
  "csr_kInterruptPending0 \<equiv> 0x6000"

abbreviation (input) csr_kInterruptPending1 :: u16 where
  "csr_kInterruptPending1 \<equiv> 0x6001"

abbreviation (input) csr_kInterruptPending2 :: u16 where
  "csr_kInterruptPending2 \<equiv> 0x6002"

abbreviation (input) csr_kInterruptPending3 :: u16 where
  "csr_kInterruptPending3 \<equiv> 0x6003"

abbreviation (input) csr_kHaltCause :: u16 where
  "csr_kHaltCause \<equiv> 0x6004"

abbreviation (input) csr_kBootInfo :: u16 where
  "csr_kBootInfo \<equiv> 0x6005"

abbreviation (input) csr_kBaseRegisterCount :: nat where
  "csr_kBaseRegisterCount \<equiv> 18"

text \<open>
  The underlying type of \<^verbatim>\<open>enum class Privilege\<close> is one byte, so the cast of a status word's
  two-bit field has four outcomes: the two enumerators and the two reserved encodings.
\<close>

datatype Privilege = User | Supervisor | ReservedLevel2 | ReservedLevel3

fun level_number :: "Privilege \<Rightarrow> nat" where
  "level_number User = 0"
| "level_number Supervisor = 1"
| "level_number ReservedLevel2 = 2"
| "level_number ReservedLevel3 = 3"

definition privilege_of_bits :: "u64 \<Rightarrow> Privilege" where
  "privilege_of_bits w =
     (if w = 0 then User else if w = 1 then Supervisor else if w = 2 then ReservedLevel2
      else ReservedLevel3)"

definition csr_privilege_field :: "u16 \<Rightarrow> nat" where
  "csr_privilege_field number = unat (drop_bit 14 number)"

definition csr_read_only_bit :: "u16 \<Rightarrow> bool" where
  "csr_read_only_bit number \<longleftrightarrow> drop_bit 13 number AND 1 \<noteq> 0"

definition csr_index_field :: "u16 \<Rightarrow> u16" where
  "csr_index_field number = number AND 0x1FFF"

definition csr_index_is_extension :: "u16 \<Rightarrow> bool" where
  "csr_index_is_extension number \<longleftrightarrow> csr_index_field number \<ge> 0x1000"

abbreviation (input) status_word_kPrivilegeMask :: u64 where
  "status_word_kPrivilegeMask \<equiv> 0x3"

abbreviation (input) status_word_kInterruptEnableBit :: u64 where
  "status_word_kInterruptEnableBit \<equiv> 0x4"

abbreviation (input) status_word_kDefinedMask :: u64 where
  "status_word_kDefinedMask \<equiv> 0x7"

abbreviation (input) status_word_kResetValue :: u64 where
  "status_word_kResetValue \<equiv> 0x1"

abbreviation (input) halt_cause_kKindHaltInstruction :: nat where
  "halt_cause_kKindHaltInstruction \<equiv> 0"

abbreviation (input) halt_cause_kKindNoHandler :: nat where
  "halt_cause_kKindNoHandler \<equiv> 1"

abbreviation (input) halt_cause_kKindDoubleFault :: nat where
  "halt_cause_kKindDoubleFault \<equiv> 2"

definition encode_halt_cause :: "nat \<Rightarrow> u8 \<Rightarrow> u8 \<Rightarrow> u64" where
  "encode_halt_cause kind cause_number subcode_number =
     (ucast cause_number OR push_bit 8 (ucast subcode_number)) OR push_bit 16 (of_nat kind)"

abbreviation (input) paging_root_kModeMask :: u64 where
  "paging_root_kModeMask \<equiv> 0xF"

abbreviation (input) paging_root_kReservedMask :: u64 where
  "paging_root_kReservedMask \<equiv> 0xFF0"

abbreviation (input) paging_root_kModeBare :: u64 where
  "paging_root_kModeBare \<equiv> 0"

abbreviation (input) paging_root_kModeSv48 :: u64 where
  "paging_root_kModeSv48 \<equiv> 1"

section \<open>The registers\<close>

record CsrOutcome =
  co_ok :: bool
  co_cause :: u8
  co_subcode :: u8
  co_aux :: u64
  co_prior :: u64
  co_flushed_translations :: bool

record CsrFileV2 =
  c_fcsr :: u64
  c_feature_bitmap :: u64
  c_status :: u64
  c_trap_stack :: u64
  c_trap_vector_base :: u64
  c_paging_root :: u64
  c_interrupt_enable :: "u64 list"
  c_syscall_provider :: u64
  c_scratch :: u64
  c_interrupt_pending :: "u64 list"
  c_halt_cause :: u64
  c_boot_info :: u64
  c_translation_flushes :: u64

definition reset_csr :: CsrFileV2 where
  "reset_csr =
     \<lparr>c_fcsr = 0, c_feature_bitmap = 0, c_status = status_word_kResetValue, c_trap_stack = 0,
      c_trap_vector_base = 0, c_paging_root = 0, c_interrupt_enable = replicate 4 0,
      c_syscall_provider = 0, c_scratch = 0, c_interrupt_pending = replicate 4 0,
      c_halt_cause = 0, c_boot_info = 0, c_translation_flushes = 0\<rparr>"

definition is_implemented :: "u16 \<Rightarrow> bool" where
  "is_implemented number \<longleftrightarrow>
     number \<in> set [csr_kFcsr, csr_kFeatureBitmap, csr_kStatus, csr_kTrapStack, csr_kTrapVectorBase,
       csr_kPagingRoot, csr_kInterruptEnable0, csr_kInterruptEnable1, csr_kInterruptEnable2,
       csr_kInterruptEnable3, csr_kSyscallProvider, csr_kScratch, csr_kInterruptPending0,
       csr_kInterruptPending1, csr_kInterruptPending2, csr_kInterruptPending3, csr_kHaltCause,
       csr_kBootInfo]"

definition status_value_is_acceptable :: "u64 \<Rightarrow> bool" where
  "status_value_is_acceptable value \<longleftrightarrow>
     value AND NOT status_word_kDefinedMask = 0 \<and>
     value AND status_word_kPrivilegeMask \<le> of_nat (level_number Supervisor)"

definition value_is_acceptable :: "u16 \<Rightarrow> u64 \<Rightarrow> bool" where
  "value_is_acceptable number value =
     (if number = csr_kFcsr then value AND NOT 0xFF = 0
      else if number = csr_kStatus then status_value_is_acceptable value
      else if number = csr_kTrapStack then value AND 0xF = 0
      else if number = csr_kTrapVectorBase then value AND 0x7FF = 0
      else if number = csr_kPagingRoot then
        value AND paging_root_kModeMask \<le> paging_root_kModeSv48 \<and>
        value AND paging_root_kReservedMask = 0
      else if number = csr_kInterruptEnable0 then value AND 0xFFFFFFFF = 0
      else if number = csr_kSyscallProvider then value AND NOT 1 = 0
      else True)"

definition read_raw :: "CsrFileV2 \<Rightarrow> u16 \<Rightarrow> u64" where
  "read_raw c number =
     (if number = csr_kFcsr then c_fcsr c
      else if number = csr_kFeatureBitmap then c_feature_bitmap c
      else if number = csr_kStatus then c_status c
      else if number = csr_kTrapStack then c_trap_stack c
      else if number = csr_kTrapVectorBase then c_trap_vector_base c
      else if number = csr_kPagingRoot then c_paging_root c
      else if number = csr_kInterruptEnable0 then c_interrupt_enable c ! 0 AND NOT 0xFFFFFFFF
      else if number = csr_kInterruptEnable1 then c_interrupt_enable c ! 1
      else if number = csr_kInterruptEnable2 then c_interrupt_enable c ! 2
      else if number = csr_kInterruptEnable3 then c_interrupt_enable c ! 3
      else if number = csr_kSyscallProvider then c_syscall_provider c
      else if number = csr_kScratch then c_scratch c
      else if number = csr_kInterruptPending0 then c_interrupt_pending c ! 0
      else if number = csr_kInterruptPending1 then c_interrupt_pending c ! 1
      else if number = csr_kInterruptPending2 then c_interrupt_pending c ! 2
      else if number = csr_kInterruptPending3 then c_interrupt_pending c ! 3
      else if number = csr_kHaltCause then c_halt_cause c
      else if number = csr_kBootInfo then c_boot_info c
      else 0)"

definition store_csr :: "CsrFileV2 \<Rightarrow> u16 \<Rightarrow> u64 \<Rightarrow> CsrFileV2" where
  "store_csr c number value =
     (if number = csr_kFcsr then c\<lparr>c_fcsr := value\<rparr>
      else if number = csr_kStatus then c\<lparr>c_status := value\<rparr>
      else if number = csr_kTrapStack then c\<lparr>c_trap_stack := value\<rparr>
      else if number = csr_kTrapVectorBase then c\<lparr>c_trap_vector_base := value\<rparr>
      else if number = csr_kPagingRoot then c\<lparr>c_paging_root := value\<rparr>
      else if number = csr_kInterruptEnable0 then c\<lparr>c_interrupt_enable := (c_interrupt_enable c)[0 := value]\<rparr>
      else if number = csr_kInterruptEnable1 then c\<lparr>c_interrupt_enable := (c_interrupt_enable c)[1 := value]\<rparr>
      else if number = csr_kInterruptEnable2 then c\<lparr>c_interrupt_enable := (c_interrupt_enable c)[2 := value]\<rparr>
      else if number = csr_kInterruptEnable3 then c\<lparr>c_interrupt_enable := (c_interrupt_enable c)[3 := value]\<rparr>
      else if number = csr_kSyscallProvider then c\<lparr>c_syscall_provider := value\<rparr>
      else if number = csr_kScratch then c\<lparr>c_scratch := value\<rparr>
      else c)"

definition csr_trap :: "u8 \<Rightarrow> u8 \<Rightarrow> u64 \<Rightarrow> CsrOutcome" where
  "csr_trap cause_number subcode_number aux =
     \<lparr>co_ok = False, co_cause = cause_number, co_subcode = subcode_number, co_aux = aux,
      co_prior = 0, co_flushed_translations = False\<rparr>"

text \<open>One checked access: the outcome and the registers after it.\<close>

definition access :: "CsrFileV2 \<Rightarrow> u16 \<Rightarrow> Privilege \<Rightarrow> bool \<Rightarrow> u64 \<Rightarrow> CsrOutcome \<times> CsrFileV2" where
  "access c number level is_write v =
     (let required = csr_privilege_field number in
      if required > level_number Supervisor then
        (csr_trap cause_kIllegalOperand subcode_kReservedCsrPrivilege (ucast number), c)
      else if level_number level < required then
        (csr_trap cause_kPrivilegedOperation 0 (ucast number), c)
      else if is_write \<and> csr_read_only_bit number then
        (csr_trap cause_kIllegalOperand subcode_kReadOnlyCsr (ucast number), c)
      else if \<not> is_implemented number then
        (csr_trap cause_kIllegalOperand subcode_kUnimplementedCsr (ucast number), c)
      else if is_write \<and> \<not> value_is_acceptable number v then
        (csr_trap cause_kIllegalOperand subcode_kInvalidCsrValue v, c)
      else
        let outcome = \<lparr>co_ok = True, co_cause = 0, co_subcode = 0, co_aux = 0,
                       co_prior = read_raw c number, co_flushed_translations = False\<rparr>
        in if is_write then
             let c = store_csr c number v
             in if number = csr_kPagingRoot then
                  (outcome\<lparr>co_flushed_translations := True\<rparr>,
                   c\<lparr>c_translation_flushes := c_translation_flushes c + 1\<rparr>)
                else (outcome, c)
           else (outcome, c))"

definition privilege :: "CsrFileV2 \<Rightarrow> Privilege" where
  "privilege c = privilege_of_bits (c_status c AND status_word_kPrivilegeMask)"

definition interrupts_enabled :: "CsrFileV2 \<Rightarrow> bool" where
  "interrupts_enabled c \<longleftrightarrow> c_status c AND status_word_kInterruptEnableBit \<noteq> 0"

section \<open>The interrupt arrays\<close>

abbreviation (input) kCauseCount :: nat where
  "kCauseCount \<equiv> 256"

abbreviation (input) kNoCause :: nat where
  "kNoCause \<equiv> kCauseCount"

definition cause_bit :: "nat \<Rightarrow> u64" where
  "cause_bit cause_number = push_bit (cause_number mod 64) 1"

definition machine_raise_pending :: "nat \<Rightarrow> CsrFileV2 \<Rightarrow> CsrFileV2" where
  "machine_raise_pending cause_number c =
     c\<lparr>c_interrupt_pending := (c_interrupt_pending c)
         [cause_number div 64 := c_interrupt_pending c ! (cause_number div 64) OR cause_bit cause_number]\<rparr>"

definition machine_clear_pending :: "nat \<Rightarrow> CsrFileV2 \<Rightarrow> CsrFileV2" where
  "machine_clear_pending cause_number c =
     c\<lparr>c_interrupt_pending := (c_interrupt_pending c)
         [cause_number div 64 := c_interrupt_pending c ! (cause_number div 64) AND NOT (cause_bit cause_number)]\<rparr>"

definition pending :: "CsrFileV2 \<Rightarrow> nat \<Rightarrow> bool" where
  "pending c cause_number \<longleftrightarrow>
     c_interrupt_pending c ! (cause_number div 64) AND cause_bit cause_number \<noteq> 0"

definition enabled :: "CsrFileV2 \<Rightarrow> nat \<Rightarrow> bool" where
  "enabled c cause_number \<longleftrightarrow>
     (let number = csr_kInterruptEnable0 + of_nat (cause_number div 64)
      in read_raw c number AND cause_bit cause_number \<noteq> 0)"

text \<open>The outer loop over the four arrays, leaving at the first one with a deliverable bit.\<close>

fun scan_arrays :: "CsrFileV2 \<Rightarrow> nat list \<Rightarrow> nat" where
  "scan_arrays c [] = kNoCause"
| "scan_arrays c (array # arrays) =
     (let number = csr_kInterruptEnable0 + of_nat array;
          deliverable = c_interrupt_pending c ! array AND read_raw c number
      in if deliverable = 0 then scan_arrays c arrays
         else case find (\<lambda>b. deliverable AND push_bit b 1 \<noteq> 0) [0..<64] of
                Some b \<Rightarrow> array * 64 + b
              | None \<Rightarrow> scan_arrays c arrays)"

definition lowest_pending_and_enabled :: "CsrFileV2 \<Rightarrow> nat" where
  "lowest_pending_and_enabled c = scan_arrays c [0..<4]"

section \<open>Writes by the machine and by the host\<close>

definition machine_set_trap_stack :: "u64 \<Rightarrow> CsrFileV2 \<Rightarrow> CsrFileV2" where
  "machine_set_trap_stack value c = c\<lparr>c_trap_stack := value\<rparr>"

definition machine_enter_supervisor :: "CsrFileV2 \<Rightarrow> CsrFileV2" where
  "machine_enter_supervisor c =
     c\<lparr>c_status := (c_status c AND NOT (status_word_kPrivilegeMask OR status_word_kInterruptEnableBit))
                   OR of_nat (level_number Supervisor)\<rparr>"

definition machine_write_status :: "u64 \<Rightarrow> CsrFileV2 \<Rightarrow> CsrFileV2" where
  "machine_write_status value c = c\<lparr>c_status := value\<rparr>"

definition machine_record_halt :: "nat \<Rightarrow> u8 \<Rightarrow> u8 \<Rightarrow> CsrFileV2 \<Rightarrow> CsrFileV2" where
  "machine_record_halt kind cause_number subcode_number c =
     c\<lparr>c_halt_cause := encode_halt_cause kind cause_number subcode_number\<rparr>"

definition csr_host_set_privilege :: "Privilege \<Rightarrow> CsrFileV2 \<Rightarrow> CsrFileV2" where
  "csr_host_set_privilege level c =
     c\<lparr>c_status := (c_status c AND NOT status_word_kPrivilegeMask) OR of_nat (level_number level)\<rparr>"

definition host_set_feature_bitmap :: "u64 \<Rightarrow> CsrFileV2 \<Rightarrow> CsrFileV2" where
  "host_set_feature_bitmap value c = c\<lparr>c_feature_bitmap := value\<rparr>"

definition host_set_boot_info :: "u64 \<Rightarrow> CsrFileV2 \<Rightarrow> CsrFileV2" where
  "host_set_boot_info value c = c\<lparr>c_boot_info := value\<rparr>"

definition host_set_halt_cause :: "u64 \<Rightarrow> CsrFileV2 \<Rightarrow> CsrFileV2" where
  "host_set_halt_cause value c = c\<lparr>c_halt_cause := value\<rparr>"

definition host_set_interrupt_pending :: "nat \<Rightarrow> u64 \<Rightarrow> CsrFileV2 \<Rightarrow> CsrFileV2" where
  "host_set_interrupt_pending array value c =
     c\<lparr>c_interrupt_pending := (c_interrupt_pending c)[array := value]\<rparr>"

section \<open>The invariant\<close>

text \<open>
  Every writable register holds a value its own rule accepts, and the interrupt arrays have their
  four words. Every operation of the machine keeps this, so the architectural reserved bits are
  zero in every reachable state.
\<close>

definition wf_csr :: "CsrFileV2 \<Rightarrow> bool" where
  "wf_csr c \<longleftrightarrow>
     length (c_interrupt_enable c) = 4 \<and> length (c_interrupt_pending c) = 4 \<and>
     value_is_acceptable csr_kFcsr (c_fcsr c) \<and>
     value_is_acceptable csr_kStatus (c_status c) \<and>
     value_is_acceptable csr_kTrapStack (c_trap_stack c) \<and>
     value_is_acceptable csr_kTrapVectorBase (c_trap_vector_base c) \<and>
     value_is_acceptable csr_kPagingRoot (c_paging_root c) \<and>
     value_is_acceptable csr_kInterruptEnable0 (c_interrupt_enable c ! 0) \<and>
     value_is_acceptable csr_kSyscallProvider (c_syscall_provider c)"

lemma wf_reset_csr [wf_intros, simp]: "wf_csr reset_csr"
  by code_simp

lemma wf_csr_lengths [wf_dests]:
  "wf_csr c \<Longrightarrow> length (c_interrupt_enable c) = 4" "wf_csr c \<Longrightarrow> length (c_interrupt_pending c) = 4"
  by (simp_all add: wf_csr_def)

lemma wf_csr_status [wf_dests]: "wf_csr c \<Longrightarrow> status_value_is_acceptable (c_status c)"
  by (simp add: wf_csr_def value_is_acceptable_def)

lemma wf_store_csr [wf_intros]:
  "wf_csr c \<Longrightarrow> value_is_acceptable number v \<Longrightarrow> wf_csr (store_csr c number v)"
  by (auto simp: wf_csr_def store_csr_def nth_list_update_if)

lemma wf_csr_flushes [simp]: "wf_csr (c\<lparr>c_translation_flushes := n\<rparr>) = wf_csr c"
  by (simp add: wf_csr_def)

lemma wf_csr_pending [wf_intros, simp]:
  "wf_csr c \<Longrightarrow> wf_csr (machine_raise_pending n c)"
  "wf_csr c \<Longrightarrow> wf_csr (machine_clear_pending n c)"
  by (simp_all add: wf_csr_def machine_raise_pending_def machine_clear_pending_def)

lemma wf_csr_halt [wf_intros, simp]: "wf_csr (machine_record_halt k a b c) = wf_csr c"
  by (simp add: wf_csr_def machine_record_halt_def)

lemma wf_csr_write_status [wf_intros]:
  "wf_csr c \<Longrightarrow> status_value_is_acceptable v \<Longrightarrow> wf_csr (machine_write_status v c)"
  by (simp add: wf_csr_def machine_write_status_def value_is_acceptable_def)

lemma status_values: "status_value_is_acceptable v \<longleftrightarrow> v \<in> set [0, 1, 4, 5]"
proof
  assume a: "status_value_is_acceptable v"
  then have m: "v AND NOT (mask 3) = 0"
    by (simp add: status_value_is_acceptable_def mask_eq_exp_minus_1)
  have "status_value_is_acceptable v \<longrightarrow> v \<in> set [0, 1, 4, 5]"
    by (rule low_bits_exhaust [OF m]) code_simp
  with a show "v \<in> set [0, 1, 4, 5]" by blast
qed (auto simp: status_value_is_acceptable_def)

lemma privilege_cases:
  "wf_csr c \<Longrightarrow> privilege c = User \<or> privilege c = Supervisor"
  by (drule wf_csr_status) (auto simp: status_values privilege_def privilege_of_bits_def)

lemma wf_csr_enter_supervisor [wf_intros, simp]:
  "wf_csr c \<Longrightarrow> wf_csr (machine_enter_supervisor c)"
  by (frule wf_csr_status)
    (auto simp: status_values machine_enter_supervisor_def wf_csr_def value_is_acceptable_def)

lemma privilege_enter_supervisor [simp]:
  "wf_csr c \<Longrightarrow> privilege (machine_enter_supervisor c) = Supervisor"
  by (drule wf_csr_status)
    (auto simp: status_values machine_enter_supervisor_def privilege_def privilege_of_bits_def)

lemma interrupts_enter_supervisor [simp]:
  "wf_csr c \<Longrightarrow> \<not> interrupts_enabled (machine_enter_supervisor c)"
  by (drule wf_csr_status)
    (auto simp: status_values machine_enter_supervisor_def interrupts_enabled_def)

lemma aligned_add_iff:
  fixes v d :: u64
  assumes "d AND 0xF = 0"
  shows "(v + d) AND 0xF = 0 \<longleftrightarrow> v AND 0xF = 0" "(v - d) AND 0xF = 0 \<longleftrightarrow> v AND 0xF = 0"
proof -
  have m: "x AND 0xF = 0 \<longleftrightarrow> uint x mod 16 = 0" for x :: u64
  proof -
    have "x AND 0xF = 0 \<longleftrightarrow> uint (take_bit 4 x) = 0"
      by (simp add: take_bit_eq_mask mask_eq_exp_minus_1 unsigned_eq_0_iff del: unsigned_take_bit_eq)
    also have "uint (take_bit 4 x) = uint x mod 16"
      by (subst unsigned_take_bit_eq) (simp add: take_bit_eq_mod)
    finally show ?thesis .
  qed
  have d: "uint d mod 16 = 0" using assms by (simp only: m)
  have c: "x mod 18446744073709551616 mod 16 = x mod 16" for x :: int
    by (rule mod_mod_cancel) simp
  have "(uint v + uint d) mod 16 = uint v mod 16" "(uint v - uint d) mod 16 = uint v mod 16"
    using d mod_add_right_eq [of "uint v" "uint d" 16] mod_diff_right_eq [of "uint v" "uint d" 16]
    by simp_all
  then show "(v + d) AND 0xF = 0 \<longleftrightarrow> v AND 0xF = 0" "(v - d) AND 0xF = 0 \<longleftrightarrow> v AND 0xF = 0"
    by (simp_all add: m uint_word_ariths c)
qed

lemma wf_csr_set_trap_stack [wf_intros]:
  assumes "wf_csr c"
  shows "wf_csr (machine_set_trap_stack (c_trap_stack c - trap_frame_kBytes) c)"
    and "wf_csr (machine_set_trap_stack (c_trap_stack c + trap_frame_kBytes) c)"
  using assms
  by (simp_all add: wf_csr_def machine_set_trap_stack_def value_is_acceptable_def aligned_add_iff)

section \<open>The checked access\<close>

lemma implemented_numbers:
  "is_implemented number \<Longrightarrow>
   number = csr_kFcsr \<or> number = csr_kFeatureBitmap \<or> csr_privilege_field number = 1"
  by (auto simp: is_implemented_def csr_privilege_field_def)

lemma wf_access [wf_intros]: "wf_csr c \<Longrightarrow> wf_csr (snd (access c number level w v))"
  by (simp add: access_def Let_def wf_store_csr)

lemma read_raw_store_csr:
  assumes "wf_csr c" and "is_implemented number" and "\<not> csr_read_only_bit number"
    and "value_is_acceptable number v"
  shows "read_raw (store_csr c number v) k = (if k = number then v else read_raw c k)"
proof -
  have masked: "v AND NOT 0xFFFFFFFF = v" if "v AND 0xFFFFFFFF = 0" for v :: u64
  proof -
    have "v = (v AND 0xFFFFFFFF) OR (v AND NOT 0xFFFFFFFF)"
      by (intro bit_word_eqI) (auto simp: bit_simps)
    with that show ?thesis by simp
  qed
  have "number \<in> set [csr_kFcsr, csr_kStatus, csr_kTrapStack, csr_kTrapVectorBase, csr_kPagingRoot,
      csr_kInterruptEnable0, csr_kInterruptEnable1, csr_kInterruptEnable2, csr_kInterruptEnable3,
      csr_kSyscallProvider, csr_kScratch]"
    using assms(2,3) by (auto simp: is_implemented_def csr_read_only_bit_def)
  then show ?thesis
    using assms(1,4) wf_csr_lengths [OF assms(1)]
    by (auto simp: store_csr_def read_raw_def value_is_acceptable_def masked [simplified])
qed

lemma read_raw_flushes [simp]: "read_raw (c\<lparr>c_translation_flushes := n\<rparr>) k = read_raw c k"
  by (simp add: read_raw_def)

text \<open>What an access that succeeded must have passed.\<close>

lemma access_ok:
  "co_ok (fst (access c number level w v)) \<longleftrightarrow>
     csr_privilege_field number \<le> 1 \<and> csr_privilege_field number \<le> level_number level \<and>
     (w \<longrightarrow> \<not> csr_read_only_bit number \<and> value_is_acceptable number v) \<and> is_implemented number"
  by (auto simp: access_def Let_def csr_trap_def)

lemma access_refused: "\<not> co_ok (fst (access c number level w v)) \<Longrightarrow> snd (access c number level w v) = c"
  by (auto simp: access_def Let_def csr_trap_def split: if_splits)

lemma access_prior: "co_ok (fst (access c number level w v)) \<Longrightarrow> co_prior (fst (access c number level w v)) = read_raw c number"
  by (auto simp: access_def Let_def csr_trap_def split: if_splits)

lemma access_read: "snd (access c number level False v) = c"
  by (auto simp: access_def Let_def)

lemma access_write:
  "co_ok (fst (access c number level True v)) \<Longrightarrow>
   snd (access c number level True v) =
     (if number = csr_kPagingRoot
      then (store_csr c number v)\<lparr>c_translation_flushes := c_translation_flushes (store_csr c number v) + 1\<rparr>
      else store_csr c number v)"
  by (auto simp: access_def Let_def csr_trap_def split: if_splits)

section \<open>Interrupt selection\<close>

lemma pending_bit: "pending c n \<longleftrightarrow> bit (c_interrupt_pending c ! (n div 64)) (n mod 64)"
  by (simp add: pending_def cause_bit_def bit_iff_and_push_bit_not_eq_0)

lemma enabled_bit:
  "enabled c n \<longleftrightarrow> bit (read_raw c (csr_kInterruptEnable0 + of_nat (n div 64))) (n mod 64)"
  by (simp add: enabled_def cause_bit_def bit_iff_and_push_bit_not_eq_0)

lemma synchronous_never_enabled: "n < 32 \<Longrightarrow> \<not> enabled c n"
proof -
  assume n: "n < 32"
  have m: "(0xFFFFFFFF :: u64) = mask 32" by (simp add: mask_eq_exp_minus_1)
  have "\<not> bit (x AND NOT 0xFFFFFFFF) n" for x :: u64
    unfolding m using n by (simp only: bit_and_iff bit_not_iff bit_mask_iff) auto
  with n show ?thesis by (simp add: enabled_bit read_raw_def)
qed

text \<open>The scan from array \<open>4 - k\<close> on finds the least deliverable cause of those arrays.\<close>

lemma scan_arrays_least:
  fixes c :: CsrFileV2
  assumes "k \<le> 4"
  defines "D \<equiv> \<lambda>n. pending c n \<and> enabled c n"
  shows "let r = scan_arrays c [4 - k..<4] in
           (r = kNoCause \<or> (4 - k) * 64 \<le> r \<and> r < 256 \<and> D r) \<and>
           (\<forall>n. (4 - k) * 64 \<le> n \<and> n < 256 \<and> n < r \<longrightarrow> \<not> D n)"
  using assms(1)
proof (induction k)
  case 0
  then show ?case by auto
next
  case (Suc k)
  define a where "a = 4 - Suc k"
  with Suc.prems have a: "4 - k = Suc a" "a < 4" "[a..<4] = a # [Suc a..<4]"
    by (auto simp: upt_conv_Cons)
  define w where "w = c_interrupt_pending c ! a AND read_raw c (csr_kInterruptEnable0 + of_nat a)"
  have D: "D (a * 64 + b) \<longleftrightarrow> bit w b" if "b < 64" for b
    using that by (simp add: D_def pending_bit enabled_bit w_def bit_simps div_mult_self3)
  have split: "n \<in> {Suc a * 64..} \<or> (\<exists>b < 64. n = a * 64 + b)" if "a * 64 \<le> n" for n
  proof (cases "n < Suc a * 64")
    case True
    with that have "n = a * 64 + (n - a * 64)" "n - a * 64 < 64" by auto
    then show ?thesis by blast
  qed simp
  show ?case
  proof (cases "w = 0")
    case True
    then have "\<not> D (a * 64 + b)" if "b < 64" for b using D [OF that] by simp
    then show ?thesis
      using Suc True a split unfolding Let_def a_def [symmetric]
      by (auto simp: w_def [symmetric] Let_def)
  next
    case False
    then obtain b0 where "b0 < 64" "bit w b0" by (auto simp: word_eq_0_iff_bits)
    then have "find (\<lambda>b. w AND push_bit b 1 \<noteq> 0) [0..<64] \<noteq> None"
      by (auto simp: find_None_iff bit_iff_and_push_bit_not_eq_0)
    then obtain b where f: "find (\<lambda>b. w AND push_bit b 1 \<noteq> 0) [0..<64] = Some b" by blast
    then have b: "b < 64" "bit w b" "\<forall>j < b. \<not> bit w j"
      by (auto simp: find_Some_iff bit_iff_and_push_bit_not_eq_0)
    have r: "scan_arrays c [a..<4] = a * 64 + b"
      using f False a(3) by (simp add: w_def [symmetric] Let_def)
    have "\<not> D n" if "a * 64 \<le> n" "n < a * 64 + b" for n
      using split [OF that(1)] that b D by auto
    then show ?thesis
      using b a D unfolding a_def [symmetric] r Let_def by auto
  qed
qed

section \<open>Properties\<close>

text \<open>A refused control-register access changes no register, a read changes none either, and
  every access that succeeds reports the register's value from before it.\<close>

theorem csr_access_effect:
  "case access c number level is_write v of
     (out, c') \<Rightarrow> (if co_ok out then co_prior out = read_raw c number else c' = c) \<and>
                   (if is_write then True else c' = c)"
  using access_refused [of c number level is_write v] access_prior [of c number level is_write v]
    access_read [of c number level v]
  by (auto simp: split_beta)

text \<open>C28: A control-register write that succeeds is what the next read of the same number at the
  same level returns, and no other register reads differently after it.\<close>

theorem csr_read_after_write:
  assumes "wf_csr c" and "access c number level True v = (out, c')" and "co_ok out"
  shows "co_ok (fst (access c' number level False x)) \<and>
         co_prior (fst (access c' number level False x)) = v \<and>
         (\<forall>k. k \<noteq> number \<longrightarrow> read_raw c' k = read_raw c k)"
proof -
  from assms(2,3) have ok: "co_ok (fst (access c number level True v))"
    and c': "c' = snd (access c number level True v)" by auto
  from ok have r: "co_ok (fst (access c' number level False x))" by (simp add: access_ok)
  have "read_raw c' k = (if k = number then v else read_raw c k)" for k
    using ok unfolding c' access_write [OF ok]
    by (auto simp: access_ok read_raw_store_csr assms(1))
  with r show ?thesis by (auto simp: access_prior)
qed

theorem csr_read_after_write_witness:
  "co_prior (fst (access (snd (access reset_csr csr_kInterruptEnable0 Supervisor True 0x500000000))
      csr_kInterruptEnable0 Supervisor False 0)) = 0x500000000"
proof -
  have w: "wf_csr reset_csr" by simp
  have ok: "co_ok (fst (access reset_csr csr_kInterruptEnable0 Supervisor True 0x500000000))" by code_simp
  from csr_read_after_write [OF w prod.collapse [symmetric] ok, of 0] show ?thesis by blast
qed

text \<open>What a user-level access can reach.\<close>

lemma user_access_number:
  "co_ok (fst (access c number User is_write v)) \<Longrightarrow>
   number = csr_kFcsr \<or> number = csr_kFeatureBitmap \<and> \<not> is_write"
proof -
  assume ok: "co_ok (fst (access c number User is_write v))"
  then have n: "number = csr_kFcsr \<or> number = csr_kFeatureBitmap"
    using implemented_numbers [of number] by (auto simp: access_ok)
  moreover have "csr_read_only_bit csr_kFeatureBitmap" by code_simp
  ultimately show ?thesis using ok by (auto simp: access_ok)
qed

lemma user_access_effect:
  assumes "co_ok (fst (access c number User is_write v))"
  shows "snd (access c number User is_write v) = c\<lparr>c_fcsr := c_fcsr (snd (access c number User is_write v))\<rparr>"
proof (cases is_write)
  case True
  with user_access_number [OF assms] assms show ?thesis by (simp add: access_write store_csr_def)
qed (simp add: access_read)

text \<open>C27: At user level the only registers an access can reach are the floating-point control
  register and the read-only feature bitmap, nothing but the former can change, and an access to
  any supervisor-numbered register is a privileged operation carrying the number, whatever the
  read-only bit, the implemented set and the value say.\<close>

theorem csr_user_confinement:
  "(co_ok (fst (access c number User is_write v)) \<longrightarrow>
      (number = csr_kFcsr \<or> number = csr_kFeatureBitmap \<and> \<not> is_write) \<and>
      snd (access c number User is_write v) =
        c\<lparr>c_fcsr := c_fcsr (snd (access c number User is_write v))\<rparr>) \<and>
   (csr_privilege_field number = 1 \<longrightarrow>
      access c number User is_write v =
        (csr_trap cause_kPrivilegedOperation 0 (ucast number), c))"
  using user_access_number user_access_effect by (simp add: access_def Let_def)

theorem csr_user_confinement_witness:
  "co_ok (fst (access reset_csr csr_kFcsr User True 0x1F)) \<and>
   snd (access reset_csr csr_kFcsr User True 0x1F) = reset_csr\<lparr>c_fcsr := 0x1F\<rparr> \<and>
   access reset_csr csr_kHaltCause User True 7 =
     (csr_trap cause_kPrivilegedOperation 0 (ucast csr_kHaltCause), reset_csr)"
proof -
  have ok: "co_ok (fst (access reset_csr csr_kFcsr User True 0x1F))" by code_simp
  have f: "c_fcsr (snd (access reset_csr csr_kFcsr User True 0x1F)) = 0x1F" by code_simp
  have p: "csr_privilege_field csr_kHaltCause = 1" by code_simp
  from csr_user_confinement [of reset_csr csr_kFcsr True "0x1F"] ok f
    csr_user_confinement [of reset_csr csr_kHaltCause True 7] p
  show ?thesis by metis
qed

text \<open>C29: Interrupt selection takes the lowest-numbered cause that is both pending and enabled,
  or none when there is none, and it is never one of the 32 synchronous causes.\<close>

theorem lowest_pending_is_minimum:
  "lowest_pending_and_enabled c =
     (let D = {n. n < kCauseCount \<and> pending c n \<and> enabled c n}
      in if D = {} then kNoCause else Min D) \<and>
   32 \<le> lowest_pending_and_enabled c"
proof -
  define D where "D = {n. n < kCauseCount \<and> pending c n \<and> enabled c n}"
  define r where "r = lowest_pending_and_enabled c"
  have l: "r = kNoCause \<or> r \<in> D" "\<forall>n \<in> D. \<not> n < r"
    using scan_arrays_least [of 4 c] by (auto simp: r_def D_def lowest_pending_and_enabled_def Let_def)
  have "r = (if D = {} then kNoCause else Min D)"
  proof (cases "D = {}")
    case True
    with l show ?thesis by auto
  next
    case False
    moreover have "finite D" by (simp add: D_def)
    ultimately have m: "Min D \<in> D" by simp
    then have "Min D < kCauseCount" by (simp add: D_def)
    with l m have "r \<in> D" by auto
    with l(2) m False \<open>finite D\<close> show ?thesis by (metis Min_le not_less order_antisym)
  qed
  moreover have "32 \<le> r"
    using l(1) synchronous_never_enabled [of r c] by (cases "r < 32") (auto simp: D_def)
  ultimately show ?thesis unfolding D_def [symmetric] r_def [symmetric] Let_def by simp
qed

end
