(* ===== verification/Memory.thy ===== *)
theory Memory
  imports Maize_Prelude
begin

text \<open>
  Physical memory, \<^verbatim>\<open>src/v2/memory_v2.h\<close>: one populated region \<open>[0, size)\<close>, a range check
  that reports the lowest inaccessible address of an access, unchecked byte access, the two
  little-endian loops, and the host's resize and image load.
\<close>

section \<open>The memory and its operations\<close>

record MemoryV2 =
  mem_bytes :: "u8 list"

definition new_memory :: "nat \<Rightarrow> MemoryV2" where
  "new_memory sz = \<lparr>mem_bytes = replicate sz 0\<rparr>"

definition mem_size :: "MemoryV2 \<Rightarrow> nat" where
  "mem_size m = length (mem_bytes m)"

definition accessible :: "MemoryV2 \<Rightarrow> u64 \<Rightarrow> bool" where
  "accessible m address \<longleftrightarrow> unat address < length (mem_bytes m)"

text \<open>
  \<^verbatim>\<open>check_range\<close> returns true and leaves its out-parameter alone, or returns false with the
  lowest inaccessible address there: the model's \<open>None\<close> and \<open>Some\<close>.
\<close>

definition check_range :: "MemoryV2 \<Rightarrow> u64 \<Rightarrow> nat \<Rightarrow> u64 option" where
  "check_range m address len =
     fold (\<lambda>i lowest.
             let byte_address = address + of_nat i
             in if \<not> accessible m byte_address \<and>
                   (case lowest of None \<Rightarrow> True | Some l \<Rightarrow> byte_address < l)
                then Some byte_address else lowest)
       [0..<len] None"

definition read_byte :: "MemoryV2 \<Rightarrow> u64 \<Rightarrow> u8" where
  "read_byte m address = mem_bytes m ! unat address"

definition write_byte :: "MemoryV2 \<Rightarrow> u64 \<Rightarrow> u8 \<Rightarrow> MemoryV2" where
  "write_byte m address value = m\<lparr>mem_bytes := (mem_bytes m)[unat address := value]\<rparr>"

definition read_little_endian :: "MemoryV2 \<Rightarrow> u64 \<Rightarrow> nat \<Rightarrow> u64" where
  "read_little_endian m address width_bytes =
     fold (\<lambda>i value. value OR push_bit (i * 8) (ucast (read_byte m (address + of_nat i))))
       [0..<width_bytes] 0"

definition write_little_endian :: "MemoryV2 \<Rightarrow> u64 \<Rightarrow> nat \<Rightarrow> u64 \<Rightarrow> MemoryV2" where
  "write_little_endian m address width_bytes value =
     fold (\<lambda>i m. write_byte m (address + of_nat i) (ucast (drop_bit (i * 8) value)))
       [0..<width_bytes] m"

definition host_set_size :: "MemoryV2 \<Rightarrow> nat \<Rightarrow> MemoryV2" where
  "host_set_size m sz =
     m\<lparr>mem_bytes := take sz (mem_bytes m) @ replicate (sz - length (mem_bytes m)) 0\<rparr>"

definition load_image :: "MemoryV2 \<Rightarrow> u64 \<Rightarrow> u8 list \<Rightarrow> MemoryV2 option" where
  "load_image m address img =
     (case check_range m address (length img) of
        Some _ \<Rightarrow> None
      | None \<Rightarrow> Some (fold (\<lambda>i m. write_byte m (address + of_nat i) (img ! i))
                        [0..<length img] m))"

section \<open>Byte access\<close>

lemma accessible_write_byte [simp]: "accessible (write_byte m a v) b = accessible m b"
  by (simp add: accessible_def write_byte_def)

lemma mem_size_write_byte [simp]: "mem_size (write_byte m a v) = mem_size m"
  by (simp add: mem_size_def write_byte_def)

lemma read_write_byte:
  "accessible m a \<Longrightarrow> read_byte (write_byte m a v) b = (if a = b then v else read_byte m b)"
  by (auto simp: accessible_def read_byte_def write_byte_def word_unat_eq_iff)

interpretation phys: byte_store read_byte write_byte accessible
  by unfold_locales (simp_all add: read_write_byte)

lemma read_little_endian_le_value:
  "read_little_endian m a w = le_value (\<lambda>i. read_byte m (a + of_nat i)) w"
  by (simp add: read_little_endian_def le_value_def)

section \<open>The range check\<close>

text \<open>The loop keeps the least inaccessible address met so far.\<close>

definition bad_addresses :: "MemoryV2 \<Rightarrow> u64 \<Rightarrow> nat \<Rightarrow> u64 set" where
  "bad_addresses m a n = {a + of_nat i |i. i < n \<and> \<not> accessible m (a + of_nat i)}"

lemma bad_addresses_Suc:
  "bad_addresses m a (Suc n) =
     (if accessible m (a + of_nat n) then bad_addresses m a n
      else insert (a + of_nat n) (bad_addresses m a n))"
  by (auto simp: bad_addresses_def less_Suc_eq)

lemma check_range_Suc:
  "check_range m a (Suc n) =
     (if \<not> accessible m (a + of_nat n) \<and>
         (case check_range m a n of None \<Rightarrow> True | Some l \<Rightarrow> a + of_nat n < l)
      then Some (a + of_nat n) else check_range m a n)"
  by (simp add: check_range_def Let_def)

lemma check_range_least:
  "case check_range m a n of
     None \<Rightarrow> bad_addresses m a n = {}
   | Some l \<Rightarrow> l \<in> bad_addresses m a n \<and> (\<forall>b \<in> bad_addresses m a n. l \<le> b)"
proof (induction n)
  case 0
  then show ?case by (simp add: check_range_def bad_addresses_def)
next
  case (Suc n)
  then show ?case
    by (auto simp: check_range_Suc bad_addresses_Suc not_less split: option.splits if_splits)
qed

lemma check_range_None_iff:
  "check_range m a n = None \<longleftrightarrow> (\<forall>i < n. accessible m (a + of_nat i))"
  using check_range_least [of m a n] by (auto simp: bad_addresses_def split: option.splits)

lemma check_range_Min:
  "check_range m a n = (if bad_addresses m a n = {} then None else Some (Min (bad_addresses m a n)))"
proof -
  have "finite (bad_addresses m a n)" by simp
  then show ?thesis
    using check_range_least [of m a n]
    by (cases "check_range m a n") (auto intro!: Min_eqI [symmetric])
qed

section \<open>Multi-byte access\<close>

lemma read_after_write_little_endian:
  assumes "check_range m a w = None" and "w \<le> 8"
  shows "read_little_endian (write_little_endian m a w v) a w = take_bit (8 * w) v"
proof -
  have "inj_on (\<lambda>i. a + of_nat i) {..<w}"
    using assms(2) by (intro inj_on_add_of_nat) simp
  then show ?thesis
    using assms unfolding read_little_endian_le_value write_little_endian_def
    by (intro phys.le_round_trip) (auto simp: check_range_None_iff)
qed

lemma write_little_endian_elsewhere:
  assumes "check_range m a w = None" and "b \<notin> (\<lambda>i. a + of_nat i) ` {..<w}"
  shows "read_byte (write_little_endian m a w v) b = read_byte m b"
  using assms unfolding write_little_endian_def
  by (intro phys.rd_fold_miss) (auto simp: check_range_None_iff)

lemma accessible_write_little_endian [simp]:
  "accessible (write_little_endian m a w v) b = accessible m b"
  by (simp add: write_little_endian_def phys.acc_fold)

section \<open>Properties\<close>

text \<open>\<^verbatim>\<open>check_range\<close> accepts an access exactly when no byte of it is inaccessible, and
  otherwise reports the numerically lowest inaccessible address it covers, also for an access that
  wraps past the top of the address space.\<close>

theorem check_range_reports_lowest:
  "check_range m a n =
     (let bad = {a + of_nat i |i. i < n \<and> \<not> accessible m (a + of_nat i)}
      in if bad = {} then None else Some (Min bad))"
  using check_range_Min [of m a n] by (simp add: bad_addresses_def Let_def)

text \<open>C37: A little-endian store of up to eight bytes whose range check passed is read back by a
  load of the same width as the value's low bytes, and changes no other byte of memory.\<close>

theorem little_endian_round_trip:
  assumes "check_range m a w = None" and "w \<le> 8"
  shows "read_little_endian (write_little_endian m a w v) a w = take_bit (8 * w) v \<and>
         (\<forall>b. b \<notin> (\<lambda>i. a + of_nat i) ` {..<w} \<longrightarrow>
              read_byte (write_little_endian m a w v) b = read_byte m b)"
  using read_after_write_little_endian [OF assms] write_little_endian_elsewhere [OF assms(1)]
  by (intro conjI allI impI) blast+

theorem little_endian_round_trip_witness:
  "read_little_endian (write_little_endian (new_memory 8) 3 4 0x11223344AABBCCDD) 3 4 = 0xAABBCCDD
   \<and> read_byte (write_little_endian (new_memory 8) 3 4 0x11223344AABBCCDD) 7 = 0"
proof -
  have c: "check_range (new_memory 8) 3 4 = None" by code_simp
  have n: "(7 :: u64) \<notin> (\<lambda>i. 3 + of_nat i) ` {..<4}" by code_simp
  have r: "read_byte (new_memory 8) 7 = 0" by code_simp
  from little_endian_round_trip [OF c, of "0x11223344AABBCCDD"] n r
  show ?thesis by (simp add: take_bit_eq_mod)
qed

lemma load_image_places:
  assumes "load_image m a img = Some m'" and "length img \<le> 2 ^ 64" and "i < length img"
  shows "accessible m' (a + of_nat i) \<and> read_byte m' (a + of_nat i) = img ! i"
proof (cases "check_range m a (length img)")
  case None
  then have acc: "\<forall>i < length img. accessible m (a + of_nat i)" by (simp add: check_range_None_iff)
  have inj: "inj_on (\<lambda>i. a + of_nat i) {..<length img}" using assms(2) by (rule inj_on_add_of_nat)
  have m': "m' = fold (\<lambda>i m. write_byte m (a + of_nat i) (img ! i)) [0..<length img] m"
    using assms(1) None by (simp add: load_image_def)
  have "accessible m' (a + of_nat i)" unfolding m' phys.acc_fold using acc assms(3) by blast
  moreover have "read_byte m' (a + of_nat i) = img ! i" unfolding m' using inj acc assms(3) by (intro phys.rd_fold_hit) auto
  ultimately show ?thesis by blast
next
  case (Some l)
  then show ?thesis using assms(1) by (simp add: load_image_def)
qed



end
