(* ===== verification/Translate.thy ===== *)
theory Translate
  imports Csr Memory
begin

text \<open>
  Sv48 address translation and the translation cache, \<^verbatim>\<open>src/v2/translate_v2.h\<close>: the
  page-table walk, the permission test, the 32-entry cache with round-robin replacement and its
  two invalidations. The cache-free walk is the specification the cached translator refines.
\<close>

section \<open>Access kinds, entries and page sizes\<close>

datatype AccessKind = Fetch | Load | Store

fun page_fault_cause :: "AccessKind \<Rightarrow> u8" where
  "page_fault_cause Fetch = cause_kPageFaultFetch"
| "page_fault_cause Load = cause_kPageFaultLoad"
| "page_fault_cause Store = cause_kPageFaultStore"

abbreviation (input) page_fault_subcode_kNoMapping :: u8 where
  "page_fault_subcode_kNoMapping \<equiv> 0"

abbreviation (input) page_fault_subcode_kPermission :: u8 where
  "page_fault_subcode_kPermission \<equiv> 1"

abbreviation (input) pte_kValid :: u64 where
  "pte_kValid \<equiv> 0x1"

abbreviation (input) pte_kReadable :: u64 where
  "pte_kReadable \<equiv> 0x2"

abbreviation (input) pte_kWritable :: u64 where
  "pte_kWritable \<equiv> 0x4"

abbreviation (input) pte_kExecutable :: u64 where
  "pte_kExecutable \<equiv> 0x8"

abbreviation (input) pte_kUserAccessible :: u64 where
  "pte_kUserAccessible \<equiv> 0x10"

abbreviation (input) pte_kPermissionMask :: u64 where
  "pte_kPermissionMask \<equiv> pte_kReadable OR pte_kWritable OR pte_kExecutable OR pte_kUserAccessible"

abbreviation (input) pte_kAddressMask :: u64 where
  "pte_kAddressMask \<equiv> NOT 0xFFF"

abbreviation (input) sv48_kLevels :: nat where
  "sv48_kLevels \<equiv> 4"

abbreviation (input) sv48_kPageOffsetBits :: nat where
  "sv48_kPageOffsetBits \<equiv> 12"

abbreviation (input) sv48_kIndexBits :: nat where
  "sv48_kIndexBits \<equiv> 9"

abbreviation (input) sv48_kIndexMask :: u64 where
  "sv48_kIndexMask \<equiv> 0x1FF"

abbreviation (input) sv48_kEntryBytes :: u64 where
  "sv48_kEntryBytes \<equiv> 8"

abbreviation (input) sv48_kTranslatedMask :: u64 where
  "sv48_kTranslatedMask \<equiv> push_bit 48 1 - 1"

definition index_shift :: "nat \<Rightarrow> nat" where
  "index_shift level = sv48_kPageOffsetBits + sv48_kIndexBits * level"

definition page_bytes :: "nat \<Rightarrow> u64" where
  "page_bytes level = push_bit (index_shift level) 1"

definition page_offset_mask :: "nat \<Rightarrow> u64" where
  "page_offset_mask level = page_bytes level - 1"

definition leaf_permits :: "u64 \<Rightarrow> AccessKind \<Rightarrow> Privilege \<Rightarrow> bool" where
  "leaf_permits permissions kind level =
     (if level = User \<and> permissions AND pte_kUserAccessible = 0 then False
      else case kind of
             Fetch \<Rightarrow> permissions AND pte_kExecutable \<noteq> 0
           | Load \<Rightarrow> permissions AND pte_kReadable \<noteq> 0
           | Store \<Rightarrow> permissions AND pte_kWritable \<noteq> 0)"

section \<open>The translator\<close>

text \<open>
  A \<^verbatim>\<open>TranslationResult\<close> is the trap of a refused translation or the physical address of a
  permitted one.
\<close>

type_synonym TranslationResult = "TrapV2 + u64"

record CachedTranslation =
  ct_virtual_base :: u64
  ct_physical_base :: u64
  ct_offset_mask :: u64
  ct_permissions :: u64

record TranslatorV2 =
  t_entries :: "CachedTranslation list"
  t_valid :: "bool list"
  t_next :: nat
  t_walks :: u64
  t_hits :: u64

abbreviation (input) kCapacity :: nat where
  "kCapacity \<equiv> 32"

definition new_translator :: TranslatorV2 where
  "new_translator =
     \<lparr>t_entries = replicate kCapacity \<lparr>ct_virtual_base = 0, ct_physical_base = 0, ct_offset_mask = 0,
                                         ct_permissions = 0\<rparr>,
      t_valid = replicate kCapacity False, t_next = 0, t_walks = 0, t_hits = 0\<rparr>"

definition translation_fault :: "u8 \<Rightarrow> u8 \<Rightarrow> u64 \<Rightarrow> TrapV2" where
  "translation_fault cause_number subcode_number aux =
     no_trap\<lparr>trap_cause := cause_number, trap_subcode := subcode_number, trap_aux := aux\<rparr>"

definition page_fault :: "AccessKind \<Rightarrow> u8 \<Rightarrow> u64 \<Rightarrow> TrapV2" where
  "page_fault kind subcode_number virtual_address =
     translation_fault (page_fault_cause kind) subcode_number virtual_address"

definition finish :: "CachedTranslation \<Rightarrow> u64 \<Rightarrow> u64 \<Rightarrow> AccessKind \<Rightarrow> Privilege \<Rightarrow> TranslationResult" where
  "finish rec translated virtual_address kind level =
     (if \<not> leaf_permits (ct_permissions rec) kind level
      then Inl (page_fault kind page_fault_subcode_kPermission virtual_address)
      else Inr (ct_physical_base rec OR (translated AND ct_offset_mask rec)))"

definition covers :: "TranslatorV2 \<Rightarrow> nat \<Rightarrow> u64 \<Rightarrow> bool" where
  "covers t i translated \<longleftrightarrow>
     t_valid t ! i \<and>
     translated AND NOT (ct_offset_mask (t_entries t ! i)) = ct_virtual_base (t_entries t ! i)"

definition lookup :: "TranslatorV2 \<Rightarrow> u64 \<Rightarrow> CachedTranslation option" where
  "lookup t translated =
     map_option (\<lambda>i. t_entries t ! i) (find (\<lambda>i. covers t i translated) [0..<kCapacity])"

definition insert_translation :: "CachedTranslation \<Rightarrow> TranslatorV2 \<Rightarrow> TranslatorV2" where
  "insert_translation rec t =
     t\<lparr>t_entries := (t_entries t)[t_next t := rec],
       t_valid := (t_valid t)[t_next t := True],
       t_next := (t_next t + 1) mod kCapacity\<rparr>"

text \<open>
  The walk of \<^verbatim>\<open>translate\<close>, one unfolding per level: the first argument is
  \<^verbatim>\<open>walk_level + 1\<close>, so the loop runs from 4 down and ends at 0. The result is the fault the
  loop returns or the leaf's cache record.
\<close>

fun walk_table :: "nat \<Rightarrow> MemoryV2 \<Rightarrow> AccessKind \<Rightarrow> u64 \<Rightarrow> u64 \<Rightarrow> u64 \<Rightarrow> TrapV2 + CachedTranslation" where
  "walk_table 0 memory kind virtual_address translated table =
     Inl (page_fault kind page_fault_subcode_kNoMapping virtual_address)"
| "walk_table (Suc walk_level) memory kind virtual_address translated table =
     (let index = drop_bit (index_shift walk_level) translated AND sv48_kIndexMask;
          entry_addr = table + index * sv48_kEntryBytes
      in case check_range memory entry_addr (unat sv48_kEntryBytes) of
           Some inaccessible \<Rightarrow> Inl (translation_fault cause_kPhysicalMemoryFault 0 inaccessible)
         | None \<Rightarrow>
             let entry = read_little_endian memory entry_addr (unat sv48_kEntryBytes)
             in if entry AND pte_kValid = 0
                then Inl (page_fault kind page_fault_subcode_kNoMapping virtual_address)
                else if \<not> (entry AND (pte_kReadable OR pte_kWritable OR pte_kExecutable) \<noteq> 0)
                then if walk_level = 0
                     then Inl (page_fault kind page_fault_subcode_kNoMapping virtual_address)
                     else walk_table walk_level memory kind virtual_address translated
                            (entry AND pte_kAddressMask)
                else if entry AND pte_kWritable \<noteq> 0 \<and> entry AND pte_kReadable = 0
                then Inl (page_fault kind page_fault_subcode_kNoMapping virtual_address)
                else let offset_mask = page_offset_mask walk_level;
                         physical_base = entry AND pte_kAddressMask
                     in if physical_base AND offset_mask \<noteq> 0
                        then Inl (page_fault kind page_fault_subcode_kNoMapping virtual_address)
                        else Inr \<lparr>ct_virtual_base = translated AND NOT offset_mask,
                                  ct_physical_base = physical_base,
                                  ct_offset_mask = offset_mask,
                                  ct_permissions = entry AND pte_kPermissionMask\<rparr>)"

definition translate :: "TranslatorV2 \<Rightarrow> MemoryV2 \<Rightarrow> u64 \<Rightarrow> Privilege \<Rightarrow> AccessKind \<Rightarrow> u64
    \<Rightarrow> TranslationResult \<times> TranslatorV2" where
  "translate t memory paging_root_value level kind virtual_address =
     (if paging_root_value AND paging_root_kModeMask = paging_root_kModeBare
      then (Inr virtual_address, t)
      else
        let translated = virtual_address AND sv48_kTranslatedMask
        in case lookup t translated of
             Some hit \<Rightarrow> (finish hit translated virtual_address kind level, t\<lparr>t_hits := t_hits t + 1\<rparr>)
           | None \<Rightarrow>
               let t = t\<lparr>t_walks := t_walks t + 1\<rparr>
               in case walk_table sv48_kLevels memory kind virtual_address translated
                         (paging_root_value AND pte_kAddressMask) of
                    Inl trap \<Rightarrow> (Inl trap, t)
                  | Inr entry_record \<Rightarrow>
                      (finish entry_record translated virtual_address kind level,
                       insert_translation entry_record t))"

definition invalidate_all :: "TranslatorV2 \<Rightarrow> TranslatorV2" where
  "invalidate_all t = t\<lparr>t_valid := replicate kCapacity False\<rparr>"

definition invalidate_address :: "u64 \<Rightarrow> TranslatorV2 \<Rightarrow> TranslatorV2" where
  "invalidate_address virtual_address t =
     (let translated = virtual_address AND sv48_kTranslatedMask
      in fold (\<lambda>i t. if covers t i translated then t\<lparr>t_valid := (t_valid t)[i := False]\<rparr> else t)
           [0..<kCapacity] t)"

definition cached_count :: "TranslatorV2 \<Rightarrow> nat" where
  "cached_count t = fold (\<lambda>i count. if t_valid t ! i then count + 1 else count) [0..<kCapacity] 0"

section \<open>The specification: translation without a cache\<close>

definition translate_spec :: "MemoryV2 \<Rightarrow> u64 \<Rightarrow> Privilege \<Rightarrow> AccessKind \<Rightarrow> u64 \<Rightarrow> TranslationResult" where
  "translate_spec memory root level kind va =
     (if root AND paging_root_kModeMask = paging_root_kModeBare then Inr va
      else case walk_table sv48_kLevels memory kind va (va AND sv48_kTranslatedMask)
                  (root AND pte_kAddressMask) of
             Inl trap \<Rightarrow> Inl trap
           | Inr r \<Rightarrow> finish r (va AND sv48_kTranslatedMask) va kind level)"

section \<open>The walk\<close>

lemma page_offset_mask_eq: "page_offset_mask l = mask (index_shift l)"
  by (simp add: page_offset_mask_def page_bytes_def mask_eq_exp_minus_1 push_bit_of_1)

lemma index_shift_mono: "l \<le> k \<Longrightarrow> index_shift l \<le> index_shift k"
  by (simp add: index_shift_def)

text \<open>Addresses that agree above a page's offset bits agree on every index above them.\<close>

lemma drop_bit_agree:
  fixes v w :: "'a::len word"
  assumes "v AND NOT (mask s) = w AND NOT (mask s)" and "s \<le> k"
  shows "drop_bit k v = drop_bit k w"
proof (rule bit_word_eqI)
  fix n assume "n < LENGTH('a)"
  have "bit (v AND NOT (mask s)) (k + n) = bit (w AND NOT (mask s)) (k + n)"
    by (simp add: assms(1))
  with assms(2) show "bit (drop_bit k v) n = bit (drop_bit k w) n"
    by (auto simp: bit_simps dest: bit_imp_le_length)
qed

text \<open>
  When one level of the walk yields the record \<open>r\<close>: through the next table, or as the leaf
  this level's entry \<open>e\<close> encodes.
\<close>

definition walk_entry :: "MemoryV2 \<Rightarrow> nat \<Rightarrow> u64 \<Rightarrow> u64 \<Rightarrow> u64" where
  "walk_entry m l tr table =
     read_little_endian m (table + (drop_bit (index_shift l) tr AND sv48_kIndexMask) * sv48_kEntryBytes)
       (unat sv48_kEntryBytes)"

definition leaf_record :: "nat \<Rightarrow> u64 \<Rightarrow> u64 \<Rightarrow> CachedTranslation" where
  "leaf_record l tr e =
     \<lparr>ct_virtual_base = tr AND NOT (page_offset_mask l), ct_physical_base = e AND pte_kAddressMask,
      ct_offset_mask = page_offset_mask l, ct_permissions = e AND pte_kPermissionMask\<rparr>"

definition is_leaf_entry :: "u64 \<Rightarrow> bool" where
  "is_leaf_entry e \<longleftrightarrow> e AND (pte_kReadable OR pte_kWritable OR pte_kExecutable) \<noteq> 0"

definition valid_leaf_entry :: "nat \<Rightarrow> u64 \<Rightarrow> bool" where
  "valid_leaf_entry l e \<longleftrightarrow> is_leaf_entry e \<and> \<not> (e AND pte_kWritable \<noteq> 0 \<and> e AND pte_kReadable = 0) \<and>
     (e AND pte_kAddressMask) AND page_offset_mask l = 0"

lemma walk_table_Suc_Inr:
  "walk_table (Suc l) m kind va tr table = Inr r \<longleftrightarrow>
     check_range m (table + (drop_bit (index_shift l) tr AND sv48_kIndexMask) * sv48_kEntryBytes)
       (unat sv48_kEntryBytes) = None \<and>
     walk_entry m l tr table AND pte_kValid \<noteq> 0 \<and>
     (if is_leaf_entry (walk_entry m l tr table)
      then valid_leaf_entry l (walk_entry m l tr table) \<and> r = leaf_record l tr (walk_entry m l tr table)
      else l \<noteq> 0 \<and>
        walk_table l m kind va tr (walk_entry m l tr table AND pte_kAddressMask) = Inr r)"
  unfolding walk_table.simps Let_def walk_entry_def [symmetric] is_leaf_entry_def valid_leaf_entry_def
    leaf_record_def
  by (simp split: option.split) blast

declare walk_table.simps(2) [simp del]

lemma walk_record:
  "walk_table n m kind va tr table = Inr r \<Longrightarrow>
   \<exists>l < n. \<exists>tbl. let e = walk_entry m l tr tbl in
     e AND pte_kValid \<noteq> 0 \<and> valid_leaf_entry l e \<and> r = leaf_record l tr e"
proof (induction n arbitrary: table)
  case (Suc l)
  show ?case
  proof (cases "is_leaf_entry (walk_entry m l tr table)")
    case True
    with Suc.prems show ?thesis by (auto simp: walk_table_Suc_Inr Let_def)
  next
    case False
    with Suc.prems have
      "walk_table l m kind va tr (walk_entry m l tr table AND pte_kAddressMask) = Inr r"
      by (simp add: walk_table_Suc_Inr)
    from Suc.IH [OF this] show ?thesis using less_SucI by blast
  qed
qed simp

text \<open>
  A walk that ends in a leaf ends in the same leaf from every address of the leaf's page,
  whatever the access kind.
\<close>

lemma walk_same_page:
  assumes "walk_table n m kind va tr table = Inr r"
    and "tr' AND NOT (ct_offset_mask r) = ct_virtual_base r"
  shows "walk_table n m kind' va' tr' table = Inr r"
  using assms
proof (induction n arbitrary: table)
  case (Suc l)
  from walk_record [OF Suc.prems(1)] obtain k e where "k < Suc l"
    and r: "r = leaf_record k tr e" by (auto simp: Let_def)
  then have "index_shift k \<le> index_shift l" by (simp add: index_shift_mono)
  with r Suc.prems(2) have "drop_bit (index_shift l) tr' = drop_bit (index_shift l) tr"
    by (intro drop_bit_agree [where s = "index_shift k"]) (auto simp: leaf_record_def page_offset_mask_eq)
  then have d: "walk_entry m l tr' = walk_entry m l tr"
    "drop_bit (index_shift l) tr' = drop_bit (index_shift l) tr"
    by (auto simp: walk_entry_def)
  show ?case
  proof (cases "is_leaf_entry (walk_entry m l tr table)")
    case True
    with Suc.prems have "r = leaf_record l tr (walk_entry m l tr table)" by (simp add: walk_table_Suc_Inr)
    with Suc.prems(2) have "r = leaf_record l tr' (walk_entry m l tr table)" by (simp add: leaf_record_def)
    with True Suc.prems show ?thesis by (simp add: walk_table_Suc_Inr d)
  next
    case False
    with Suc show ?thesis by (simp add: walk_table_Suc_Inr d)
  qed
qed simp

section \<open>Stateful lookups that refine a pure one\<close>

text \<open>
  The contract the users of the cache rely on: while the invariant holds, a lookup returns what the
  pure specification says and keeps the invariant. \<open>thread_all\<close> is the loop that looks up a list
  of addresses in order and stops at the first refusal.
\<close>

fun thread_all :: "('t \<Rightarrow> u64 \<Rightarrow> ('f + 'b) \<times> 't) \<Rightarrow> 't \<Rightarrow> u64 list \<Rightarrow> ('f + 'b list) \<times> 't" where
  "thread_all look t [] = (Inr [], t)"
| "thread_all look t (a # addresses) =
     (case look t a of
        (Inl trap, t) \<Rightarrow> (Inl trap, t)
      | (Inr b, t) \<Rightarrow>
          (case thread_all look t addresses of
             (Inl trap, t) \<Rightarrow> (Inl trap, t)
           | (Inr bs, t) \<Rightarrow> (Inr (b # bs), t)))"

fun spec_all :: "(u64 \<Rightarrow> 'f + 'b) \<Rightarrow> u64 list \<Rightarrow> 'f + 'b list" where
  "spec_all spec [] = Inr []"
| "spec_all spec (a # addresses) =
     (case spec a of
        Inl trap \<Rightarrow> Inl trap
      | Inr b \<Rightarrow> (case spec_all spec addresses of Inl trap \<Rightarrow> Inl trap | Inr bs \<Rightarrow> Inr (b # bs)))"

lemma spec_all_Inr:
  "spec_all spec as = Inr bs \<longleftrightarrow> map spec as = map Inr bs"
proof (induction "as" arbitrary: bs)
  case (Cons a as)
  show ?case
  proof (cases "spec_all spec as")
    case (Inl f)
    with Cons.IH have "map spec as \<noteq> map Inr zs" for zs by (metis sum.distinct(1))
    with Inl show ?thesis by (auto split: sum.splits simp: Cons_eq_map_conv)
  next
    case (Inr zs)
    with Cons.IH [of zs] show ?thesis by (auto split: sum.splits simp: Cons_eq_map_conv)
  qed
qed auto

lemma spec_all_Inl:
  "spec_all spec as = Inl f \<Longrightarrow>
   \<exists>i < length as. spec (as ! i) = Inl f \<and> (\<forall>j < i. \<exists>b. spec (as ! j) = Inr b)"
proof (induction "as")
  case (Cons a as)
  show ?case
  proof (cases "spec a")
    case (Inl g)
    with Cons.prems show ?thesis by auto
  next
    case (Inr b)
    with Cons.prems have "spec_all spec as = Inl f" by (simp split: sum.splits)
    then obtain i where "i < length as" "spec (as ! i) = Inl f" "\<forall>j < i. \<exists>b. spec (as ! j) = Inr b"
      using Cons.IH by blast
    with Inr show ?thesis by (intro exI [of _ "Suc i"]) (auto simp: less_Suc_eq_0_disj)
  qed
qed simp

lemma thread_all_length: "fst (thread_all look t as) = Inr bs \<Longrightarrow> length bs = length as"
proof (induction "as" arbitrary: t bs)
  case (Cons a as)
  then obtain b t' bs' t'' where "look t a = (Inr b, t')" "thread_all look t' as = (Inr bs', t'')"
    "bs = b # bs'"
    by (auto split: prod.splits sum.splits)
  with Cons.IH [of t' bs'] show ?case by simp
qed simp

locale cached_lookup =
  fixes look :: "'t \<Rightarrow> u64 \<Rightarrow> ('f + 'b) \<times> 't"
    and spec :: "u64 \<Rightarrow> 'f + 'b"
    and inv :: "'t \<Rightarrow> bool"
  assumes look_spec: "inv t \<Longrightarrow> fst (look t a) = spec a"
    and look_inv: "inv t \<Longrightarrow> inv (snd (look t a))"
begin

lemma thread_all_inv: "inv t \<Longrightarrow> inv (snd (thread_all look t as))"
proof (induction "as" arbitrary: t)
  case (Cons a as)
  obtain r t' where l: "look t a = (r, t')" by (cases "look t a")
  with look_inv Cons.prems have "inv t'" by (metis snd_conv)
  with l Cons.IH [of t'] show ?case by (auto split: sum.splits prod.splits)
qed simp

lemma thread_all_spec: "inv t \<Longrightarrow> fst (thread_all look t as) = spec_all spec as"
proof (induction "as" arbitrary: t)
  case (Cons a as)
  obtain r t' where l: "look t a = (r, t')" by (cases "look t a")
  with look_spec look_inv Cons.prems have "r = spec a" "inv t'" by (metis fst_conv snd_conv)+
  with l Cons.IH [of t'] show ?case by (auto split: sum.splits prod.splits)
qed simp

end

section \<open>The cache\<close>

definition wf_translator :: "TranslatorV2 \<Rightarrow> bool" where
  "wf_translator t \<longleftrightarrow>
     length (t_entries t) = kCapacity \<and> length (t_valid t) = kCapacity \<and> t_next t < kCapacity"

text \<open>
  A cache is coherent with the tables when each of its valid entries is what the walk finds for
  every 48-bit address the entry answers for.
\<close>

definition coherent :: "TranslatorV2 \<Rightarrow> MemoryV2 \<Rightarrow> u64 \<Rightarrow> bool" where
  "coherent t m root \<longleftrightarrow>
     (\<forall>i < kCapacity. \<forall>tr kind va. tr AND sv48_kTranslatedMask = tr \<and> covers t i tr \<longrightarrow>
        walk_table sv48_kLevels m kind va tr (root AND pte_kAddressMask) = Inr (t_entries t ! i))"

lemma wf_new_translator [wf_intros, simp]: "wf_translator new_translator"
  by (simp add: wf_translator_def new_translator_def)

lemma wf_insert_translation [wf_intros]: "wf_translator t \<Longrightarrow> wf_translator (insert_translation r t)"
  by (simp add: wf_translator_def insert_translation_def)

lemma wf_translator_counters [simp]:
  "wf_translator (t\<lparr>t_hits := n\<rparr>) = wf_translator t" "wf_translator (t\<lparr>t_walks := n\<rparr>) = wf_translator t"
  by (simp_all add: wf_translator_def)

lemma covers_counters [simp]:
  "covers (t\<lparr>t_hits := n\<rparr>) = covers t" "covers (t\<lparr>t_walks := n\<rparr>) = covers t"
  by (simp_all add: covers_def fun_eq_iff)

lemma coherent_counters [simp]:
  "coherent (t\<lparr>t_hits := n\<rparr>) = coherent t" "coherent (t\<lparr>t_walks := n\<rparr>) = coherent t"
  by (simp_all add: coherent_def fun_eq_iff)

lemma wf_translate [wf_intros]:
  "wf_translator t \<Longrightarrow> wf_translator (snd (translate t m root level kind va))"
  by (auto simp: translate_def Let_def wf_insert_translation split: option.split sum.split)

lemma wf_invalidate_all [wf_intros, simp]: "wf_translator t \<Longrightarrow> wf_translator (invalidate_all t)"
  by (simp add: wf_translator_def invalidate_all_def)

lemma coherent_invalidate_all [simp]: "coherent (invalidate_all t) m root"
  by (simp add: coherent_def invalidate_all_def covers_def)

lemma lookup_Some:
  "lookup t tr = Some r \<Longrightarrow> \<exists>i < kCapacity. covers t i tr \<and> r = t_entries t ! i"
  by (auto simp: lookup_def find_Some_iff)

lemma lookup_None: "lookup t tr = None \<longleftrightarrow> (\<forall>i < kCapacity. \<not> covers t i tr)"
  by (auto simp: lookup_def find_None_iff)

lemma coherent_insert:
  assumes "wf_translator t" and "coherent t m root"
    and w: "walk_table sv48_kLevels m kind va tr (root AND pte_kAddressMask) = Inr r"
  shows "coherent (insert_translation r t) m root"
proof -
  have "walk_table sv48_kLevels m kind' va' tr' (root AND pte_kAddressMask) =
        Inr (t_entries (insert_translation r t) ! i)"
    if "i < kCapacity" "tr' AND sv48_kTranslatedMask = tr'" and c: "covers (insert_translation r t) i tr'"
    for i kind' va' tr'
  proof (cases "i = t_next t")
    case True
    with c assms(1) that(1) have "tr' AND NOT (ct_offset_mask r) = ct_virtual_base r"
      by (simp add: covers_def insert_translation_def wf_translator_def)
    from walk_same_page [OF w this] True that(1) assms(1) show ?thesis
      by (simp add: insert_translation_def wf_translator_def)
  next
    case False
    with c have "covers t i tr'" by (simp add: covers_def insert_translation_def)
    with assms(2) that(1,2) False show ?thesis by (simp add: coherent_def insert_translation_def)
  qed
  then show ?thesis by (simp add: coherent_def)
qed

lemma translate_coherent:
  assumes "wf_translator t" and "coherent t m root"
  shows "coherent (snd (translate t m root level kind va)) m root"
  using assms
  by (auto simp: translate_def Let_def coherent_insert split: option.split sum.split)

lemma translate_spec_eq:
  assumes "coherent t m root"
  shows "fst (translate t m root level kind va) = translate_spec m root level kind va"
proof (cases "lookup t (va AND sv48_kTranslatedMask)")
  case None
  then show ?thesis
    by (simp add: translate_def translate_spec_def Let_def split: sum.split)
next
  case (Some r)
  from lookup_Some [OF this] assms
  have "walk_table sv48_kLevels m kind va (va AND sv48_kTranslatedMask) (root AND pte_kAddressMask) = Inr r"
    by (auto simp: coherent_def and.assoc)
  with Some show ?thesis by (simp add: translate_def translate_spec_def Let_def)
qed

interpretation tlb: cached_lookup "\<lambda>t. translate t m root level kind" "translate_spec m root level kind"
  "\<lambda>t. wf_translator t \<and> coherent t m root" for m root level kind
  by unfold_locales (auto simp: translate_spec_eq translate_coherent wf_translate)

lemma invalidate_fold:
  fixes tr :: u64
  assumes "length (t_valid t) = kCapacity" and "n \<le> kCapacity"
  defines "t' \<equiv> fold (\<lambda>i t. if covers t i tr then t\<lparr>t_valid := (t_valid t)[i := False]\<rparr> else t) [0..<n] t"
  shows "t_entries t' = t_entries t \<and> t_next t' = t_next t \<and> length (t_valid t') = kCapacity \<and>
         (\<forall>i < kCapacity. t_valid t' ! i = (t_valid t ! i \<and> \<not> (i < n \<and> covers t i tr)))"
  using assms(2) unfolding t'_def
proof (induction n)
  case 0
  with assms(1) show ?case by simp
next
  case (Suc n)
  then show ?case by (auto simp: covers_def nth_list_update_if less_Suc_eq)
qed

lemma invalidate_address_eff:
  assumes "wf_translator t"
  shows "wf_translator (invalidate_address va t)"
    and "i < kCapacity \<Longrightarrow> covers (invalidate_address va t) i tr \<longleftrightarrow>
           covers t i tr \<and> \<not> covers t i (va AND sv48_kTranslatedMask)"
    and "t_entries (invalidate_address va t) = t_entries t"
  using assms invalidate_fold [of t kCapacity "va AND sv48_kTranslatedMask"]
  by (auto simp: invalidate_address_def Let_def wf_translator_def covers_def)

lemma invalidate_addresses_eff:
  assumes "wf_translator t"
  shows "wf_translator (fold invalidate_address vas t) \<and>
         t_entries (fold invalidate_address vas t) = t_entries t \<and>
         (\<forall>i tr. i < kCapacity \<longrightarrow> covers (fold invalidate_address vas t) i tr =
            (covers t i tr \<and> (\<forall>va \<in> set vas. \<not> covers t i (va AND sv48_kTranslatedMask))))"
  using assms
proof (induction vas arbitrary: t)
  case (Cons va vas)
  note e = invalidate_address_eff [OF Cons.prems, where va = va]
  from Cons.IH [OF e(1)] show ?case by (auto simp: e(2,3))
qed simp

text \<open>The permission mask, \<open>0x1E\<close>, keeps the four bits the permission test reads.\<close>

lemma and_permission_mask [simp]:
  "(e AND 0x1E) AND 2 = e AND 2" "(e AND 0x1E) AND 4 = e AND 4"
  "(e AND 0x1E) AND 8 = e AND 8" "(e AND 0x1E) AND 16 = e AND 16"
  for e :: u64
  by (simp_all add: and.assoc)

lemma leaf_permits_mask [simp]: "leaf_permits (e AND 0x1E) kind level = leaf_permits e kind level"
  by (simp add: leaf_permits_def split: AccessKind.split)

text \<open>A leaf that grants a store grants a load: a writable entry without the readable bit
  is refused by the walk.\<close>

lemma storable_loadable:
  assumes "translate_spec m root level Store va = Inr p"
  shows "translate_spec m root level Load va = Inr p"
proof (cases "root AND paging_root_kModeMask = paging_root_kModeBare")
  case True
  with assms show ?thesis by (simp add: translate_spec_def)
next
  case False
  let ?tr = "va AND sv48_kTranslatedMask"
  from assms False obtain r where
    w: "walk_table sv48_kLevels m Store va ?tr (root AND pte_kAddressMask) = Inr r"
    and f: "finish r ?tr va Store level = Inr p"
    by (auto simp: translate_spec_def split: sum.splits)
  from walk_record [OF w] obtain l e where e: "valid_leaf_entry l e" "r = leaf_record l ?tr e"
    by (auto simp: Let_def)
  have "?tr AND NOT (ct_offset_mask r) = ct_virtual_base r" by (simp add: e(2) leaf_record_def)
  from walk_same_page [OF w this]
  have "walk_table sv48_kLevels m Load va ?tr (root AND pte_kAddressMask) = Inr r" .
  moreover have "finish r ?tr va Load level = Inr p"
    using f e by (auto simp: finish_def leaf_record_def valid_leaf_entry_def
        leaf_permits_def split: if_splits)
  ultimately show ?thesis using False by (simp add: translate_spec_def)
qed

section \<open>The page tables, read bit by bit\<close>

text \<open>
  What the tables say of an address, without the code's masks and loops. The entry for \<open>va\<close> at
  level \<open>l\<close> is the little-endian word at index \<open>va div 2^(12+9l) mod 512\<close> of its table. Bit 0 is
  valid, bits 1, 2 and 3 are readable, writable and executable and mark a leaf, bit 4 is
  user-accessible, and the upper 52 bits hold an address. \<open>maps_by m va l table k e\<close>: from \<open>table\<close>
  at level \<open>l\<close>, valid pointer entries lead down to the valid leaf \<open>e\<close> at level \<open>k\<close>.
\<close>

definition entry_at :: "MemoryV2 \<Rightarrow> u64 \<Rightarrow> nat \<Rightarrow> u64 \<Rightarrow> u64 \<Rightarrow> bool" where
  "entry_at m va l table e \<longleftrightarrow>
     (\<forall>i < 8. let a = table + 8 * of_nat (unat va div 2 ^ (12 + 9 * l) mod 512) + of_nat i
              in accessible m a \<and> read_byte m a = ucast (drop_bit (i * 8) e))"

inductive maps_by :: "MemoryV2 \<Rightarrow> u64 \<Rightarrow> nat \<Rightarrow> u64 \<Rightarrow> nat \<Rightarrow> u64 \<Rightarrow> bool" for m va where
  leaf: "\<lbrakk>entry_at m va l table e; bit e 0; bit e 1 \<or> bit e 2 \<or> bit e 3\<rbrakk> \<Longrightarrow> maps_by m va l table l e"
| down: "\<lbrakk>entry_at m va (Suc l) table e; bit e 0; \<not> bit e 1; \<not> bit e 2; \<not> bit e 3;
          maps_by m va l (e AND NOT 0xFFF) k leaf_entry\<rbrakk> \<Longrightarrow> maps_by m va (Suc l) table k leaf_entry"

definition access_bit :: "AccessKind \<Rightarrow> nat" where
  "access_bit kind = (case kind of Fetch \<Rightarrow> 3 | Load \<Rightarrow> 1 | Store \<Rightarrow> 2)"

lemma and_flag_eq_0:
  fixes e :: u64
  shows "e AND 1 = 0 \<longleftrightarrow> \<not> bit e 0" "e AND 2 = 0 \<longleftrightarrow> \<not> bit e 1" "e AND 4 = 0 \<longleftrightarrow> \<not> bit e 2"
    "e AND 8 = 0 \<longleftrightarrow> \<not> bit e 3" "e AND 16 = 0 \<longleftrightarrow> \<not> bit e 4"
  using and_exp_eq_0_iff_not_bit [of e 0] and_exp_eq_0_iff_not_bit [of e 1] and_exp_eq_0_iff_not_bit [of e 2]
    and_exp_eq_0_iff_not_bit [of e 3] and_exp_eq_0_iff_not_bit [of e 4] by simp_all

lemma and_rwx_eq_0: "(e :: u64) AND 0xE = 0 \<longleftrightarrow> \<not> bit e 1 \<and> \<not> bit e 2 \<and> \<not> bit e 3"
proof -
  have "e AND 0xE = (e AND 2) OR (e AND 4) OR (e AND 8)"
    by (simp flip: bit.conj_disj_distrib)
  then show ?thesis by (simp add: or_eq_0_iff and_flag_eq_0)
qed

lemma le_value_eq_iff:
  "le_value f 8 = e \<longleftrightarrow> (\<forall>i < 8. f i = ucast (drop_bit (i * 8) e))"
proof
  assume "le_value f 8 = e"
  then show "\<forall>i < 8. f i = ucast (drop_bit (i * 8) e)"
    by (auto simp: ucast_drop_bit_le_value)
next
  assume "\<forall>i < 8. f i = ucast (drop_bit (i * 8) e)"
  then have "le_value f 8 = le_value (\<lambda>i. ucast (drop_bit (i * 8) e)) 8" by (intro le_value_cong) auto
  then show "le_value f 8 = e" by (simp add: le_value_bytes take_bit_word_eq_self)
qed

lemma table_index_eq:
  fixes va :: u64
  assumes "l < 4"
  shows "drop_bit (index_shift l) (va AND sv48_kTranslatedMask) AND sv48_kIndexMask =
         of_nat (unat va div 2 ^ (12 + 9 * l) mod 512)"
proof -
  have "drop_bit (index_shift l) (va AND sv48_kTranslatedMask) AND sv48_kIndexMask =
        take_bit 9 (drop_bit (index_shift l) (take_bit 48 va))"
    by (simp add: take_bit_eq_mask mask_eq_exp_minus_1)
  also have "\<dots> = take_bit 9 (drop_bit (index_shift l) va)"
    using assms by (intro bit_word_eqI) (auto simp: bit_simps index_shift_def)
  also have "\<dots> = of_nat (unat (take_bit 9 (drop_bit (index_shift l) va)))" by simp
  also have "unat (take_bit 9 (drop_bit (index_shift l) va)) = unat va div 2 ^ (12 + 9 * l) mod 512"
    unfolding unsigned_take_bit_eq unsigned_drop_bit_eq
    using unsigned_less [of va, where 'a = nat]
    by (simp add: index_shift_def take_bit_eq_mod drop_bit_eq_div)
  finally show ?thesis .
qed

lemma entry_at_iff:
  assumes "l < 4"
  shows "entry_at m va l table e \<longleftrightarrow>
    check_range m (table + (drop_bit (index_shift l) (va AND sv48_kTranslatedMask) AND sv48_kIndexMask)
       * sv48_kEntryBytes) (unat sv48_kEntryBytes) = None \<and>
    walk_entry m l (va AND sv48_kTranslatedMask) table = e"
  unfolding walk_entry_def table_index_eq [OF assms] check_range_None_iff read_little_endian_le_value
  by (auto simp: entry_at_def Let_def le_value_eq_iff mult.commute)

lemma maps_by_iff:
  assumes "n < 4"
  shows "walk_table (Suc n) m kind va' (va AND sv48_kTranslatedMask) table = Inr r \<longleftrightarrow>
    (\<exists>l e. maps_by m va n table l e \<and> valid_leaf_entry l e \<and> r = leaf_record l (va AND sv48_kTranslatedMask) e)"
  using assms
proof (induction n arbitrary: table)
  case 0
  show ?case
    unfolding walk_table_Suc_Inr by (subst maps_by.simps) (auto simp: entry_at_iff is_leaf_entry_def and_flag_eq_0 and_rwx_eq_0 valid_leaf_entry_def)
next
  case (Suc n)
  let ?e = "walk_entry m (Suc n) (va AND sv48_kTranslatedMask) table"
  have lt: "Suc n < 4" using Suc.prems .
  have "maps_by m va (Suc n) table l e \<longleftrightarrow>
    check_range m (table + (drop_bit (index_shift (Suc n)) (va AND sv48_kTranslatedMask) AND sv48_kIndexMask)
       * sv48_kEntryBytes) (unat sv48_kEntryBytes) = None \<and> ?e AND pte_kValid \<noteq> 0 \<and>
    (if is_leaf_entry ?e then l = Suc n \<and> e = ?e
     else maps_by m va n (?e AND pte_kAddressMask) l e)" for l e
    by (subst maps_by.simps) (auto simp: entry_at_iff [OF lt] is_leaf_entry_def and_flag_eq_0 and_rwx_eq_0)
  then show ?case
    unfolding walk_table_Suc_Inr [of "Suc n"] using Suc.IH [of "?e AND pte_kAddressMask"] Suc.prems
    by (cases "is_leaf_entry ?e") auto
qed

lemma maps_by_level: "maps_by m va n table l e \<Longrightarrow> l \<le> n"
  by (induction rule: maps_by.induct) auto

lemma leaf_permits_bits:
  "leaf_permits e kind level \<longleftrightarrow> bit e (access_bit kind) \<and> (level = User \<longrightarrow> bit e 4)"
  by (cases kind) (auto simp: leaf_permits_def access_bit_def and_flag_eq_0)

lemma page_base_plus_offset:
  fixes b va :: u64
  assumes "l < 4" and "b AND page_offset_mask l = 0"
  shows "b OR ((va AND sv48_kTranslatedMask) AND page_offset_mask l) =
         b + of_nat (unat va mod 2 ^ (12 + 9 * l))"
proof -
  have "(va AND sv48_kTranslatedMask) AND page_offset_mask l = take_bit (index_shift l) (take_bit 48 va)"
    by (simp add: page_offset_mask_eq take_bit_eq_mask mask_eq_exp_minus_1)
  also have "\<dots> = take_bit (index_shift l) va"
    using assms(1) by (simp add: index_shift_def)
  finally have o: "(va AND sv48_kTranslatedMask) AND page_offset_mask l = take_bit (index_shift l) va" .
  have "take_bit (index_shift l) va = of_nat (unat (take_bit (index_shift l) va))" by simp
  also have "unat (take_bit (index_shift l) va) = unat va mod 2 ^ (12 + 9 * l)"
    unfolding unsigned_take_bit_eq by (simp add: index_shift_def take_bit_eq_mod)
  finally have n: "take_bit (index_shift l) va = of_nat (unat va mod 2 ^ (12 + 9 * l))" .
  have "b AND take_bit (index_shift l) va = (b AND page_offset_mask l) AND va"
    by (simp add: page_offset_mask_eq take_bit_eq_mask ac_simps)
  with assms(2) have "b + take_bit (index_shift l) va = b OR take_bit (index_shift l) va"
    by (simp add: disjunctive_add_eq_or)
  then show ?thesis unfolding o by (simp add: n)
qed

lemma page_aligned_iff:
  "(b :: u64) AND page_offset_mask l = 0 \<longleftrightarrow> 2 ^ (12 + 9 * l) dvd unat b"
proof -
  have "b AND page_offset_mask l = 0 \<longleftrightarrow> unat (take_bit (index_shift l) b) = 0"
    by (simp add: page_offset_mask_eq take_bit_eq_mask unsigned_eq_0_iff)
  also have "\<dots> \<longleftrightarrow> unat b mod 2 ^ (12 + 9 * l) = 0"
    unfolding unsigned_take_bit_eq by (simp add: index_shift_def take_bit_eq_mod)
  finally show ?thesis by (simp add: dvd_eq_mod_eq_0)
qed

section \<open>Properties\<close>

text \<open>C8: While every cached entry agrees with the page tables, translating through the cache gives
  exactly what an uncached walk gives, hit or miss, permitted or refused, and the cache still agrees
  with the tables afterwards.\<close>

theorem translate_refines_walk:
  assumes "wf_translator t" and "coherent t m root"
  shows "fst (translate t m root level kind va) = translate_spec m root level kind va \<and>
         coherent (snd (translate t m root level kind va)) m root \<and>
         wf_translator (snd (translate t m root level kind va))"
  using translate_spec_eq [OF assms(2)] translate_coherent [OF assms] wf_translate [OF assms(1)] by blast

theorem translate_refines_walk_witness:
  "fst (translate new_translator \<lparr>mem_bytes = [0x1F, 0, 0, 0, 0, 0, 0, 0]\<rparr> 1 User Load 5) =
   translate_spec \<lparr>mem_bytes = [0x1F, 0, 0, 0, 0, 0, 0, 0]\<rparr> 1 User Load 5 \<and>
   translate_spec \<lparr>mem_bytes = [0x1F, 0, 0, 0, 0, 0, 0, 0]\<rparr> 1 User Load 5 = Inr 5"
proof -
  have c: "coherent new_translator m root" for m root
    by (simp add: coherent_def covers_def new_translator_def)
  have e: "translate_spec \<lparr>mem_bytes = [0x1F, 0, 0, 0, 0, 0, 0, 0]\<rparr> 1 User Load 5 = Inr 5" by code_simp
  from translate_refines_walk [OF wf_new_translator c] e show ?thesis by metis
qed

text \<open>C23: Under Sv48 an address translates to \<open>p\<close> exactly when the tables in memory lead from the
  root, level by level through valid pointer entries at the address's indices, to a valid leaf that
  is not writable without being readable, is aligned to its page size, has the bit of the access
  kind (executable for a fetch, readable for a load, writable for a store) and, at user level, the
  user bit, and \<open>p\<close> is the leaf's address plus the offset of the virtual address in the page. The
  translation cache is coherent with the tables.\<close>

theorem translation_needs_permission:
  assumes "coherent t m root" and "root AND paging_root_kModeMask \<noteq> 0"
  shows "fst (translate t m root level kind va) = Inr p \<longleftrightarrow>
    (\<exists>l e. maps_by m va 3 (root AND NOT 0xFFF) l e \<and>
           (bit e 2 \<longrightarrow> bit e 1) \<and> 2 ^ (12 + 9 * l) dvd unat (e AND NOT 0xFFF) \<and>
           bit e (access_bit kind) \<and> (level = User \<longrightarrow> bit e 4) \<and>
           p = (e AND NOT 0xFFF) + of_nat (unat va mod 2 ^ (12 + 9 * l)))"
proof -
  let ?tr = "va AND sv48_kTranslatedMask"
  have four: "sv48_kLevels = Suc 3" by simp
  have "fst (translate t m root level kind va) = Inr p \<longleftrightarrow>
    (\<exists>r. walk_table sv48_kLevels m kind va ?tr (root AND pte_kAddressMask) = Inr r \<and>
         finish r ?tr va kind level = Inr p)"
    unfolding translate_spec_eq [OF assms(1)]
    using assms(2) by (auto simp: translate_spec_def split: sum.splits)
  also have "\<dots> \<longleftrightarrow> (\<exists>l e. maps_by m va 3 (root AND pte_kAddressMask) l e \<and> valid_leaf_entry l e \<and>
         finish (leaf_record l ?tr e) ?tr va kind level = Inr p)"
    unfolding four by (subst maps_by_iff) auto
  also have "\<dots> \<longleftrightarrow> (\<exists>l e. maps_by m va 3 (root AND pte_kAddressMask) l e \<and> valid_leaf_entry l e \<and>
         leaf_permits e kind level \<and> p = (e AND pte_kAddressMask) OR (?tr AND page_offset_mask l))"
    by (auto simp: finish_def leaf_record_def)
  also have "\<dots> \<longleftrightarrow> (\<exists>l e. maps_by m va 3 (root AND pte_kAddressMask) l e \<and>
         (bit e 2 \<longrightarrow> bit e 1) \<and> 2 ^ (12 + 9 * l) dvd unat (e AND pte_kAddressMask) \<and>
         bit e (access_bit kind) \<and> (level = User \<longrightarrow> bit e 4) \<and>
         p = (e AND pte_kAddressMask) + of_nat (unat va mod 2 ^ (12 + 9 * l)))"
  proof (intro iff_exI conj_cong [OF refl])
    fix l e
    assume "maps_by m va 3 (root AND pte_kAddressMask) l e"
    then have l: "l < 4" using maps_by_level by fastforce
    show "(valid_leaf_entry l e \<and>
         leaf_permits e kind level \<and> p = (e AND pte_kAddressMask) OR (?tr AND page_offset_mask l)) \<longleftrightarrow>
         (bit e 2 \<longrightarrow> bit e 1) \<and> 2 ^ (12 + 9 * l) dvd unat (e AND pte_kAddressMask) \<and>
         bit e (access_bit kind) \<and> (level = User \<longrightarrow> bit e 4) \<and>
         p = (e AND pte_kAddressMask) + of_nat (unat va mod 2 ^ (12 + 9 * l))"
      using page_base_plus_offset [OF l, of "e AND pte_kAddressMask" va]
      by (cases kind) (auto simp: valid_leaf_entry_def leaf_permits_bits page_aligned_iff
          is_leaf_entry_def and_flag_eq_0 and_rwx_eq_0 access_bit_def)
  qed
  finally show ?thesis by simp
qed

theorem translation_needs_permission_witness:
  "let m = \<lparr>mem_bytes = [0x01, 0, 0, 0, 0, 0, 0, 0, 0x17, 0, 0, 0, 0, 0, 0, 0]\<rparr>
   in (\<exists>l e. maps_by m 0x40001234 3 0 l e \<and> bit e 2 \<and> bit e 4) \<and>
      \<not> (\<exists>l e. maps_by m 0x40001234 3 0 l e \<and> (bit e 2 \<longrightarrow> bit e 1) \<and>
             2 ^ (12 + 9 * l) dvd unat (e AND NOT 0xFFF) \<and> bit e 3 \<and>
             0x1234 = (e AND NOT 0xFFF) + of_nat (unat (0x40001234 :: u64) mod 2 ^ (12 + 9 * l)))"
proof -
  let ?m = "\<lparr>mem_bytes = [0x01, 0, 0, 0, 0, 0, 0, 0, 0x17, 0, 0, 0, 0, 0, 0, 0 :: u8]\<rparr>"
  have c: "coherent new_translator ?m 1"
    by (simp add: coherent_def covers_def new_translator_def)
  have r: "(1 :: u64) AND paging_root_kModeMask \<noteq> 0" by simp
  have t: "fst (translate new_translator ?m 1 User Store 0x40001234) = Inr 0x1234" by code_simp
  have f: "fst (translate new_translator ?m 1 Supervisor Fetch 0x40001234) \<noteq> Inr 0x1234" by code_simp
  have z: "(1 :: u64) AND NOT 0xFFF = 0" by simp
  note granted = translation_needs_permission [OF c r, unfolded z]
  have s: "access_bit Store = 2" and x: "access_bit Fetch = 3" by (simp_all add: access_bit_def)
  from iffD1 [OF granted t, unfolded s] have "\<exists>l e. maps_by ?m 0x40001234 3 0 l e \<and> bit e 2 \<and> bit e 4"
    by fast
  moreover have "\<not> (\<exists>l e. maps_by ?m 0x40001234 3 0 l e \<and> (bit e 2 \<longrightarrow> bit e 1) \<and>
      2 ^ (12 + 9 * l) dvd unat (e AND NOT 0xFFF) \<and> bit e 3 \<and>
      0x1234 = (e AND NOT 0xFFF) + of_nat (unat (0x40001234 :: u64) mod 2 ^ (12 + 9 * l)))"
    using f unfolding granted [of Supervisor Fetch] x by fast
  ultimately show ?thesis unfolding Let_def by (rule conjI)
qed

text \<open>A virtual address that can be stored to can be loaded from, at the same level and from
  the same physical byte: no mapping is write-only.\<close>

theorem storable_is_loadable:
  assumes "translate_spec m root level Store va = Inr p"
  shows "translate_spec m root level Load va = Inr p"
  using assms by (rule storable_loadable)

theorem storable_is_loadable_witness:
  "translate_spec \<lparr>mem_bytes = [0x17, 0, 0, 0, 0, 0, 0, 0]\<rparr> 1 User Load 0x1234 = Inr 0x1234"
proof -
  have "translate_spec \<lparr>mem_bytes = [0x17, 0, 0, 0, 0, 0, 0, 0]\<rparr> 1 User Store 0x1234 = Inr 0x1234"
    by code_simp
  from storable_is_loadable [OF this] show ?thesis .
qed

text \<open>C26: The invalidation discipline is enough. The tables under one root change in any way, and
  some addresses are invalidated one after the other. If every leaf translation that the old tables
  gave and the new ones no longer give covers at least one of these addresses, the cache then agrees
  with the new tables.\<close>

theorem invalidate_address_restores_coherence:
  assumes "wf_translator t" and "coherent t m root"
    and "\<And>tr kind va' r.
           tr AND sv48_kTranslatedMask = tr \<Longrightarrow>
           walk_table sv48_kLevels m kind va' tr (root AND pte_kAddressMask) = Inr r \<Longrightarrow>
           walk_table sv48_kLevels m' kind va' tr (root AND pte_kAddressMask) \<noteq> Inr r \<Longrightarrow>
           \<exists>va \<in> set vas. (va AND sv48_kTranslatedMask) AND NOT (ct_offset_mask r) = ct_virtual_base r"
  shows "coherent (fold invalidate_address vas t) m' root"
proof -
  have "walk_table sv48_kLevels m' kind va' tr (root AND pte_kAddressMask) = Inr (t_entries t ! i)"
    if "i < kCapacity" "covers t i tr" "\<forall>va \<in> set vas. \<not> covers t i (va AND sv48_kTranslatedMask)"
      "tr AND sv48_kTranslatedMask = tr" for i tr kind va'
  proof (rule ccontr)
    assume n: "walk_table sv48_kLevels m' kind va' tr (root AND pte_kAddressMask) \<noteq> Inr (t_entries t ! i)"
    have "walk_table sv48_kLevels m kind va' tr (root AND pte_kAddressMask) = Inr (t_entries t ! i)"
      using assms(2) that by (simp add: coherent_def)
    from assms(3) [OF that(4) this n] that(2,3) show False by (auto simp: covers_def)
  qed
  then show ?thesis
    using invalidate_addresses_eff [OF assms(1)] by (simp add: coherent_def)
qed

text \<open>
  An instance: one 512 GiB leaf at the root of the tables, cached by a store through it, whose
  write permission is then taken away.
\<close>

lemma single_leaf_page:
  assumes "tr AND sv48_kTranslatedMask = tr"
    and "walk_table sv48_kLevels \<lparr>mem_bytes = [0x17, 0, 0, 0, 0, 0, 0, 0]\<rparr> kind va tr 0 = Inr r"
  shows "ct_virtual_base r = 0 \<and> ct_offset_mask r = mask 39"
proof -
  let ?m = "\<lparr>mem_bytes = [0x17, 0, 0, 0, 0, 0, 0, 0 :: u8]\<rparr>"
  define i where "i = drop_bit 39 tr AND 0x1FF"
  have four: "sv48_kLevels = Suc 3" by simp
  have sh: "index_shift 3 = 39" by (simp add: index_shift_def)
  have "check_range ?m (i * 8) 8 = None"
    using assms(2) unfolding four walk_table_Suc_Inr by (simp add: sh i_def)
  then have "accessible ?m (i * 8 + of_nat 0)"
    unfolding check_range_None_iff by (rule allE [of _ 0]) simp
  then have a: "unat (i * 8) < 8" by (simp add: accessible_def)
  have "i = take_bit 9 (drop_bit 39 tr)"
    by (simp add: i_def take_bit_eq_mask mask_eq_exp_minus_1)
  then have "unat i < 512"
    using take_bit_nat_less_exp [of 9 "unat (drop_bit 39 tr)"] by (simp add: unsigned_take_bit_eq)
  with a have "unat i = 0" by (simp add: unat_word_ariths)
  then have i: "i = 0" by (simp add: unsigned_eq_0_iff)
  have e: "walk_entry ?m 3 tr 0 = 0x17"
    unfolding walk_entry_def sh i_def [symmetric] i by code_simp
  have l: "is_leaf_entry 0x17" by code_simp
  have r: "r = leaf_record 3 tr 0x17"
    using assms(2) l unfolding four walk_table_Suc_Inr e by simp
  have "tr AND NOT (mask 39) = 0"
  proof (intro bit_word_eqI)
    fix n
    have "take_bit 48 tr = tr"
      using assms(1) by (simp add: take_bit_eq_mask mask_eq_exp_minus_1)
    then have "bit tr n \<Longrightarrow> n < 48" by (metis bit_take_bit_iff)
    moreover have "\<not> bit (drop_bit 39 tr AND mask 9) (n - 39)"
      using i by (simp add: i_def mask_eq_exp_minus_1)
    ultimately show "bit (tr AND NOT (mask 39)) n = bit 0 n"
      by (cases "n < 39") (auto simp: bit_simps)
  qed
  then show ?thesis by (simp add: r leaf_record_def page_offset_mask_eq sh)
qed

theorem invalidate_address_restores_coherence_witness:
  "let m = \<lparr>mem_bytes = [0x17, 0, 0, 0, 0, 0, 0, 0]\<rparr>;
       t = snd (translate new_translator m 1 User Store 0x1234)
   in lookup t 5 \<noteq> None \<and>
      coherent (fold invalidate_address [5] t) \<lparr>mem_bytes = [0x13, 0, 0, 0, 0, 0, 0, 0]\<rparr> 1"
proof -
  let ?m = "\<lparr>mem_bytes = [0x17, 0, 0, 0, 0, 0, 0, 0 :: u8]\<rparr>"
  let ?t = "snd (translate new_translator ?m 1 User Store 0x1234)"
  have c: "coherent new_translator ?m 1"
    by (simp add: coherent_def covers_def new_translator_def)
  have "lookup ?t 5 \<noteq> None" by code_simp
  moreover have "coherent (fold invalidate_address [5] ?t) \<lparr>mem_bytes = [0x13, 0, 0, 0, 0, 0, 0, 0]\<rparr> 1"
  proof (rule invalidate_address_restores_coherence [where m = ?m])
    show "wf_translator ?t" by (simp add: wf_translate)
    show "coherent ?t ?m 1" by (rule translate_coherent [OF wf_new_translator c])
    fix tr kind va' r
    assume "tr AND sv48_kTranslatedMask = tr"
      and "walk_table sv48_kLevels ?m kind va' tr (1 AND pte_kAddressMask) = Inr r"
    then have "ct_virtual_base r = 0 \<and> ct_offset_mask r = mask 39"
      by (intro single_leaf_page) auto
    moreover have "(5 AND sv48_kTranslatedMask) AND NOT (mask 39) = (0 :: u64)" by code_simp
    ultimately have "(5 AND sv48_kTranslatedMask) AND NOT (ct_offset_mask r) = ct_virtual_base r" by metis
    then show "\<exists>va \<in> set [5]. (va AND sv48_kTranslatedMask) AND NOT (ct_offset_mask r) = ct_virtual_base r"
      by simp
  qed
  ultimately show ?thesis by (simp add: Let_def)
qed

text \<open>A translation that succeeded once is answered from the cache the next time, without a
  walk and with the same answer.\<close>

theorem second_translation_hits:
  assumes "wf_translator t" and "coherent t m root" and "root AND paging_root_kModeMask \<noteq> 0"
    and "translate t m root level kind va = (Inr p, t1)"
    and "translate t1 m root level kind va = (r, t2)"
  shows "r = Inr p \<and> t_walks t2 = t_walks t1 \<and> t_hits t2 = t_hits t1 + 1"
proof -
  let ?tr = "va AND sv48_kTranslatedMask"
  have t1: "coherent t1 m root"
    using translate_coherent [OF assms(1,2), of level kind va] assms(4) by simp
  have "r = translate_spec m root level kind va" "Inr p = translate_spec m root level kind va"
    using translate_spec_eq [OF t1, of level kind va] translate_spec_eq [OF assms(2), of level kind va]
      assms(4,5) by simp_all
  moreover have "lookup t1 ?tr \<noteq> None"
  proof (cases "lookup t ?tr")
    case None
    then obtain rec where w: "walk_table sv48_kLevels m kind va ?tr (root AND pte_kAddressMask) = Inr rec"
      and i: "t1 = insert_translation rec (t\<lparr>t_walks := t_walks t + 1\<rparr>)"
      using assms(3,4) by (auto simp: translate_def Let_def split: sum.splits)
    from walk_record [OF w] have "?tr AND NOT (ct_offset_mask rec) = ct_virtual_base rec"
      by (auto simp: Let_def leaf_record_def)
    then have "covers t1 (t_next t) ?tr"
      using assms(1) by (simp add: i covers_def insert_translation_def wf_translator_def)
    with assms(1) show ?thesis by (auto simp: lookup_None wf_translator_def)
  next
    case (Some rec)
    with assms(3,4) have "t1 = t\<lparr>t_hits := t_hits t + 1\<rparr>" by (auto simp: translate_def Let_def)
    with Some show ?thesis by (metis covers_counters(1) lookup_None option.distinct(1))
  qed
  then obtain rec where "lookup t1 ?tr = Some rec" by blast
  then have "t2 = t1\<lparr>t_hits := t_hits t1 + 1\<rparr>"
    using assms(3,5) by (auto simp: translate_def Let_def)
  ultimately show ?thesis by simp
qed

theorem second_translation_hits_witness:
  "let m = \<lparr>mem_bytes = [0x17, 0, 0, 0, 0, 0, 0, 0]\<rparr>;
       t1 = snd (translate new_translator m 1 User Store 0x1234)
   in fst (translate t1 m 1 User Store 0x1234) = Inr 0x1234 \<and>
      t_walks (snd (translate t1 m 1 User Store 0x1234)) = t_walks t1"
proof -
  let ?m = "\<lparr>mem_bytes = [0x17, 0, 0, 0, 0, 0, 0, 0 :: u8]\<rparr>"
  have c: "coherent new_translator ?m 1"
    by (simp add: coherent_def covers_def new_translator_def)
  have r: "(1 :: u64) AND paging_root_kModeMask \<noteq> 0" by simp
  have t: "translate new_translator ?m 1 User Store 0x1234 =
      (Inr 0x1234, snd (translate new_translator ?m 1 User Store 0x1234))" by code_simp
  from second_translation_hits [OF wf_new_translator c r t prod.collapse [symmetric]]
  show ?thesis by (simp add: Let_def)
qed

end
