(* ===== verification/Decode.thy ===== *)
theory Decode
  imports Opcodes Translate
begin

text \<open>
  Instruction fetch and decode, \<^verbatim>\<open>src/v2/decode_v2.h\<close> and \<^verbatim>\<open>src/v2/decode_v2.cpp\<close>: a fetch
  source that translates every byte it reads, the operand byte's two fields, and the decoder that
  walks opcode, operands and immediates in order and stops at the first fault.
\<close>

section \<open>The fetch source\<close>

record FetchSourceV2 =
  fs_memory :: MemoryV2
  fs_translator :: "TranslatorV2 option"
  fs_paging_root_value :: u64
  fs_level :: Privilege

definition fetch_byte :: "FetchSourceV2 \<Rightarrow> u64 \<Rightarrow> (TrapV2 + u8) \<times> FetchSourceV2" where
  "fetch_byte source address =
     (case (case fs_translator source of
              None \<Rightarrow> (Inr address, source)
            | Some translator \<Rightarrow>
                (case translate translator (fs_memory source) (fs_paging_root_value source)
                        (fs_level source) Fetch address of
                   (result, translator) \<Rightarrow> (result, source\<lparr>fs_translator := Some translator\<rparr>))) of
        (Inl trap, source) \<Rightarrow> (Inl trap, source)
      | (Inr physical, source) \<Rightarrow>
          if \<not> accessible (fs_memory source) physical
          then (Inl (no_trap\<lparr>trap_cause := cause_kPhysicalMemoryFault, trap_subcode := 0,
                             trap_aux := physical\<rparr>), source)
          else (Inr (read_byte (fs_memory source) physical), source))"

section \<open>Decoded instructions\<close>

record DecodedV2 =
  d_opcode :: u8
  d_pc :: u64
  d_next_pc :: u64
  d_length :: nat
  d_operand_count :: nat
  d_reg :: "nat list"
  d_form :: "nat list"
  d_immediate_count :: nat
  d_immediate :: "u64 list"
  d_immediate_bytes :: "nat list"

fun form_is_legal :: "Slot \<Rightarrow> u8 \<Rightarrow> bool" where
  "form_is_legal Plain form = (form = 0)"
| "form_is_legal ByteSliced form = (form \<le> 7)"
| "form_is_legal QuarterSliced form = (form \<le> 3)"
| "form_is_legal HalfSliced form = (form \<le> 1)"
| "form_is_legal Slot_None form = True"

definition operand_register :: "u8 \<Rightarrow> u8" where
  "operand_register operand_byte = operand_byte AND 0x1F"

definition operand_form :: "u8 \<Rightarrow> u8" where
  "operand_form operand_byte = drop_bit 5 operand_byte"

definition trapped :: "u8 \<Rightarrow> u8 \<Rightarrow> u64 \<Rightarrow> u64 \<Rightarrow> TrapV2" where
  "trapped cause_number subcode_number aux pc =
     \<lparr>trap_cause = cause_number, trap_subcode = subcode_number, trap_aux = aux, trap_pc = pc\<rparr>"

section \<open>The decoder\<close>

text \<open>
  The loops take the source's \<^verbatim>\<open>byte\<close> operation as an argument. Each runs over a count of what
  is left, with the loop index beside it.
\<close>

type_synonym 's byte_source = "'s \<Rightarrow> u64 \<Rightarrow> (TrapV2 + u8) \<times> 's"

fun decode_operands :: "'s byte_source \<Rightarrow> u64 \<Rightarrow> Slot list \<Rightarrow> nat \<Rightarrow> nat \<Rightarrow> u64 \<Rightarrow> DecodedV2 \<Rightarrow> 's
    \<Rightarrow> (TrapV2 + u64 \<times> DecodedV2) \<times> 's" where
  "decode_operands get_byte pc slots i 0 cursor decoded source = (Inr (cursor, decoded), source)"
| "decode_operands get_byte pc slots i (Suc left) cursor decoded source =
     (case get_byte source cursor of
        (Inl fetch_trap, source) \<Rightarrow>
          (Inl (trapped (trap_cause fetch_trap) (trap_subcode fetch_trap) (trap_aux fetch_trap) pc), source)
      | (Inr operand_byte, source) \<Rightarrow>
          let form = operand_form operand_byte
          in if \<not> form_is_legal (slots ! i) form
             then (Inl (trapped cause_kIllegalOperand subcode_kOperandForm (ucast operand_byte) pc), source)
             else decode_operands get_byte pc slots (Suc i) left (cursor + 1)
                    (decoded\<lparr>d_reg := (d_reg decoded)[i := unat (operand_register operand_byte)],
                             d_form := (d_form decoded)[i := unat form]\<rparr>) source)"

fun decode_immediate :: "'s byte_source \<Rightarrow> u64 \<Rightarrow> nat \<Rightarrow> nat \<Rightarrow> u64 \<Rightarrow> u64 \<Rightarrow> 's
    \<Rightarrow> (TrapV2 + u64 \<times> u64) \<times> 's" where
  "decode_immediate get_byte pc b 0 cursor value source = (Inr (cursor, value), source)"
| "decode_immediate get_byte pc b (Suc left) cursor value source =
     (case get_byte source cursor of
        (Inl fetch_trap, source) \<Rightarrow>
          (Inl (trapped (trap_cause fetch_trap) (trap_subcode fetch_trap) (trap_aux fetch_trap) pc), source)
      | (Inr immediate_byte, source) \<Rightarrow>
          decode_immediate get_byte pc (Suc b) left (cursor + 1)
            (value OR push_bit (b * 8) (ucast immediate_byte)) source)"

fun decode_immediates :: "'s byte_source \<Rightarrow> u64 \<Rightarrow> nat list \<Rightarrow> nat \<Rightarrow> nat \<Rightarrow> u64 \<Rightarrow> DecodedV2 \<Rightarrow> 's
    \<Rightarrow> (TrapV2 + DecodedV2) \<times> 's" where
  "decode_immediates get_byte pc widths i 0 cursor decoded source = (Inr decoded, source)"
| "decode_immediates get_byte pc widths i (Suc left) cursor decoded source =
     (let width = widths ! i
      in case decode_immediate get_byte pc 0 width cursor 0 source of
           (Inl trap, source) \<Rightarrow> (Inl trap, source)
         | (Inr (cursor, value), source) \<Rightarrow>
             decode_immediates get_byte pc widths (Suc i) left cursor
               (decoded\<lparr>d_immediate := (d_immediate decoded)[i := value],
                        d_immediate_bytes := (d_immediate_bytes decoded)[i := width]\<rparr>) source)"

definition decode_with :: "'s byte_source \<Rightarrow> 's \<Rightarrow> u64 \<Rightarrow> (TrapV2 + DecodedV2) \<times> 's" where
  "decode_with get_byte source pc =
     (case get_byte source pc of
        (Inl fetch_trap, source) \<Rightarrow>
          (Inl (trapped (trap_cause fetch_trap) (trap_subcode fetch_trap) (trap_aux fetch_trap) pc), source)
      | (Inr opcode_byte, source) \<Rightarrow>
          let info = opcode_info opcode_byte
          in if oi_kind info \<noteq> Assigned
             then (Inl (trapped cause_kIllegalInstruction 0 (ucast opcode_byte) pc), source)
             else
               let shape = shape_info (oi_shape info);
                   decoded = \<lparr>d_opcode = opcode_byte, d_pc = pc, d_next_pc = pc + of_nat (oi_length info),
                              d_length = oi_length info, d_operand_count = si_operands shape,
                              d_reg = replicate 4 0, d_form = replicate 4 0,
                              d_immediate_count = si_immediates shape,
                              d_immediate = replicate 2 0, d_immediate_bytes = replicate 2 0\<rparr>
               in case decode_operands get_byte pc (oi_slots info) 0 (si_operands shape) (pc + 1)
                         decoded source of
                    (Inl trap, source) \<Rightarrow> (Inl trap, source)
                  | (Inr (cursor, decoded), source) \<Rightarrow>
                      decode_immediates get_byte pc (si_immediate_bytes shape) 0 (si_immediates shape)
                        cursor decoded source)"

definition decode_v2 :: "FetchSourceV2 \<Rightarrow> u64 \<Rightarrow> (TrapV2 + DecodedV2) \<times> FetchSourceV2" where
  "decode_v2 source pc = decode_with fetch_byte source pc"

definition decode_v2_bare :: "MemoryV2 \<Rightarrow> u64 \<Rightarrow> TrapV2 + DecodedV2" where
  "decode_v2_bare memory pc =
     fst (decode_v2 \<lparr>fs_memory = memory, fs_translator = None, fs_paging_root_value = 0,
                     fs_level = Supervisor\<rparr> pc)"

section \<open>Decoding does not see the cache\<close>

text \<open>
  A byte source without state, for the specification, and the contract of a source whose answers
  do not depend on its state: the decoder built on it decodes what the stateless one decodes.
\<close>

definition pure_source :: "(u64 \<Rightarrow> TrapV2 + u8) \<Rightarrow> 's byte_source" where
  "pure_source spec u a = (spec a, u)"

locale cached_fetch = cached_lookup look spec inv
  for look :: "'t byte_source" and spec and inv
begin

lemma look_cases:
  assumes "inv s"
  obtains s' where "look s a = (spec a, s')" "inv s'"
  using look_spec [OF assms, of a] look_inv [OF assms, of a] by (metis prod.collapse)

lemma decode_operands_spec:
  "inv s \<Longrightarrow> fst (decode_operands look pc slots i n cursor d s) =
              fst (decode_operands (pure_source spec) pc slots i n cursor d ()) \<and>
            inv (snd (decode_operands look pc slots i n cursor d s))"
proof (induction n arbitrary: i cursor d s)
  case (Suc n)
  obtain s' where "look s cursor = (spec cursor, s')" "inv s'" using Suc.prems by (rule look_cases)
  with Suc.IH [of s'] show ?case by (auto simp: pure_source_def Let_def split: sum.split)
qed simp

lemma decode_immediate_spec:
  "inv s \<Longrightarrow> fst (decode_immediate look pc b n cursor v s) =
              fst (decode_immediate (pure_source spec) pc b n cursor v ()) \<and>
            inv (snd (decode_immediate look pc b n cursor v s))"
proof (induction n arbitrary: b cursor v s)
  case (Suc n)
  obtain s' where "look s cursor = (spec cursor, s')" "inv s'" using Suc.prems by (rule look_cases)
  with Suc.IH [of s'] show ?case by (auto simp: pure_source_def split: sum.split)
qed simp

lemma decode_immediates_spec:
  "inv s \<Longrightarrow> fst (decode_immediates look pc widths i n cursor d s) =
              fst (decode_immediates (pure_source spec) pc widths i n cursor d ()) \<and>
            inv (snd (decode_immediates look pc widths i n cursor d s))"
proof (induction n arbitrary: i cursor d s)
  case (Suc n)
  obtain r s' where l: "decode_immediate look pc 0 (widths ! i) cursor 0 s = (r, s')"
    by (cases "decode_immediate look pc 0 (widths ! i) cursor 0 s")
  with decode_immediate_spec [OF Suc.prems, of pc 0 "widths ! i" cursor 0]
  have "decode_immediate (pure_source spec) pc 0 (widths ! i) cursor 0 () = (r, ())" "inv s'"
    by (auto simp: prod_eq_iff)
  with l Suc.IH [of s'] show ?case by (auto simp: Let_def split: sum.split)
qed simp

lemma decode_with_spec:
  assumes "inv s"
  shows "fst (decode_with look s pc) = fst (decode_with (pure_source spec) () pc) \<and>
         inv (snd (decode_with look s pc))"
proof -
  obtain s' where l: "look s pc = (spec pc, s')" and s': "inv s'" using assms by (rule look_cases)
  show ?thesis
  proof (cases "spec pc")
    case (Inl t)
    with l s' show ?thesis by (simp add: decode_with_def pure_source_def)
  next
    case (Inr b)
    let ?i = "opcode_info b"
    let ?s = "shape_info (oi_shape ?i)"
    let ?d = "\<lparr>d_opcode = b, d_pc = pc, d_next_pc = pc + of_nat (oi_length ?i), d_length = oi_length ?i,
      d_operand_count = si_operands ?s, d_reg = replicate 4 0, d_form = replicate 4 0,
      d_immediate_count = si_immediates ?s, d_immediate = replicate 2 0, d_immediate_bytes = replicate 2 0\<rparr>"
    obtain r s'' where o1: "decode_operands look pc (oi_slots ?i) 0 (si_operands ?s) (pc + 1) ?d s' = (r, s'')"
      by (cases "decode_operands look pc (oi_slots ?i) 0 (si_operands ?s) (pc + 1) ?d s'")
    with decode_operands_spec [OF s', of pc "oi_slots ?i" 0 "si_operands ?s" "pc + 1" ?d]
    have "decode_operands (pure_source spec) pc (oi_slots ?i) 0 (si_operands ?s) (pc + 1) ?d () = (r, ())"
      and s'': "inv s''" by (auto simp: prod_eq_iff)
    moreover have "pure_source spec () pc = (Inr b, ())" by (simp add: pure_source_def Inr)
    ultimately show ?thesis
      using l s' o1 Inr decode_immediates_spec [OF s'']
      by (simp add: decode_with_def Let_def split: sum.split)
  qed
qed

end

definition fetch_spec :: "MemoryV2 \<Rightarrow> u64 \<Rightarrow> Privilege \<Rightarrow> u64 \<Rightarrow> TrapV2 + u8" where
  "fetch_spec m root level a =
     (case translate_spec m root level Fetch a of
        Inl trap \<Rightarrow> Inl trap
      | Inr p \<Rightarrow> if accessible m p then Inr (read_byte m p)
                 else Inl (no_trap\<lparr>trap_cause := cause_kPhysicalMemoryFault, trap_aux := p\<rparr>))"

definition fetch_inv :: "MemoryV2 \<Rightarrow> u64 \<Rightarrow> Privilege \<Rightarrow> FetchSourceV2 \<Rightarrow> bool" where
  "fetch_inv m root level source \<longleftrightarrow>
     fs_memory source = m \<and> fs_paging_root_value source = root \<and> fs_level source = level \<and>
     (case fs_translator source of
        None \<Rightarrow> root AND paging_root_kModeMask = paging_root_kModeBare
      | Some t \<Rightarrow> wf_translator t \<and>
                  (root AND paging_root_kModeMask = paging_root_kModeBare \<or> coherent t m root))"

text \<open>Translation through a cache that agrees with the tables, or with translation off, is
  uncached translation.\<close>

lemma translate_agrees:
  assumes "root AND paging_root_kModeMask = paging_root_kModeBare \<or> coherent t m root"
  shows "fst (translate t m root level kind va) = translate_spec m root level kind va"
    and "wf_translator t \<Longrightarrow> root AND paging_root_kModeMask = paging_root_kModeBare \<or>
           coherent (snd (translate t m root level kind va)) m root"
  using assms translate_spec_eq [of t m root level kind va] translate_coherent [of t m root level kind va]
  by (auto simp: translate_def translate_spec_def)

interpretation fetching: cached_fetch fetch_byte "fetch_spec m root level" "fetch_inv m root level"
  for m root level
proof
  fix t a
  assume i: "fetch_inv m root level t"
  show "fst (fetch_byte t a) = fetch_spec m root level a"
  proof (cases "fs_translator t")
    case None
    with i show ?thesis by (simp add: fetch_byte_def fetch_spec_def fetch_inv_def translate_spec_def)
  next
    case (Some tr)
    with i have "fst (translate tr m root level Fetch a) = translate_spec m root level Fetch a"
      by (intro translate_agrees) (simp add: fetch_inv_def)
    with i Some show ?thesis
      by (auto simp: fetch_byte_def fetch_spec_def fetch_inv_def split: prod.split sum.split)
  qed
  show "fetch_inv m root level (snd (fetch_byte t a))"
  proof (cases "fs_translator t")
    case None
    with i show ?thesis by (simp add: fetch_byte_def fetch_inv_def)
  next
    case (Some tr)
    with i have "root AND paging_root_kModeMask = paging_root_kModeBare \<or>
        coherent (snd (translate tr m root level Fetch a)) m root"
      "wf_translator (snd (translate tr m root level Fetch a))"
      using translate_agrees(2) [of root tr m level Fetch a] by (auto simp: fetch_inv_def intro: wf_translate)
    with i Some show ?thesis
      by (auto simp: fetch_byte_def fetch_inv_def split: prod.split sum.split)
  qed
qed

definition decode_spec :: "MemoryV2 \<Rightarrow> u64 \<Rightarrow> Privilege \<Rightarrow> u64 \<Rightarrow> TrapV2 + DecodedV2" where
  "decode_spec m root level pc = fst (decode_with (pure_source (fetch_spec m root level)) () pc)"

section \<open>What a decoded instruction satisfies\<close>

definition header :: "DecodedV2 \<Rightarrow> u8 \<times> u64 \<times> u64 \<times> nat \<times> nat \<times> nat" where
  "header d = (d_opcode d, d_pc d, d_next_pc d, d_length d, d_operand_count d, d_immediate_count d)"

definition wf_fields :: "Slot list \<Rightarrow> DecodedV2 \<Rightarrow> bool" where
  "wf_fields slots d \<longleftrightarrow>
     length (d_reg d) = 4 \<and> length (d_form d) = 4 \<and> length (d_immediate d) = 2 \<and>
     (\<forall>i < 4. d_reg d ! i < 32) \<and> (\<forall>i < 4. form_is_legal (slots ! i) (of_nat (d_form d ! i)))"

definition wf_decoded :: "DecodedV2 \<Rightarrow> bool" where
  "wf_decoded d \<longleftrightarrow>
     oi_kind (opcode_info (d_opcode d)) = Assigned \<and>
     wf_fields (oi_slots (opcode_info (d_opcode d))) d \<and>
     d_length d = oi_length (opcode_info (d_opcode d)) \<and>
     d_next_pc d = d_pc d + of_nat (d_length d)"

lemma operand_register_lt: "unat (operand_register b) < 32"
proof -
  have "operand_register b = take_bit 5 b"
    by (simp add: operand_register_def take_bit_eq_mask mask_eq_exp_minus_1)
  then show ?thesis using take_bit_nat_less_exp [of 5 "unat b"] by (simp add: unsigned_take_bit_eq)
qed

lemma wf_fields_set_operand:
  "wf_fields slots d \<Longrightarrow> form_is_legal (slots ! i) (operand_form b) \<Longrightarrow>
   wf_fields slots (d\<lparr>d_reg := (d_reg d)[i := unat (operand_register b)],
                      d_form := (d_form d)[i := unat (operand_form b)]\<rparr>)"
  by (cases "i < 4") (auto simp: wf_fields_def nth_list_update_if operand_register_lt)

lemma decode_operands_inv:
  "decode_operands g pc slots i n cursor d s = (r, s') \<Longrightarrow> wf_fields slots d \<Longrightarrow>
   (case r of Inl t \<Rightarrow> trap_pc t = pc
            | Inr (c, d') \<Rightarrow> wf_fields slots d' \<and> header d' = header d)"
proof (induction n arbitrary: i cursor d s)
  case (Suc n)
  obtain b s1 where b: "g s cursor = (b, s1)" by (cases "g s cursor")
  show ?case
  proof (cases b)
    case (Inl t)
    with Suc.prems b show ?thesis by (auto simp: trapped_def)
  next
    case (Inr ob)
    let ?d = "d\<lparr>d_reg := (d_reg d)[i := unat (operand_register ob)],
                d_form := (d_form d)[i := unat (operand_form ob)]\<rparr>"
    have h: "header ?d = header d" by (simp add: header_def)
    show ?thesis
    proof (cases "form_is_legal (slots ! i) (operand_form ob)")
      case True
      with Suc.prems(1) b Inr have
        "decode_operands g pc slots (Suc i) n (cursor + 1) ?d s1 = (r, s')" by (simp add: Let_def)
      from Suc.IH [OF this wf_fields_set_operand [OF Suc.prems(2) True]] show ?thesis unfolding h .
    next
      case False
      with Suc.prems b Inr show ?thesis by (auto simp: Let_def trapped_def)
    qed
  qed
qed auto

lemma decode_immediate_trap_pc:
  "decode_immediate g pc b n cursor v s = (Inl t, s') \<Longrightarrow> trap_pc t = pc"
proof (induction n arbitrary: b cursor v s)
  case (Suc n)
  then show ?case by (auto simp: trapped_def split: prod.splits sum.splits)
qed simp

lemma decode_immediates_inv:
  "decode_immediates g pc widths i n cursor d s = (r, s') \<Longrightarrow> wf_fields slots d \<Longrightarrow>
   (case r of Inl t \<Rightarrow> trap_pc t = pc
            | Inr d' \<Rightarrow> wf_fields slots d' \<and> header d' = header d)"
proof (induction n arbitrary: i cursor d s)
  case (Suc n)
  obtain v s1 where v: "decode_immediate g pc 0 (widths ! i) cursor 0 s = (v, s1)"
    by (cases "decode_immediate g pc 0 (widths ! i) cursor 0 s")
  show ?case
  proof (cases v)
    case (Inl t)
    with Suc.prems v decode_immediate_trap_pc show ?thesis by (auto simp: Let_def)
  next
    case (Inr cv)
    let ?d = "d\<lparr>d_immediate := (d_immediate d)[i := snd cv],
                d_immediate_bytes := (d_immediate_bytes d)[i := widths ! i]\<rparr>"
    have h: "header ?d = header d" and w: "wf_fields slots ?d"
      using Suc.prems(2) by (simp_all add: header_def wf_fields_def)
    from Suc.prems(1) v Inr have
      "decode_immediates g pc widths (Suc i) n (fst cv) ?d s1 = (r, s')"
      by (simp add: Let_def split: prod.splits)
    from Suc.IH [OF this w] show ?thesis unfolding h .
  qed
qed auto

lemma form_zero_legal: "form_is_legal c 0"
  by (cases c) simp_all

lemma decode_with_inv:
  assumes "decode_with g s pc = (r, s')"
  shows "case r of Inl t \<Rightarrow> trap_pc t = pc | Inr d \<Rightarrow> wf_decoded d \<and> d_pc d = pc"
proof -
  obtain b s1 where b: "g s pc = (b, s1)" by (cases "g s pc")
  show ?thesis
  proof (cases b)
    case (Inl t)
    with assms b show ?thesis by (auto simp: decode_with_def trapped_def)
  next
    case (Inr ob)
    let ?i = "opcode_info ob"
    let ?s = "shape_info (oi_shape ?i)"
    let ?d = "\<lparr>d_opcode = ob, d_pc = pc, d_next_pc = pc + of_nat (oi_length ?i), d_length = oi_length ?i,
      d_operand_count = si_operands ?s, d_reg = replicate 4 0, d_form = replicate 4 0,
      d_immediate_count = si_immediates ?s, d_immediate = replicate 2 0, d_immediate_bytes = replicate 2 0\<rparr>"
    have w: "wf_fields (oi_slots ?i) ?d" by (simp add: wf_fields_def form_zero_legal)
    obtain q s2 where q: "decode_operands g pc (oi_slots ?i) 0 (si_operands ?s) (pc + 1) ?d s1 = (q, s2)"
      by (cases "decode_operands g pc (oi_slots ?i) 0 (si_operands ?s) (pc + 1) ?d s1")
    note o = decode_operands_inv [OF q w]
    show ?thesis
    proof (cases "oi_kind ?i = Assigned")
      case False
      with assms b Inr show ?thesis by (auto simp: decode_with_def trapped_def Let_def)
    next
      case True
      then have dw: "decode_with g s pc =
          (case q of Inl trap \<Rightarrow> (Inl trap, s2)
           | Inr (cursor, decoded) \<Rightarrow>
               decode_immediates g pc (si_immediate_bytes ?s) 0 (si_immediates ?s) cursor decoded s2)"
        using b Inr q by (simp add: decode_with_def Let_def)
      show ?thesis
      proof (cases q)
        case (Inl t)
        with assms o dw show ?thesis by auto
      next
        case (Inr cd)
        obtain c d where cd: "cd = (c, d)" by (cases cd)
        with Inr assms dw have
          "decode_immediates g pc (si_immediate_bytes ?s) 0 (si_immediates ?s) c d s2 = (r, s')" by simp
        from decode_immediates_inv [OF this, of "oi_slots ?i"] o Inr cd
        have "case r of Inl t \<Rightarrow> trap_pc t = pc
            | Inr d' \<Rightarrow> wf_fields (oi_slots ?i) d' \<and> header d' = header ?d" by (auto split: sum.splits)
        with True show ?thesis by (auto simp: wf_decoded_def header_def split: sum.splits)
      qed
    qed
  qed
qed

section \<open>Where the fields come from\<close>

lemma fold_upt_Suc: "fold f [0..<Suc n] x = fold (\<lambda>k. f (Suc k)) [0..<n] (f 0 x)"
  by (simp add: upt_conv_Cons fold_map comp_def del: upt_Suc flip: map_Suc_upt)

lemma decode_operands_read:
  assumes "decode_operands (pure_source spec) pc slots i n cursor d x = (Inr (c, d'), u)"
    and "i + n \<le> 4" and "length (d_reg d) = 4" and "length (d_form d) = 4"
  shows "c = cursor + of_nat n \<and> d_immediate d' = d_immediate d \<and> d_opcode d' = d_opcode d \<and>
    (\<forall>j < 4. d_reg d' ! j = (if i \<le> j \<and> j < i + n
       then unat (operand_register (projr (spec (cursor + of_nat (j - i))))) else d_reg d ! j)) \<and>
    (\<forall>j < 4. d_form d' ! j = (if i \<le> j \<and> j < i + n
       then unat (operand_form (projr (spec (cursor + of_nat (j - i))))) else d_form d ! j))"
  using assms
proof (induction n arbitrary: i cursor d x)
  case (Suc n)
  then obtain b where b: "spec cursor = Inr b"
    by (auto simp: pure_source_def split: sum.splits)
  let ?d = "d\<lparr>d_reg := (d_reg d)[i := unat (operand_register b)],
              d_form := (d_form d)[i := unat (operand_form b)]\<rparr>"
  have "pure_source spec x cursor = (Inr b, x)" by (simp add: pure_source_def b)
  with Suc.prems(1) have
    "decode_operands (pure_source spec) pc slots (Suc i) n (cursor + 1) ?d x = (Inr (c, d'), u)"
    by (auto simp: Let_def split: if_splits)
  note ih = Suc.IH [OF this]
  have e: "cursor + 1 + of_nat (j - Suc i) = cursor + of_nat (j - i)" if "Suc i \<le> j" for j
  proof -
    from that have "j - i = Suc (j - Suc i)" by simp
    then show ?thesis by simp
  qed
  show ?case
    using ih Suc.prems(2-4) b e by (auto simp: nth_list_update_if less_Suc_eq_le not_le Suc_le_eq)
qed simp

lemma decode_immediate_read:
  "decode_immediate (pure_source spec) pc b n cursor v x = (Inr (c, w), u) \<Longrightarrow>
   c = cursor + of_nat n \<and>
   w = fold (\<lambda>k v. v OR push_bit ((b + k) * 8) (ucast (projr (spec (cursor + of_nat k))))) [0..<n] v"
proof (induction n arbitrary: b cursor v x)
  case (Suc n)
  then obtain y where y: "spec cursor = Inr y"
    by (auto simp: pure_source_def split: sum.splits)
  have "pure_source spec x cursor = (Inr y, x)" by (simp add: pure_source_def y)
  with Suc.prems have "decode_immediate (pure_source spec) pc (Suc b) n (cursor + 1)
      (v OR push_bit (b * 8) (ucast y)) x = (Inr (c, w), u)"
    by simp
  from Suc.IH [OF this] y show ?case
    by (simp add: fold_upt_Suc algebra_simps del: upt_Suc)
qed simp

lemma decode_immediates_read:
  assumes "decode_immediates (pure_source spec) pc widths i n cursor d x = (Inr d', u)"
    and "i + n \<le> 2" and "length (d_immediate d) = 2"
  shows "d_reg d' = d_reg d \<and> d_form d' = d_form d \<and> d_opcode d' = d_opcode d \<and>
    (\<forall>j < 2. d_immediate d' ! j = (if i \<le> j \<and> j < i + n
       then le_value (\<lambda>k. projr (spec (cursor + of_nat (sum_list (map (nth widths) [i..<j])) + of_nat k)))
              (widths ! j)
       else d_immediate d ! j))"
  using assms
proof (induction n arbitrary: i cursor d x)
  case (Suc n)
  then obtain c w x' where r: "decode_immediate (pure_source spec) pc 0 (widths ! i) cursor 0 x = (Inr (c, w), x')"
    by (auto simp: Let_def split: sum.splits prod.splits)
  let ?d = "d\<lparr>d_immediate := (d_immediate d)[i := w],
              d_immediate_bytes := (d_immediate_bytes d)[i := widths ! i]\<rparr>"
  from decode_immediate_read [OF r] have c: "c = cursor + of_nat (widths ! i)"
    and w: "w = le_value (\<lambda>k. projr (spec (cursor + of_nat k))) (widths ! i)"
    by (simp_all add: le_value_def)
  from Suc.prems(1) r have
    "decode_immediates (pure_source spec) pc widths (Suc i) n c ?d x' = (Inr d', u)" by (simp add: Let_def)
  note ih = Suc.IH [OF this]
  have e: "sum_list (map (nth widths) [i..<j]) = widths ! i + sum_list (map (nth widths) [Suc i..<j])"
    if "i < j" for j
    using that by (simp add: upt_conv_Cons)
  show ?case
    using ih Suc.prems(2,3) w unfolding c
    by (auto simp: nth_list_update_if not_le Suc_le_eq less_Suc_eq_le e add.assoc)
qed auto

lemma decode_spec_fields:
  assumes "decode_spec m root level pc = Inr d"
  defines "B \<equiv> \<lambda>a. projr (fetch_spec m root level a)"
  shows "let sh = shape_info (oi_shape (opcode_info (d_opcode d))) in
     d_opcode d = B pc \<and>
     (\<forall>j < si_operands sh. d_reg d ! j = unat (operand_register (B (pc + 1 + of_nat j))) \<and>
                          d_form d ! j = unat (operand_form (B (pc + 1 + of_nat j)))) \<and>
     (\<forall>j < si_immediates sh. d_immediate d ! j =
        le_value (\<lambda>k. B (pc + 1 + of_nat (si_operands sh) +
                       of_nat (sum_list (map (nth (si_immediate_bytes sh)) [0..<j])) + of_nat k))
          (si_immediate_bytes sh ! j))"
proof -
  let ?g = "pure_source (fetch_spec m root level)"
  obtain u where du: "decode_with ?g () pc = (Inr d, u)"
    using assms(1) unfolding decode_spec_def by (metis prod.collapse)
  then obtain ob where ob: "fetch_spec m root level pc = Inr ob"
    by (auto simp: decode_with_def pure_source_def split: sum.splits)
  let ?i = "opcode_info ob"
  let ?s = "shape_info (oi_shape ?i)"
  let ?d = "\<lparr>d_opcode = ob, d_pc = pc, d_next_pc = pc + of_nat (oi_length ?i), d_length = oi_length ?i,
    d_operand_count = si_operands ?s, d_reg = replicate 4 0, d_form = replicate 4 0,
    d_immediate_count = si_immediates ?s, d_immediate = replicate 2 0, d_immediate_bytes = replicate 2 0\<rparr>"
  have "decode_with ?g () pc =
      (if oi_kind ?i \<noteq> Assigned then (Inl (trapped cause_kIllegalInstruction 0 (ucast ob) pc), ())
       else case decode_operands ?g pc (oi_slots ?i) 0 (si_operands ?s) (pc + 1) ?d () of
          (Inl trap, source) \<Rightarrow> (Inl trap, source)
        | (Inr (cursor, decoded), source) \<Rightarrow>
            decode_immediates ?g pc (si_immediate_bytes ?s) 0 (si_immediates ?s) cursor decoded source)"
    by (simp add: decode_with_def pure_source_def ob Let_def)
  then obtain c d1 u1 where
    o: "decode_operands ?g pc (oi_slots ?i) 0 (si_operands ?s) (pc + 1) ?d () = (Inr (c, d1), u1)" and
    im: "decode_immediates ?g pc (si_immediate_bytes ?s) 0 (si_immediates ?s) c d1 u1 = (Inr d, u)"
    using du by (auto split: if_splits prod.splits sum.splits)
  note ro = decode_operands_read [OF o] and ri = decode_immediates_read [OF im]
  have "si_operands ?s \<le> 4" "si_immediates ?s \<le> 2" by (rule shape_operands_le_4 shape_immediates_le_2)+
  with ro ri have "d_opcode d = ob" by simp
  with ro ri \<open>si_operands ?s \<le> 4\<close> \<open>si_immediates ?s \<le> 2\<close> ob show ?thesis
    by (simp add: Let_def B_def)
qed

section \<open>Properties\<close>

text \<open>C24: Whatever the fetch source, decoding either traps with the instruction's own address in
  the trap, or yields an instruction that is well formed: an assigned opcode, register numbers below
  32, every form legal for its slot class, and a next program counter its table length further on.\<close>

theorem decode_well_formed:
  "case fst (decode_v2 source pc) of
     Inl trap \<Rightarrow> trap_pc trap = pc
   | Inr d \<Rightarrow> wf_decoded d \<and> d_pc d = pc"
  using decode_with_inv [of fetch_byte source pc, OF prod.collapse [symmetric]]
  by (simp add: decode_v2_def)

text \<open>C17: Decoding through a translation cache that agrees with the tables gives exactly the
  instruction or the trap that decoding by uncached walks gives, and leaves the cache agreeing.\<close>

theorem decode_cache_transparent:
  assumes "fetch_inv m root level source"
  shows "fst (decode_v2 source pc) = decode_spec m root level pc \<and>
         fetch_inv m root level (snd (decode_v2 source pc))"
  using fetching.decode_with_spec [OF assms] by (simp add: decode_v2_def decode_spec_def)

theorem decode_cache_transparent_witness:
  "let m = \<lparr>mem_bytes = [0x1F, 0, 0, 0, 0, 0, 0, 0]\<rparr>;
       source = \<lparr>fs_memory = m, fs_translator = Some new_translator, fs_paging_root_value = 1,
                 fs_level = User\<rparr>
   in fst (decode_v2 source 0) = decode_spec m 1 User 0"
proof -
  let ?m = "\<lparr>mem_bytes = [0x1F, 0, 0, 0, 0, 0, 0, 0 :: u8]\<rparr>"
  have "fetch_inv ?m 1 User \<lparr>fs_memory = ?m, fs_translator = Some new_translator,
      fs_paging_root_value = 1, fs_level = User\<rparr>"
    by (simp add: fetch_inv_def coherent_def covers_def new_translator_def wf_translator_def)
  from decode_cache_transparent [OF this] show ?thesis by (simp add: Let_def)
qed

text \<open>C25: A decoded instruction's opcode, registers, forms and immediates are the bytes at the
  program counter in encoding order: the opcode, one byte per operand with the register in its low
  five bits and the form above them, then each immediate little-endian in its shape's width.\<close>

theorem decode_reads_fields:
  assumes "fetch_inv m root level source" and "fst (decode_v2 source pc) = Inr d"
  shows "let B = (\<lambda>a. projr (fetch_spec m root level a));
             sh = shape_info (oi_shape (opcode_info (d_opcode d))) in
     d_opcode d = B pc \<and>
     (\<forall>j < si_operands sh. d_reg d ! j = unat (operand_register (B (pc + 1 + of_nat j))) \<and>
                          d_form d ! j = unat (operand_form (B (pc + 1 + of_nat j)))) \<and>
     (\<forall>j < si_immediates sh. d_immediate d ! j =
        le_value (\<lambda>k. B (pc + 1 + of_nat (si_operands sh) +
                       of_nat (sum_list (map (nth (si_immediate_bytes sh)) [0..<j])) + of_nat k))
          (si_immediate_bytes sh ! j))"
proof -
  have "decode_spec m root level pc = Inr d"
    using fetching.decode_with_spec [OF assms(1), of pc] assms(2)
    by (simp add: decode_v2_def decode_spec_def)
  from decode_spec_fields [OF this] show ?thesis by (simp add: Let_def)
qed

theorem decode_reads_fields_witness:
  "let m = \<lparr>mem_bytes = [op_kMoveSq, 7, 0x34, 0x12]\<rparr>;
       source = \<lparr>fs_memory = m, fs_translator = None, fs_paging_root_value = 0, fs_level = Supervisor\<rparr>
   in case fst (decode_v2 source 0) of
        Inl _ \<Rightarrow> False
      | Inr d \<Rightarrow> d_opcode d = projr (fetch_spec m 0 Supervisor 0) \<and> d_reg d ! 0 = 7 \<and>
                 d_immediate d ! 0 = 0x1234"
proof -
  let ?m = "\<lparr>mem_bytes = [op_kMoveSq, 7, 0x34, 0x12 :: u8]\<rparr>"
  let ?s = "\<lparr>fs_memory = ?m, fs_translator = None, fs_paging_root_value = 0, fs_level = Supervisor\<rparr>"
  have i: "fetch_inv ?m 0 Supervisor ?s" by (simp add: fetch_inv_def)
  have "case fst (decode_v2 ?s 0) of Inl _ \<Rightarrow> False
      | Inr d \<Rightarrow> d_reg d ! 0 = 7 \<and> d_immediate d ! 0 = 0x1234" by code_simp
  then obtain d where d: "fst (decode_v2 ?s 0) = Inr d" "d_reg d ! 0 = 7" "d_immediate d ! 0 = 0x1234"
    by (auto split: sum.splits)
  from decode_reads_fields [OF i d(1)] have "d_opcode d = projr (fetch_spec ?m 0 Supervisor 0)"
    unfolding Let_def by blast
  with d show ?thesis by (simp add: Let_def)
qed

end
