(* ===== verification/Devices.thy ===== *)
theory Devices
  imports Maize_Prelude
begin

text \<open>
  The device surface, \<^verbatim>\<open>src/v2/device_v2.h\<close>: the skeleton every device class has, with its
  virtual functions as a record of hooks; the console; the timer on the machine's nanosecond
  clock; and the surface that dispatches a port number to the class that answers for it.
\<close>

section \<open>Ports, classes and status bits\<close>

abbreviation (input) kPortsPerBlock :: nat where
  "kPortsPerBlock \<equiv> 16"

definition port_class_code :: "u16 \<Rightarrow> nat" where
  "port_class_code port = unat port div kPortsPerBlock"

definition port_offset :: "u16 \<Rightarrow> u16" where
  "port_offset port = of_nat (unat port mod kPortsPerBlock)"

abbreviation (input) device_class_kMachineBlock :: nat where
  "device_class_kMachineBlock \<equiv> 0"

abbreviation (input) device_class_kConsole :: nat where
  "device_class_kConsole \<equiv> 1"

abbreviation (input) device_class_kKeyboard :: nat where
  "device_class_kKeyboard \<equiv> 2"

abbreviation (input) device_class_kTimer :: nat where
  "device_class_kTimer \<equiv> 3"

abbreviation (input) device_class_kBlockStorage :: nat where
  "device_class_kBlockStorage \<equiv> 4"

abbreviation (input) device_class_kFramebuffer :: nat where
  "device_class_kFramebuffer \<equiv> 5"

abbreviation (input) device_class_kNetwork :: nat where
  "device_class_kNetwork \<equiv> 6"

abbreviation (input) device_class_kEntropy :: nat where
  "device_class_kEntropy \<equiv> 7"

abbreviation (input) device_class_kHighestClassCode :: nat where
  "device_class_kHighestClassCode \<equiv> device_class_kEntropy"

abbreviation (input) skeleton_offset_kIdentification :: u16 where
  "skeleton_offset_kIdentification \<equiv> 0"

abbreviation (input) skeleton_offset_kStatus :: u16 where
  "skeleton_offset_kStatus \<equiv> 1"

abbreviation (input) skeleton_offset_kInterruptControl :: u16 where
  "skeleton_offset_kInterruptControl \<equiv> 2"

abbreviation (input) skeleton_offset_kFirstClassSpecific :: u16 where
  "skeleton_offset_kFirstClassSpecific \<equiv> 3"

abbreviation (input) console_status_bit_kInputAvailable :: nat where
  "console_status_bit_kInputAvailable \<equiv> 0"

abbreviation (input) console_status_bit_kOutputReady :: nat where
  "console_status_bit_kOutputReady \<equiv> 3"

abbreviation (input) console_status_bit_kEndOfInput :: nat where
  "console_status_bit_kEndOfInput \<equiv> 4"

abbreviation (input) console_status_bit_kOverrun :: nat where
  "console_status_bit_kOverrun \<equiv> 5"

abbreviation (input) skeleton_status_bit_kPrimaryCondition :: nat where
  "skeleton_status_bit_kPrimaryCondition \<equiv> 0"

abbreviation (input) skeleton_status_bit_kBusy :: nat where
  "skeleton_status_bit_kBusy \<equiv> 1"

abbreviation (input) skeleton_status_bit_kInvalidRequest :: nat where
  "skeleton_status_bit_kInvalidRequest \<equiv> 2"

abbreviation (input) timer_status_bit_kExpiryPending :: nat where
  "timer_status_bit_kExpiryPending \<equiv> skeleton_status_bit_kPrimaryCondition"

abbreviation (input) timer_status_bit_kInvalidRequest :: nat where
  "timer_status_bit_kInvalidRequest \<equiv> skeleton_status_bit_kInvalidRequest"

abbreviation (input) timer_offset_kPeriod :: u16 where
  "timer_offset_kPeriod \<equiv> 3"

abbreviation (input) timer_offset_kMode :: u16 where
  "timer_offset_kMode \<equiv> 4"

abbreviation (input) timer_offset_kMonotonicCount :: u16 where
  "timer_offset_kMonotonicCount \<equiv> 5"

abbreviation (input) timer_offset_kModeCountingEnabled :: u64 where
  "timer_offset_kModeCountingEnabled \<equiv> 0x1"

abbreviation (input) timer_offset_kModePeriodic :: u64 where
  "timer_offset_kModePeriodic \<equiv> 0x2"

abbreviation (input) timer_offset_kModeDefinedMask :: u64 where
  "timer_offset_kModeDefinedMask \<equiv> 0x3"

definition status_mask :: "nat \<Rightarrow> u64" where
  "status_mask b = push_bit b 1"

abbreviation (input) kClassContractVersionInitial :: u64 where
  "kClassContractVersionInitial \<equiv> 0x0001"

abbreviation (input) kMachineMagic :: u64 where
  "kMachineMagic \<equiv> 0x4D32"

abbreviation (input) kBaseSpecificationVersion :: u64 where
  "kBaseSpecificationVersion \<equiv> 0x0200"

section \<open>The skeleton\<close>

record DeviceClassV2 =
  dev_acknowledgeable_status :: u64
  dev_class_code :: nat
  dev_contract_version :: u64
  dev_interrupt_enabled :: bool

text \<open>The five virtual functions of a device class.\<close>

record 'd DeviceHooks =
  held_status_bits :: "'d \<Rightarrow> u64"
  interrupt_condition :: "'d \<Rightarrow> bool"
  on_acknowledge :: "'d \<Rightarrow> u64 \<Rightarrow> 'd"
  read_class_port :: "'d \<Rightarrow> u16 \<Rightarrow> u64 \<times> 'd"
  write_class_port :: "'d \<Rightarrow> u16 \<Rightarrow> u64 \<Rightarrow> 'd"

definition base_hooks :: "'a DeviceClassV2_scheme DeviceHooks" where
  "base_hooks =
     \<lparr>held_status_bits = \<lambda>d. 0, interrupt_condition = \<lambda>d. False, on_acknowledge = \<lambda>d written. d,
      read_class_port = \<lambda>d offset. (0, d), write_class_port = \<lambda>d offset v. d\<rparr>"

definition identification :: "'a DeviceClassV2_scheme \<Rightarrow> u64" where
  "identification d = of_nat (dev_class_code d) OR push_bit 16 (dev_contract_version d)"

definition device_status :: "'a DeviceClassV2_scheme DeviceHooks \<Rightarrow> 'a DeviceClassV2_scheme \<Rightarrow> u64" where
  "device_status hooks d = dev_acknowledgeable_status d OR held_status_bits hooks d"

definition interrupt_asserted :: "'a DeviceClassV2_scheme DeviceHooks \<Rightarrow> 'a DeviceClassV2_scheme \<Rightarrow> bool" where
  "interrupt_asserted hooks d \<longleftrightarrow> dev_interrupt_enabled d \<and> interrupt_condition hooks d"

definition port_read :: "'a DeviceClassV2_scheme DeviceHooks \<Rightarrow> 'a DeviceClassV2_scheme \<Rightarrow> u16
    \<Rightarrow> u64 \<times> 'a DeviceClassV2_scheme" where
  "port_read hooks d offset =
     (if offset = skeleton_offset_kIdentification then (identification d, d)
      else if offset = skeleton_offset_kStatus then (device_status hooks d, d)
      else if offset = skeleton_offset_kInterruptControl then (if dev_interrupt_enabled d then 1 else 0, d)
      else read_class_port hooks d offset)"

definition port_write :: "'a DeviceClassV2_scheme DeviceHooks \<Rightarrow> 'a DeviceClassV2_scheme \<Rightarrow> u16 \<Rightarrow> u64
    \<Rightarrow> 'a DeviceClassV2_scheme" where
  "port_write hooks d offset v =
     (if offset = skeleton_offset_kIdentification then d
      else if offset = skeleton_offset_kStatus then
        on_acknowledge hooks
          (d\<lparr>dev_acknowledgeable_status := dev_acknowledgeable_status d AND NOT v\<rparr>) v
      else if offset = skeleton_offset_kInterruptControl then d\<lparr>dev_interrupt_enabled := v AND 1 \<noteq> 0\<rparr>
      else write_class_port hooks d offset v)"

definition host_raise_acknowledgeable_bit :: "'a DeviceClassV2_scheme \<Rightarrow> nat \<Rightarrow> 'a DeviceClassV2_scheme" where
  "host_raise_acknowledgeable_bit d b =
     d\<lparr>dev_acknowledgeable_status := dev_acknowledgeable_status d OR status_mask b\<rparr>"

section \<open>The console\<close>

record ConsoleDeviceV2 = DeviceClassV2 +
  con_output :: "u8 list"
  con_input :: "u8 list"
  con_input_read :: nat
  con_output_ready :: bool
  con_input_exhausted :: bool

abbreviation (input) kDataOffset :: u16 where
  "kDataOffset \<equiv> 3"

definition new_console :: ConsoleDeviceV2 where
  "new_console =
     \<lparr>dev_acknowledgeable_status = 0, dev_class_code = device_class_kConsole,
      dev_contract_version = kClassContractVersionInitial, dev_interrupt_enabled = False,
      con_output = [], con_input = [], con_input_read = 0, con_output_ready = True,
      con_input_exhausted = False\<rparr>"

definition host_set_output_ready :: "ConsoleDeviceV2 \<Rightarrow> bool \<Rightarrow> ConsoleDeviceV2" where
  "host_set_output_ready c ready = c\<lparr>con_output_ready := ready\<rparr>"

definition host_set_input_exhausted :: "ConsoleDeviceV2 \<Rightarrow> bool \<Rightarrow> ConsoleDeviceV2" where
  "host_set_input_exhausted c exhausted = c\<lparr>con_input_exhausted := exhausted\<rparr>"

definition host_push_input :: "ConsoleDeviceV2 \<Rightarrow> u8 \<Rightarrow> ConsoleDeviceV2" where
  "host_push_input c b = c\<lparr>con_input := con_input c @ [b]\<rparr>"

definition host_pending_input :: "ConsoleDeviceV2 \<Rightarrow> nat" where
  "host_pending_input c = length (con_input c) - con_input_read c"

definition input_available :: "ConsoleDeviceV2 \<Rightarrow> bool" where
  "input_available c \<longleftrightarrow> con_input_read c < length (con_input c)"

definition console_held_status_bits :: "ConsoleDeviceV2 \<Rightarrow> u64" where
  "console_held_status_bits c =
     (let held = 0;
          held = (if input_available c then held OR status_mask console_status_bit_kInputAvailable else held);
          held = (if con_output_ready c then held OR status_mask console_status_bit_kOutputReady else held);
          held = (if con_input_exhausted c then held OR status_mask console_status_bit_kEndOfInput else held)
      in held)"

definition console_read_class_port :: "ConsoleDeviceV2 \<Rightarrow> u16 \<Rightarrow> u64 \<times> ConsoleDeviceV2" where
  "console_read_class_port c offset =
     (if offset = kDataOffset then
        if \<not> input_available c then (0, c)
        else (ucast (con_input c ! con_input_read c), c\<lparr>con_input_read := con_input_read c + 1\<rparr>)
      else (0, c))"

definition console_write_class_port :: "ConsoleDeviceV2 \<Rightarrow> u16 \<Rightarrow> u64 \<Rightarrow> ConsoleDeviceV2" where
  "console_write_class_port c offset v =
     (if offset \<noteq> kDataOffset then c
      else if \<not> con_output_ready c then
        c\<lparr>dev_acknowledgeable_status :=
            dev_acknowledgeable_status c OR status_mask console_status_bit_kOverrun\<rparr>
      else c\<lparr>con_output := con_output c @ [ucast (v AND 0xFF)]\<rparr>)"

definition console_hooks :: "ConsoleDeviceV2 DeviceHooks" where
  "console_hooks =
     base_hooks\<lparr>held_status_bits := console_held_status_bits, interrupt_condition := input_available,
                read_class_port := console_read_class_port, write_class_port := console_write_class_port\<rparr>"

section \<open>The timer\<close>

abbreviation (input) kNanosecondsPerInstruction :: u64 where
  "kNanosecondsPerInstruction \<equiv> 1000"

record TimerDeviceV2 = DeviceClassV2 +
  tim_period :: u64
  tim_mode :: u64
  tim_monotonic_ns :: u64
  tim_next_expiry_ns :: u64
  tim_armed :: bool

definition new_timer :: TimerDeviceV2 where
  "new_timer =
     \<lparr>dev_acknowledgeable_status = 0, dev_class_code = device_class_kTimer,
      dev_contract_version = kClassContractVersionInitial, dev_interrupt_enabled = False,
      tim_period = 0, tim_mode = 0, tim_monotonic_ns = 0, tim_next_expiry_ns = 0, tim_armed = False\<rparr>"

definition counting_enabled :: "TimerDeviceV2 \<Rightarrow> bool" where
  "counting_enabled t \<longleftrightarrow> tim_mode t AND timer_offset_kModeCountingEnabled \<noteq> 0"

definition periodic :: "TimerDeviceV2 \<Rightarrow> bool" where
  "periodic t \<longleftrightarrow> tim_mode t AND timer_offset_kModePeriodic \<noteq> 0"

definition refuse_counting_with_a_zero_period :: "TimerDeviceV2 \<Rightarrow> TimerDeviceV2" where
  "refuse_counting_with_a_zero_period t =
     t\<lparr>dev_acknowledgeable_status :=
         dev_acknowledgeable_status t OR status_mask timer_status_bit_kInvalidRequest,
       tim_mode := tim_mode t AND NOT timer_offset_kModeCountingEnabled,
       tim_armed := False\<rparr>"

definition arm :: "TimerDeviceV2 \<Rightarrow> TimerDeviceV2" where
  "arm t = t\<lparr>tim_next_expiry_ns := tim_monotonic_ns t + tim_period t, tim_armed := True\<rparr>"

definition timer_advance_time :: "u64 \<Rightarrow> TimerDeviceV2 \<Rightarrow> TimerDeviceV2" where
  "timer_advance_time nanoseconds t =
     (let t = t\<lparr>tim_monotonic_ns := tim_monotonic_ns t + nanoseconds\<rparr>
      in if tim_armed t \<and> tim_monotonic_ns t \<ge> tim_next_expiry_ns t
         then t\<lparr>dev_acknowledgeable_status :=
                  dev_acknowledgeable_status t OR status_mask timer_status_bit_kExpiryPending,
                tim_armed := False\<rparr>
         else t)"

definition nanoseconds_until_expiry :: "TimerDeviceV2 \<Rightarrow> u64 option" where
  "nanoseconds_until_expiry t =
     (if \<not> tim_armed t then None
      else Some (if tim_next_expiry_ns t > tim_monotonic_ns t
                 then tim_next_expiry_ns t - tim_monotonic_ns t else 0))"

definition timer_interrupt_condition :: "TimerDeviceV2 \<Rightarrow> bool" where
  "timer_interrupt_condition t \<longleftrightarrow>
     dev_acknowledgeable_status t AND status_mask timer_status_bit_kExpiryPending \<noteq> 0"

definition timer_on_acknowledge :: "TimerDeviceV2 \<Rightarrow> u64 \<Rightarrow> TimerDeviceV2" where
  "timer_on_acknowledge t written =
     (if written AND status_mask timer_status_bit_kExpiryPending = 0 then t
      else if counting_enabled t \<and> periodic t then arm t
      else t)"

definition timer_read_class_port :: "TimerDeviceV2 \<Rightarrow> u16 \<Rightarrow> u64 \<times> TimerDeviceV2" where
  "timer_read_class_port t offset =
     (if offset = timer_offset_kPeriod then (tim_period t, t)
      else if offset = timer_offset_kMode then (tim_mode t, t)
      else if offset = timer_offset_kMonotonicCount then (tim_monotonic_ns t, t)
      else (0, t))"

definition timer_write_class_port :: "TimerDeviceV2 \<Rightarrow> u16 \<Rightarrow> u64 \<Rightarrow> TimerDeviceV2" where
  "timer_write_class_port t offset v =
     (if offset = timer_offset_kPeriod then
        let t = t\<lparr>tim_period := v\<rparr>
        in if \<not> counting_enabled t then t\<lparr>tim_armed := False\<rparr>
           else if v = 0 then refuse_counting_with_a_zero_period t
           else t
      else if offset = timer_offset_kMode then
        let requested = v AND timer_offset_kModeDefinedMask
        in if requested AND timer_offset_kModeCountingEnabled \<noteq> 0 \<and> tim_period t = 0
           then refuse_counting_with_a_zero_period (t\<lparr>tim_mode := requested\<rparr>)
           else let t = t\<lparr>tim_mode := requested\<rparr>
                in if counting_enabled t then arm t else t\<lparr>tim_armed := False\<rparr>
      else t)"

definition timer_hooks :: "TimerDeviceV2 DeviceHooks" where
  "timer_hooks =
     base_hooks\<lparr>interrupt_condition := timer_interrupt_condition, on_acknowledge := timer_on_acknowledge,
                read_class_port := timer_read_class_port, write_class_port := timer_write_class_port\<rparr>"

section \<open>The surface\<close>

record DeviceSurfaceV2 =
  ds_console :: ConsoleDeviceV2
  ds_timer :: TimerDeviceV2

definition new_devices :: DeviceSurfaceV2 where
  "new_devices = \<lparr>ds_console = new_console, ds_timer = new_timer\<rparr>"

text \<open>\<^verbatim>\<open>device_for\<close> returns a pointer to one of the two members or null.\<close>

datatype DevicePointer = ConsolePointer | TimerPointer

definition device_for :: "nat \<Rightarrow> DevicePointer option" where
  "device_for class_code =
     (if class_code = device_class_kConsole then Some ConsolePointer
      else if class_code = device_class_kTimer then Some TimerPointer
      else None)"

definition presence_bitmap :: u64 where
  "presence_bitmap =
     fold (\<lambda>code bitmap. if device_for code \<noteq> None then bitmap OR push_bit code 1 else bitmap)
       [1..<Suc device_class_kHighestClassCode] 0"

definition machine_identification :: u64 where
  "machine_identification = kMachineMagic OR push_bit 16 kBaseSpecificationVersion"

definition machine_block_read :: "u16 \<Rightarrow> u64" where
  "machine_block_read offset =
     (if offset = 0 then machine_identification else if offset = 1 then presence_bitmap else 0)"

definition port_in :: "DeviceSurfaceV2 \<Rightarrow> u16 \<Rightarrow> u64 \<times> DeviceSurfaceV2" where
  "port_in ds port =
     (let class_code = port_class_code port; offset = port_offset port
      in if class_code = device_class_kMachineBlock then (machine_block_read offset, ds)
         else case device_for class_code of
                None \<Rightarrow> (0, ds)
              | Some ConsolePointer \<Rightarrow>
                  (case port_read console_hooks (ds_console ds) offset of
                     (v, c) \<Rightarrow> (v, ds\<lparr>ds_console := c\<rparr>))
              | Some TimerPointer \<Rightarrow>
                  (case port_read timer_hooks (ds_timer ds) offset of
                     (v, t) \<Rightarrow> (v, ds\<lparr>ds_timer := t\<rparr>)))"

definition port_out :: "DeviceSurfaceV2 \<Rightarrow> u16 \<Rightarrow> u64 \<Rightarrow> DeviceSurfaceV2" where
  "port_out ds port v =
     (let class_code = port_class_code port; offset = port_offset port
      in if class_code = device_class_kMachineBlock then ds
         else case device_for class_code of
                None \<Rightarrow> ds
              | Some ConsolePointer \<Rightarrow> ds\<lparr>ds_console := port_write console_hooks (ds_console ds) offset v\<rparr>
              | Some TimerPointer \<Rightarrow> ds\<lparr>ds_timer := port_write timer_hooks (ds_timer ds) offset v\<rparr>)"

definition device_interrupt_asserted :: "DeviceSurfaceV2 \<Rightarrow> DevicePointer \<Rightarrow> bool" where
  "device_interrupt_asserted ds p =
     (case p of
        ConsolePointer \<Rightarrow> interrupt_asserted console_hooks (ds_console ds)
      | TimerPointer \<Rightarrow> interrupt_asserted timer_hooks (ds_timer ds))"

definition asserted_interrupt_lines :: "DeviceSurfaceV2 \<Rightarrow> u64" where
  "asserted_interrupt_lines ds =
     fold (\<lambda>code lines. case device_for code of
                           None \<Rightarrow> lines
                         | Some p \<Rightarrow> if device_interrupt_asserted ds p then lines OR push_bit code 1 else lines)
       [1..<Suc device_class_kHighestClassCode] 0"

definition advance_time :: "u64 \<Rightarrow> DeviceSurfaceV2 \<Rightarrow> DeviceSurfaceV2" where
  "advance_time nanoseconds ds = ds\<lparr>ds_timer := timer_advance_time nanoseconds (ds_timer ds)\<rparr>"

definition nanoseconds_until_next_device_event :: "DeviceSurfaceV2 \<Rightarrow> u64 option" where
  "nanoseconds_until_next_device_event ds = nanoseconds_until_expiry (ds_timer ds)"

section \<open>The contract of a device class\<close>

text \<open>
  What the skeleton relies on in a class's hooks: they leave the identification and the interrupt
  enable alone, acknowledging clears nothing but acknowledgeable bits, and they keep the class's
  own invariant.
\<close>

definition same_skeleton :: "'a DeviceClassV2_scheme \<Rightarrow> 'a DeviceClassV2_scheme \<Rightarrow> bool" where
  "same_skeleton d e \<longleftrightarrow>
     dev_class_code d = dev_class_code e \<and> dev_contract_version d = dev_contract_version e \<and>
     dev_interrupt_enabled d = dev_interrupt_enabled e"

locale device_class =
  fixes hooks :: "'a DeviceClassV2_scheme DeviceHooks"
    and dinv :: "'a DeviceClassV2_scheme \<Rightarrow> bool"
  assumes ack_skeleton: "same_skeleton (on_acknowledge hooks d v) d"
    and ack_status: "dev_acknowledgeable_status (on_acknowledge hooks d v) = dev_acknowledgeable_status d"
    and ack_held: "held_status_bits hooks (on_acknowledge hooks d v) = held_status_bits hooks d"
    and held_frame: "held_status_bits hooks (d\<lparr>dev_acknowledgeable_status := s\<rparr>) = held_status_bits hooks d"
    and read_skeleton: "same_skeleton (snd (read_class_port hooks d p)) d"
    and write_skeleton: "same_skeleton (write_class_port hooks d p v) d"
    and inv_frame: "dinv (d\<lparr>dev_acknowledgeable_status := s\<rparr>) = dinv d"
      "dinv (d\<lparr>dev_interrupt_enabled := b\<rparr>) = dinv d"
    and inv_ack: "dinv d \<Longrightarrow> dinv (on_acknowledge hooks d v)"
    and inv_read: "dinv d \<Longrightarrow> dinv (snd (read_class_port hooks d p))"
    and inv_write: "dinv d \<Longrightarrow> dinv (write_class_port hooks d p v)"
begin

lemma port_read_inv: "dinv d \<Longrightarrow> dinv (snd (port_read hooks d p))"
  by (simp add: port_read_def inv_read)

lemma port_write_inv: "dinv d \<Longrightarrow> dinv (port_write hooks d p v)"
  by (simp add: port_write_def inv_write inv_ack inv_frame)

lemma identification_read: "identification (snd (port_read hooks d p)) = identification d"
  using read_skeleton [of d p] by (auto simp: port_read_def identification_def same_skeleton_def)

lemma identification_write: "identification (port_write hooks d p v) = identification d"
  using write_skeleton [of d p v] ack_skeleton [of _ v]
  by (auto simp: port_write_def identification_def same_skeleton_def)

lemma acknowledge_status:
  "device_status hooks (port_write hooks d skeleton_offset_kStatus v) =
     (dev_acknowledgeable_status d AND NOT v) OR held_status_bits hooks d"
  by (simp add: port_write_def device_status_def ack_status ack_held held_frame)

lemma interrupt_control:
  "dev_interrupt_enabled (port_write hooks d p v) =
     (if p = skeleton_offset_kInterruptControl then v AND 1 \<noteq> 0 else dev_interrupt_enabled d)"
  using write_skeleton [of d p v] ack_skeleton [of _ v]
  by (auto simp: port_write_def same_skeleton_def)

end

section \<open>The console\<close>

definition wf_console :: "ConsoleDeviceV2 \<Rightarrow> bool" where
  "wf_console c \<longleftrightarrow> con_input_read c \<le> length (con_input c)"

lemma wf_new_console [wf_intros, simp]: "wf_console new_console"
  by (simp add: wf_console_def new_console_def)

interpretation console: device_class console_hooks wf_console
  by unfold_locales
    (auto simp: console_hooks_def base_hooks_def same_skeleton_def wf_console_def
      console_held_status_bits_def input_available_def console_read_class_port_def
      console_write_class_port_def)

text \<open>
  The input side is a first-in first-out queue: its abstraction is the bytes pushed and not yet
  read.
\<close>

locale byte_queue =
  fixes contents :: "'q \<Rightarrow> u8 list"
    and push :: "'q \<Rightarrow> u8 \<Rightarrow> 'q"
    and pop :: "'q \<Rightarrow> u64 \<times> 'q"
    and qinv :: "'q \<Rightarrow> bool"
  assumes push_contents: "qinv q \<Longrightarrow> contents (push q b) = contents q @ [b]"
    and pop_empty: "qinv q \<Longrightarrow> contents q = [] \<Longrightarrow> pop q = (0, q)"
    and pop_value: "qinv q \<Longrightarrow> contents q = b # bs \<Longrightarrow> fst (pop q) = ucast b"
    and pop_contents: "qinv q \<Longrightarrow> contents q = b # bs \<Longrightarrow> contents (snd (pop q)) = bs"
    and push_inv: "qinv q \<Longrightarrow> qinv (push q b)"
    and pop_inv: "qinv q \<Longrightarrow> qinv (snd (pop q))"
begin

lemma pop_conserves:
  assumes "qinv q"
  shows "(if contents q = [] then [] else [fst (pop q)]) @ map ucast (contents (snd (pop q))) =
         map ucast (contents q)"
proof (cases "contents q")
  case Nil
  with pop_empty [OF assms] show ?thesis by simp
next
  case (Cons b bs)
  with pop_value [OF assms Cons] pop_contents [OF assms Cons] show ?thesis by simp
qed

end

definition pending_input :: "ConsoleDeviceV2 \<Rightarrow> u8 list" where
  "pending_input c = drop (con_input_read c) (con_input c)"

interpretation console_input: byte_queue pending_input host_push_input
  "\<lambda>c. port_read console_hooks c kDataOffset" wf_console
proof
  fix q :: ConsoleDeviceV2 and b bs
  assume w: "wf_console q"
  show "pending_input (host_push_input q b) = pending_input q @ [b]"
    "wf_console (host_push_input q b)"
    using w by (simp_all add: pending_input_def host_push_input_def wf_console_def)
  show "port_read console_hooks q kDataOffset = (0, q)" if "pending_input q = []"
    using that by (simp add: port_read_def console_hooks_def console_read_class_port_def
        input_available_def pending_input_def)
  show "wf_console (snd (port_read console_hooks q kDataOffset))"
    by (rule console.port_read_inv [OF w])
  assume p: "pending_input q = b # bs"
  then have l: "con_input_read q < length (con_input q)"
    by (simp add: pending_input_def) (metis drop_all list.distinct(1) not_le)
  with p have "con_input q ! con_input_read q = b" "drop (Suc (con_input_read q)) (con_input q) = bs"
    by (simp_all add: pending_input_def Cons_nth_drop_Suc [symmetric])
  with l show "fst (port_read console_hooks q kDataOffset) = ucast b"
    "pending_input (snd (port_read console_hooks q kDataOffset)) = bs"
    by (simp_all add: port_read_def console_hooks_def console_read_class_port_def
        input_available_def pending_input_def)
qed

text \<open>
  Everything that can happen to a console, in any order: the host pushes a byte or sets a status
  flag, the guest reads or writes a port. \<open>received\<close> collects what the guest's data-port reads
  return while input is available.
\<close>

datatype ConsoleEvent = PushInput u8 | ReadPort u16 | WritePort u16 u64 | OutputReady bool
  | InputExhausted bool | RaiseBit nat

fun console_event :: "ConsoleEvent \<Rightarrow> ConsoleDeviceV2 \<Rightarrow> u64 \<times> ConsoleDeviceV2" where
  "console_event (PushInput b) c = (0, host_push_input c b)"
| "console_event (ReadPort offset) c = port_read console_hooks c offset"
| "console_event (WritePort offset v) c = (0, port_write console_hooks c offset v)"
| "console_event (OutputReady ready) c = (0, host_set_output_ready c ready)"
| "console_event (InputExhausted exhausted) c = (0, host_set_input_exhausted c exhausted)"
| "console_event (RaiseBit b) c = (0, host_raise_acknowledgeable_bit c b)"

fun received :: "ConsoleEvent list \<Rightarrow> ConsoleDeviceV2 \<Rightarrow> u64 list \<times> ConsoleDeviceV2" where
  "received [] c = ([], c)"
| "received (e # es) c =
     (case console_event e c of (v, c1) \<Rightarrow>
        case received es c1 of (vs, c2) \<Rightarrow>
          (if e = ReadPort kDataOffset \<and> input_available c then v # vs else vs, c2))"

fun pushed :: "ConsoleEvent list \<Rightarrow> u8 list" where
  "pushed [] = []"
| "pushed (PushInput b # es) = b # pushed es"
| "pushed (e # es) = pushed es"

lemma input_available_iff: "input_available c \<longleftrightarrow> pending_input c \<noteq> []"
  by (simp add: input_available_def pending_input_def not_le)

lemma port_read_pending:
  "offset \<noteq> kDataOffset \<Longrightarrow> pending_input (snd (port_read console_hooks c offset)) = pending_input c"
  by (simp add: port_read_def console_hooks_def console_read_class_port_def)

lemma port_write_pending: "pending_input (port_write console_hooks c offset v) = pending_input c"
  by (simp add: port_write_def console_hooks_def console_write_class_port_def base_hooks_def pending_input_def)

lemma wf_console_event: "wf_console c \<Longrightarrow> wf_console (snd (console_event e c))"
proof (cases e)
  case (ReadPort p)
  then show "wf_console c \<Longrightarrow> ?thesis" by (simp add: console.port_read_inv)
next
  case (WritePort p v)
  then show "wf_console c \<Longrightarrow> ?thesis" by (simp add: console.port_write_inv)
qed (auto simp: wf_console_def host_push_input_def host_set_output_ready_def host_set_input_exhausted_def
      host_raise_acknowledgeable_bit_def)

lemma console_event_conserves:
  assumes "wf_console c"
  shows "(if e = ReadPort kDataOffset \<and> input_available c then [fst (console_event e c)] else []) @
           map ucast (pending_input (snd (console_event e c))) =
         map ucast (pending_input c @ pushed [e])"
proof (cases e)
  case (PushInput b)
  with console_input.push_contents [OF assms] show ?thesis by simp
next
  case (ReadPort p)
  then show ?thesis
    using console_input.pop_conserves [OF assms] port_read_pending [of p c]
    by (cases "p = kDataOffset") (simp_all add: input_available_iff split: if_splits)
qed (simp_all add: port_write_pending, simp_all add: pending_input_def host_set_output_ready_def
      host_set_input_exhausted_def host_raise_acknowledgeable_bit_def)

lemma pushed_Cons: "pushed (e # es) = pushed [e] @ pushed es"
  by (cases e) simp_all

lemma received_conserves:
  "wf_console c \<Longrightarrow> received es c = (vs, c') \<Longrightarrow>
   vs @ map ucast (pending_input c') = map ucast (pending_input c @ pushed es)"
proof (induction es arbitrary: c vs)
  case (Cons e es)
  obtain v c1 where e: "console_event e c = (v, c1)" by (cases "console_event e c")
  obtain ws where r: "received es c1 = (ws, c')"
    using Cons.prems(2) e by (auto split: prod.splits)
  from wf_console_event [OF Cons.prems(1), of e] e have "wf_console c1" by simp
  from Cons.IH [OF this r] have "ws @ map ucast (pending_input c') = map ucast (pending_input c1 @ pushed es)" .
  with console_event_conserves [OF Cons.prems(1), of e] e r Cons.prems(2) show ?case
    by (subst pushed_Cons) (auto split: if_splits)
qed simp

section \<open>The timer\<close>

text \<open>
  The timer counts only with a period, is armed only while it counts, and its mode holds only
  defined bits.
\<close>

definition wf_timer :: "TimerDeviceV2 \<Rightarrow> bool" where
  "wf_timer t \<longleftrightarrow>
     tim_mode t AND NOT timer_offset_kModeDefinedMask = 0 \<and>
     (counting_enabled t \<longrightarrow> tim_period t \<noteq> 0) \<and> (tim_armed t \<longrightarrow> counting_enabled t)"

lemma wf_new_timer [wf_intros, simp]: "wf_timer new_timer"
  by code_simp

lemma wf_timer_advance [wf_intros, simp]: "wf_timer t \<Longrightarrow> wf_timer (timer_advance_time n t)"
  by (simp add: wf_timer_def timer_advance_time_def counting_enabled_def Let_def)

lemma wf_timer_write: "wf_timer t \<Longrightarrow> wf_timer (timer_write_class_port t p v)"
proof -
  assume w: "wf_timer t"
  have m: "(v AND 3) AND NOT 3 = 0" "(x AND NOT 1) AND 1 = 0"
    "x AND NOT 3 = 0 \<Longrightarrow> (x AND NOT 1) AND NOT 3 = 0" for v x :: u64
    by (simp_all add: and.assoc)
  show ?thesis
    using w m unfolding timer_write_class_port_def refuse_counting_with_a_zero_period_def
    by (auto simp: wf_timer_def counting_enabled_def arm_def Let_def)
qed

interpretation timer: device_class timer_hooks wf_timer
proof
  fix d :: TimerDeviceV2 and p v
  show "wf_timer d \<Longrightarrow> wf_timer (write_class_port timer_hooks d p v)"
    by (simp add: timer_hooks_def base_hooks_def wf_timer_write)
qed (auto simp: timer_hooks_def base_hooks_def same_skeleton_def timer_on_acknowledge_def arm_def
      timer_read_class_port_def timer_write_class_port_def refuse_counting_with_a_zero_period_def Let_def
      wf_timer_def counting_enabled_def)

text \<open>Time passing in several steps, as the interpreter advances it after each instruction.\<close>

lemma timer_advance_armed:
  assumes "tim_armed t" and "tim_monotonic_ns t < tim_next_expiry_ns t"
    and "unat (tim_monotonic_ns t) + sum_list (map unat ds) < 2 ^ 64"
  defines "t' \<equiv> fold timer_advance_time ds t"
  shows "unat (tim_monotonic_ns t') = unat (tim_monotonic_ns t) + sum_list (map unat ds) \<and>
         tim_next_expiry_ns t' = tim_next_expiry_ns t \<and>
         (if unat (tim_monotonic_ns t) + sum_list (map unat ds) < unat (tim_next_expiry_ns t)
          then tim_armed t' \<and> dev_acknowledgeable_status t' = dev_acknowledgeable_status t
          else \<not> tim_armed t' \<and> dev_acknowledgeable_status t' =
                 dev_acknowledgeable_status t OR status_mask timer_status_bit_kExpiryPending)"
  using assms(3) unfolding t'_def
proof (induction ds rule: rev_induct)
  case Nil
  with assms(1,2) show ?case by (simp add: word_less_nat_alt)
next
  case (snoc d ds)
  define u where "u = fold timer_advance_time ds t"
  have f: "fold timer_advance_time (ds @ [d]) t = timer_advance_time d u" by (simp add: u_def)
  from snoc have ih: "unat (tim_monotonic_ns u) = unat (tim_monotonic_ns t) + sum_list (map unat ds)"
    "tim_next_expiry_ns u = tim_next_expiry_ns t"
    "if unat (tim_monotonic_ns t) + sum_list (map unat ds) < unat (tim_next_expiry_ns t)
     then tim_armed u \<and> dev_acknowledgeable_status u = dev_acknowledgeable_status t
     else \<not> tim_armed u \<and> dev_acknowledgeable_status u =
            dev_acknowledgeable_status t OR status_mask timer_status_bit_kExpiryPending"
    by (auto simp: u_def)
  have m: "unat (tim_monotonic_ns u + d) = unat (tim_monotonic_ns t) + sum_list (map unat ds) + unat d"
    using snoc.prems ih(1) by (simp add: unat_word_ariths)
  show ?case
    unfolding f using ih m
    by (auto simp: timer_advance_time_def Let_def word_le_nat_alt not_less split: if_splits)
qed

section \<open>The surface\<close>

definition wf_devices :: "DeviceSurfaceV2 \<Rightarrow> bool" where
  "wf_devices ds \<longleftrightarrow> wf_console (ds_console ds) \<and> wf_timer (ds_timer ds)"

lemma wf_new_devices [wf_intros, simp]: "wf_devices new_devices"
  by (simp add: wf_devices_def new_devices_def)

lemma wf_devices_advance [wf_intros, simp]: "wf_devices ds \<Longrightarrow> wf_devices (advance_time n ds)"
  by (simp add: wf_devices_def advance_time_def)

lemma wf_port_in [wf_intros]: "wf_devices ds \<Longrightarrow> wf_devices (snd (port_in ds p))"
  by (simp add: wf_devices_def port_in_def Let_def console.port_read_inv timer.port_read_inv split_beta
      split: option.split DevicePointer.split)

lemma wf_port_out [wf_intros]: "wf_devices ds \<Longrightarrow> wf_devices (port_out ds p v)"
  by (simp add: wf_devices_def port_out_def Let_def console.port_write_inv timer.port_write_inv
      split: option.split DevicePointer.split)

lemma asserted_lines:
  "asserted_interrupt_lines ds =
     (if interrupt_asserted console_hooks (ds_console ds) then 2 else 0) OR
     (if interrupt_asserted timer_hooks (ds_timer ds) then 8 else 0)"
  by (simp add: asserted_interrupt_lines_def device_for_def device_interrupt_asserted_def
      upt_rec_numeral upt_conv_Cons)

section \<open>Properties\<close>

text \<open>C35: Console input is first in, first out, under every interleaving of host pushes, port reads
  and writes of the guest and host status changes, from any well-formed console: what the guest's
  data-port reads returned while input was available, followed by the bytes still waiting, is exactly
  the bytes that were waiting at the start followed by the bytes pushed, in order and each once. With
  nothing waiting, a read of the data port gives zero and changes nothing.\<close>

theorem console_input_fifo:
  assumes "wf_console c" and "received es c = (vs, c')"
  shows "vs @ map ucast (drop (con_input_read c') (con_input c')) =
           map ucast (drop (con_input_read c) (con_input c) @ pushed es) \<and>
         (\<not> input_available c' \<longrightarrow> port_read console_hooks c' kDataOffset = (0, c'))"
proof
  show "vs @ map ucast (drop (con_input_read c') (con_input c')) =
      map ucast (drop (con_input_read c) (con_input c) @ pushed es)"
    using received_conserves [OF assms] unfolding pending_input_def .
  show "\<not> input_available c' \<longrightarrow> port_read console_hooks c' kDataOffset = (0, c')"
    by (simp add: port_read_def console_hooks_def console_read_class_port_def)
qed

theorem console_input_fifo_witness:
  "let es = [PushInput 0x41, ReadPort 1, PushInput 0x42, ReadPort 3, WritePort 3 0x58, ReadPort 3,
             ReadPort 3, PushInput 0x43]
   in fst (received es new_console) = [0x41, 0x42] \<and>
      drop (con_input_read (snd (received es new_console))) (con_input (snd (received es new_console))) =
        [0x43]"
proof -
  let ?es = "[PushInput 0x41, ReadPort 1, PushInput 0x42, ReadPort 3, WritePort 3 0x58, ReadPort 3,
             ReadPort 3, PushInput 0x43]"
  have f: "fst (received ?es new_console) = [0x41, 0x42]" by code_simp
  have n: "drop (con_input_read new_console) (con_input new_console) @ pushed ?es = [0x41, 0x42, 0x43]"
    by code_simp
  have u: "unat (ucast x :: u64) = unat x" for x :: u8
    using u8_lt_256 [of x] by (simp add: unsigned_ucast_eq take_bit_nat_eq_self)
  have "inj (ucast :: u8 \<Rightarrow> u64)"
    by (rule injI) (metis u unsigned_word_eqI)
  note inj = map_injective [OF _ this]
  let ?c = "snd (received ?es new_console)"
  from console_input_fifo [OF wf_new_console prod.collapse [symmetric], of ?es]
  have "map ucast (drop (con_input_read ?c) (con_input ?c)) = (map ucast [0x43 :: u8] :: u64 list)"
    unfolding f n by simp
  from inj [OF this] f show ?thesis unfolding Let_def by blast
qed

text \<open>Acknowledging status bits of the console clears exactly the acknowledgeable bits named
  and no level-held one, and neither port reads nor port writes change what the device identifies
  itself as or, outside the interrupt-control port, whether it may interrupt.\<close>

theorem console_skeleton_contract:
  "device_status console_hooks (port_write console_hooks c skeleton_offset_kStatus v) =
     (dev_acknowledgeable_status c AND NOT v) OR console_held_status_bits c \<and>
   identification (port_write console_hooks c p v) = identification c \<and>
   identification (snd (port_read console_hooks c p)) = identification c \<and>
   dev_interrupt_enabled (port_write console_hooks c p v) =
     (if p = skeleton_offset_kInterruptControl then v AND 1 \<noteq> 0 else dev_interrupt_enabled c)"
  using console.acknowledge_status [of c v] console.identification_write [of c p v]
    console.identification_read [of c p] console.interrupt_control [of c p v]
  by (simp add: console_hooks_def)

text \<open>Every port write keeps the timer from counting with a zero period and from being armed
  while it is not counting, and keeps the undefined mode bits zero.\<close>

theorem timer_never_counts_zero_period:
  assumes "wf_timer t"
  shows "wf_timer (port_write timer_hooks t p v) \<and>
         (tim_armed (port_write timer_hooks t p v) \<longrightarrow> tim_period (port_write timer_hooks t p v) \<noteq> 0)"
  using timer.port_write_inv [OF assms, of p v] by (auto simp: wf_timer_def)

theorem timer_never_counts_zero_period_witness:
  "let t = port_write timer_hooks (port_write timer_hooks new_timer timer_offset_kPeriod 5000)
             timer_offset_kMode 3
   in tim_armed t \<and> tim_period t \<noteq> 0"
proof -
  let ?t = "port_write timer_hooks new_timer timer_offset_kPeriod 5000"
  have w: "wf_timer ?t" and a: "tim_armed (port_write timer_hooks ?t timer_offset_kMode 3)"
    by code_simp+
  from timer_never_counts_zero_period [OF w, of timer_offset_kMode 3] a show ?thesis by (simp add: Let_def)
qed

text \<open>C34: An armed timer expires exactly when the time that has passed reaches its expiry: before
  that it stays armed with its status unchanged, from then on it is disarmed with the expiry bit
  pending, however the time was divided into steps, as long as the clock does not wrap.\<close>

theorem timer_expires_on_time:
  assumes "tim_armed t" and "tim_monotonic_ns t < tim_next_expiry_ns t"
    and "unat (tim_monotonic_ns t) + sum_list (map unat ds) < 2 ^ 64"
  shows "if unat (tim_monotonic_ns t) + sum_list (map unat ds) < unat (tim_next_expiry_ns t)
         then tim_armed (fold timer_advance_time ds t) \<and>
              dev_acknowledgeable_status (fold timer_advance_time ds t) = dev_acknowledgeable_status t
         else \<not> tim_armed (fold timer_advance_time ds t) \<and>
              timer_interrupt_condition (fold timer_advance_time ds t)"
proof -
  have "(x OR 1) AND 1 \<noteq> 0" for x :: u64
  proof
    assume "(x OR 1) AND 1 = 0"
    then have "bit ((x OR 1) AND 1) 0 = bit 0 0" by simp
    then show False by (simp add: bit_simps)
  qed
  then show ?thesis
    using timer_advance_armed [OF assms] by (auto simp: timer_interrupt_condition_def status_mask_def)
qed

theorem timer_expires_on_time_witness:
  "let t = port_write timer_hooks (port_write timer_hooks new_timer timer_offset_kPeriod 2500)
             timer_offset_kMode 1
   in tim_armed (fold timer_advance_time [1000, 1000] t) \<and>
      timer_interrupt_condition (fold timer_advance_time [1000, 1000, 1000] t)"
proof -
  let ?t = "port_write timer_hooks (port_write timer_hooks new_timer timer_offset_kPeriod 2500)
             timer_offset_kMode 1"
  have a: "tim_armed ?t" and l: "tim_monotonic_ns ?t < tim_next_expiry_ns ?t"
    and m: "tim_monotonic_ns ?t = 0" and n: "tim_next_expiry_ns ?t = 2500"
    by code_simp+
  from timer_expires_on_time [OF a l, of "[1000, 1000]"] timer_expires_on_time [OF a l, of "[1000, 1000, 1000]"]
  show ?thesis by (simp add: m n Let_def)
qed

text \<open>The interrupt lines are those of the two populated classes, each raised exactly while
  its device has interrupts enabled and its condition holds, and a port of an unpopulated class
  reads as zero and changes nothing.\<close>

theorem surface_lines_and_holes:
  "asserted_interrupt_lines ds =
     (if dev_interrupt_enabled (ds_console ds) \<and> input_available (ds_console ds)
      then push_bit device_class_kConsole 1 else 0) OR
     (if dev_interrupt_enabled (ds_timer ds) \<and> timer_interrupt_condition (ds_timer ds)
      then push_bit device_class_kTimer 1 else 0) \<and>
   presence_bitmap = push_bit device_class_kConsole 1 OR push_bit device_class_kTimer 1 \<and>
   (if port_class_code p \<in> {device_class_kMachineBlock, device_class_kConsole, device_class_kTimer} then True
    else port_in ds p = (0, ds) \<and> port_out ds p v = ds)"
proof -
  have lines: "asserted_interrupt_lines ds =
     (if dev_interrupt_enabled (ds_console ds) \<and> input_available (ds_console ds)
      then push_bit device_class_kConsole 1 else 0) OR
     (if dev_interrupt_enabled (ds_timer ds) \<and> timer_interrupt_condition (ds_timer ds)
      then push_bit device_class_kTimer 1 else 0)"
    unfolding asserted_lines interrupt_asserted_def console_hooks_def timer_hooks_def by simp
  have present: "presence_bitmap = push_bit device_class_kConsole 1 OR push_bit device_class_kTimer 1"
    by code_simp
  have holes: "port_in ds p = (0, ds) \<and> port_out ds p v = ds"
    if "port_class_code p \<notin> {device_class_kMachineBlock, device_class_kConsole, device_class_kTimer}"
    using that by (simp add: port_in_def port_out_def device_for_def Let_def)
  show ?thesis unfolding lines present using holes by presburger
qed

end
