(* ===== verification/Machine.thy ===== *)
theory Machine
  imports Registers Decode Devices
begin

text \<open>
  The machine of \<^verbatim>\<open>src/v2/interpreter_v2.h\<close> and the parts of \<^verbatim>\<open>src/v2/interpreter_v2.cpp\<close> that
  every instruction shares: the access plan that translates a whole access before touching memory,
  trap delivery and return, and interrupt sampling, delivery and waiting. An operation that changes
  the machine takes it last and returns it beside its result.
\<close>

section \<open>The machine\<close>

record InterpreterV2 =
  m_memory :: MemoryV2
  m_registers :: RegistersV2
  m_devices :: DeviceSurfaceV2
  m_csr :: CsrFileV2
  m_translator :: TranslatorV2
  m_pc :: u64
  m_steps_taken :: u64
  m_halted :: bool

datatype StepStatus = Advanced | Trapped | Halted | Unimplemented | Suspended

datatype TrapDisposition = NoDisposition | Delivered | HaltedNoHandler | HaltedDoubleFault

record StepResult =
  sr_status :: StepStatus
  sr_trap :: TrapV2
  sr_opcode :: u8
  sr_pc :: u64
  sr_disposition :: TrapDisposition
  sr_handler :: u64

definition step_result :: "StepStatus \<Rightarrow> u8 \<Rightarrow> u64 \<Rightarrow> StepResult" where
  "step_result status opcode pc =
     \<lparr>sr_status = status, sr_trap = no_trap, sr_opcode = opcode, sr_pc = pc,
      sr_disposition = NoDisposition, sr_handler = 0\<rparr>"

definition new_interpreter :: "MemoryV2 \<Rightarrow> u64 \<Rightarrow> InterpreterV2" where
  "new_interpreter memory reset_pc =
     \<lparr>m_memory = memory, m_registers = initial_registers, m_devices = new_devices, m_csr = reset_csr,
      m_translator = new_translator, m_pc = reset_pc, m_steps_taken = 0, m_halted = False\<rparr>"

abbreviation level :: "InterpreterV2 \<Rightarrow> Privilege" where
  "level m \<equiv> privilege (m_csr m)"

definition host_set_privilege :: "Privilege \<Rightarrow> InterpreterV2 \<Rightarrow> InterpreterV2" where
  "host_set_privilege lvl m = m\<lparr>m_csr := csr_host_set_privilege lvl (m_csr m)\<rparr>"

definition host_resume_at :: "u64 \<Rightarrow> InterpreterV2 \<Rightarrow> InterpreterV2" where
  "host_resume_at address m = m\<lparr>m_halted := False, m_pc := address\<rparr>"

text \<open>A read and a write of one general register of the machine.\<close>

abbreviation get_register :: "nat \<Rightarrow> InterpreterV2 \<Rightarrow> u64" where
  "get_register n m \<equiv> read_reg (m_registers m) n"

definition set_register :: "nat \<Rightarrow> u64 \<Rightarrow> InterpreterV2 \<Rightarrow> InterpreterV2" where
  "set_register n v m = m\<lparr>m_registers := write_reg (m_registers m) n v\<rparr>"

section \<open>Planned accesses\<close>

text \<open>
  An access plan is the list of physical addresses of the access's bytes. Planning translates every
  byte in ascending order, stopping at the first that is refused, and only then asks whether each
  physical byte is populated.
\<close>

type_synonym AccessPlanV2 = "u64 list"

definition lowest_inaccessible :: "MemoryV2 \<Rightarrow> AccessPlanV2 \<Rightarrow> u64 option" where
  "lowest_inaccessible memory physical =
     fold (\<lambda>p lowest. if \<not> accessible memory p \<and> (case lowest of None \<Rightarrow> True | Some l \<Rightarrow> p < l)
                      then Some p else lowest)
       physical None"

definition plan_access :: "u64 \<Rightarrow> nat \<Rightarrow> AccessKind \<Rightarrow> Privilege \<Rightarrow> InterpreterV2
    \<Rightarrow> (TrapV2 + AccessPlanV2) \<times> InterpreterV2" where
  "plan_access address len kind lvl m =
     (let root = read_raw (m_csr m) csr_kPagingRoot
      in case thread_all (\<lambda>t. translate t (m_memory m) root lvl kind) (m_translator m)
                (map (\<lambda>i. address + of_nat i) [0..<len]) of
           (Inl trap, t) \<Rightarrow> (Inl trap, m\<lparr>m_translator := t\<rparr>)
         | (Inr physical, t) \<Rightarrow>
             (case lowest_inaccessible (m_memory m) physical of
                Some lowest \<Rightarrow>
                  (Inl (no_trap\<lparr>trap_cause := cause_kPhysicalMemoryFault, trap_subcode := 0,
                                trap_aux := lowest\<rparr>), m\<lparr>m_translator := t\<rparr>)
              | None \<Rightarrow> (Inr physical, m\<lparr>m_translator := t\<rparr>)))"

definition plan_byte :: "u64 \<Rightarrow> AccessKind \<Rightarrow> InterpreterV2 \<Rightarrow> (TrapV2 + u64) \<times> InterpreterV2" where
  "plan_byte address kind m =
     (case plan_access address 1 kind (level m) m of
        (Inl trap, m) \<Rightarrow> (Inl trap, m)
      | (Inr plan, m) \<Rightarrow> (Inr (plan ! 0), m))"

definition read_planned :: "AccessPlanV2 \<Rightarrow> nat \<Rightarrow> nat \<Rightarrow> InterpreterV2 \<Rightarrow> u64" where
  "read_planned plan offset width m =
     fold (\<lambda>i value. value OR push_bit (i * 8) (ucast (read_byte (m_memory m) (plan ! (offset + i)))))
       [0..<width] 0"

definition write_planned :: "AccessPlanV2 \<Rightarrow> nat \<Rightarrow> nat \<Rightarrow> u64 \<Rightarrow> InterpreterV2 \<Rightarrow> InterpreterV2" where
  "write_planned plan offset width value m =
     m\<lparr>m_memory :=
         fold (\<lambda>i memory. write_byte memory (plan ! (offset + i)) (ucast (drop_bit (i * 8) value)))
           [0..<width] (m_memory m)\<rparr>"

section \<open>Advancing\<close>

definition advance :: "DecodedV2 \<Rightarrow> InterpreterV2 \<Rightarrow> StepResult \<times> InterpreterV2" where
  "advance decoded m =
     (step_result Advanced (d_opcode decoded) (d_pc decoded), m\<lparr>m_pc := d_next_pc decoded\<rparr>)"

definition branch_to :: "DecodedV2 \<Rightarrow> u64 \<Rightarrow> InterpreterV2 \<Rightarrow> StepResult \<times> InterpreterV2" where
  "branch_to decoded target m =
     (step_result Advanced (d_opcode decoded) (d_pc decoded), m\<lparr>m_pc := target\<rparr>)"

section \<open>Traps\<close>

definition halt_without_delivering :: "TrapV2 \<Rightarrow> u8 \<Rightarrow> u64 \<Rightarrow> TrapDisposition \<Rightarrow> nat \<Rightarrow> InterpreterV2
    \<Rightarrow> StepResult \<times> InterpreterV2" where
  "halt_without_delivering trap opcode instruction_pc disposition halt_kind m =
     ((step_result Trapped opcode instruction_pc)\<lparr>sr_trap := trap, sr_disposition := disposition\<rparr>,
      m\<lparr>m_csr := machine_record_halt halt_kind (trap_cause trap) (trap_subcode trap) (m_csr m),
        m_halted := True\<rparr>)"

definition deliver :: "TrapV2 \<Rightarrow> u8 \<Rightarrow> u64 \<Rightarrow> InterpreterV2 \<Rightarrow> StepResult \<times> InterpreterV2" where
  "deliver trap opcode instruction_pc m =
     (let entry = entry_address (read_raw (m_csr m) csr_kTrapVectorBase) (trap_cause trap)
      in case plan_access entry (unat vector_table_kEntryBytes) Load Supervisor m of
           (Inl _, m) \<Rightarrow>
             halt_without_delivering trap opcode instruction_pc HaltedDoubleFault halt_cause_kKindDoubleFault m
         | (Inr vector_plan, m) \<Rightarrow>
             let handler = read_planned vector_plan 0 (unat vector_table_kEntryBytes) m
             in if handler = 0
                then halt_without_delivering trap opcode instruction_pc HaltedNoHandler halt_cause_kKindNoHandler m
                else
                  let frame = read_raw (m_csr m) csr_kTrapStack - trap_frame_kBytes
                  in case plan_access frame (unat trap_frame_kBytes) Store Supervisor m of
                       (Inl _, m) \<Rightarrow>
                         halt_without_delivering trap opcode instruction_pc HaltedDoubleFault
                           halt_cause_kKindDoubleFault m
                     | (Inr frame_plan, m) \<Rightarrow>
                         let m = write_planned frame_plan (unat trap_frame_kPcOffset) 8 (trap_pc trap) m;
                             m = write_planned frame_plan (unat trap_frame_kStatusOffset) 8
                                   (read_raw (m_csr m) csr_kStatus) m;
                             m = write_planned frame_plan (unat trap_frame_kCauseOffset) 8
                                   (encode_cause_word (trap_cause trap) (trap_subcode trap)) m;
                             m = write_planned frame_plan (unat trap_frame_kAuxOffset) 8 (trap_aux trap) m;
                             m = m\<lparr>m_csr := machine_set_trap_stack frame (m_csr m)\<rparr>;
                             m = m\<lparr>m_csr := machine_enter_supervisor (m_csr m)\<rparr>;
                             m = m\<lparr>m_pc := handler\<rparr>
                         in ((step_result Trapped opcode instruction_pc)
                               \<lparr>sr_trap := trap, sr_disposition := Delivered, sr_handler := handler\<rparr>, m))"

definition raise_trap :: "DecodedV2 \<Rightarrow> u8 \<Rightarrow> u8 \<Rightarrow> u64 \<Rightarrow> InterpreterV2 \<Rightarrow> StepResult \<times> InterpreterV2" where
  "raise_trap decoded cause_number subcode_number aux m =
     deliver \<lparr>trap_cause = cause_number, trap_subcode = subcode_number, trap_aux = aux,
              trap_pc = d_pc decoded\<rparr> (d_opcode decoded) (d_pc decoded) m"

definition raise_trap_class :: "DecodedV2 \<Rightarrow> u8 \<Rightarrow> u8 \<Rightarrow> u64 \<Rightarrow> InterpreterV2 \<Rightarrow> StepResult \<times> InterpreterV2" where
  "raise_trap_class decoded cause_number subcode_number aux m =
     deliver \<lparr>trap_cause = cause_number, trap_subcode = subcode_number, trap_aux = aux,
              trap_pc = d_next_pc decoded\<rparr> (d_opcode decoded) (d_pc decoded) m"

definition execute_trap_return :: "DecodedV2 \<Rightarrow> InterpreterV2 \<Rightarrow> StepResult \<times> InterpreterV2" where
  "execute_trap_return decoded m =
     (let frame = read_raw (m_csr m) csr_kTrapStack
      in case plan_access frame (unat trap_frame_kBytes) Load (level m) m of
           (Inl access_trap, m) \<Rightarrow>
             raise_trap decoded (trap_cause access_trap) (trap_subcode access_trap) (trap_aux access_trap) m
         | (Inr plan, m) \<Rightarrow>
             let pc_word = read_planned plan (unat trap_frame_kPcOffset) 8 m;
                 status_word_value = read_planned plan (unat trap_frame_kStatusOffset) 8 m
             in if \<not> status_value_is_acceptable status_word_value
                then raise_trap decoded cause_kIllegalOperand subcode_kInvalidCsrValue status_word_value m
                else
                  let m = m\<lparr>m_csr := machine_write_status status_word_value (m_csr m)\<rparr>;
                      m = m\<lparr>m_csr := machine_set_trap_stack (frame + trap_frame_kBytes) (m_csr m)\<rparr>
                  in branch_to decoded pc_word m)"

definition host_deliver_trap :: "TrapV2 \<Rightarrow> InterpreterV2 \<Rightarrow> StepResult \<times> InterpreterV2" where
  "host_deliver_trap trap m = deliver trap 0 (trap_pc trap) m"

section \<open>Interrupts\<close>

definition sample_lines :: "u64 \<Rightarrow> CsrFileV2 \<Rightarrow> CsrFileV2" where
  "sample_lines lines c =
     fold (\<lambda>line c.
             let cause_number = unat cause_kFirstExternalInterrupt + line
             in if lines AND push_bit line 1 \<noteq> 0 then machine_raise_pending cause_number c
                else machine_clear_pending cause_number c)
       [0..<Suc device_class_kHighestClassCode] c"

definition sample_device_interrupts :: "InterpreterV2 \<Rightarrow> InterpreterV2" where
  "sample_device_interrupts m =
     m\<lparr>m_csr := sample_lines (asserted_interrupt_lines (m_devices m)) (m_csr m)\<rparr>"

definition deliverable_interrupt :: "InterpreterV2 \<Rightarrow> nat" where
  "deliverable_interrupt m =
     (if \<not> interrupts_enabled (m_csr m) then kNoCause else lowest_pending_and_enabled (m_csr m))"

definition deliver_interrupt :: "nat \<Rightarrow> u64 \<Rightarrow> InterpreterV2 \<Rightarrow> StepResult \<times> InterpreterV2" where
  "deliver_interrupt cause_number resume_pc m =
     (let m = m\<lparr>m_csr := machine_clear_pending cause_number (m_csr m)\<rparr>
      in deliver \<lparr>trap_cause = of_nat cause_number, trap_subcode = 0, trap_aux = 0, trap_pc = resume_pc\<rparr>
           0 resume_pc m)"

text \<open>
  The wait loop advances the clock to the next device event until a cause is both pending and
  enabled or no device has anything scheduled. Advancing to the timer's expiry disarms it, so the
  loop ends.
\<close>

lemma advance_to_expiry_disarms:
  "nanoseconds_until_expiry t = Some d \<Longrightarrow> \<not> tim_armed (timer_advance_time d t)"
  by (auto simp: nanoseconds_until_expiry_def timer_advance_time_def Let_def split: if_splits)

function execute_wait_for_interrupt :: "DecodedV2 \<Rightarrow> InterpreterV2 \<Rightarrow> StepResult \<times> InterpreterV2" where
  "execute_wait_for_interrupt decoded m =
     (let m = sample_device_interrupts m
      in if lowest_pending_and_enabled (m_csr m) \<noteq> kNoCause then advance decoded m
         else case nanoseconds_until_next_device_event (m_devices m) of
                None \<Rightarrow> (step_result Suspended (d_opcode decoded) (d_pc decoded), m)
              | Some delay \<Rightarrow>
                  execute_wait_for_interrupt decoded (m\<lparr>m_devices := advance_time delay (m_devices m)\<rparr>))"
  by pat_completeness auto
termination
proof (relation "measure (\<lambda>(d, m). if tim_armed (ds_timer (m_devices m)) then 1 else 0)")
  fix decoded m x delay
  assume x: "x = sample_device_interrupts m"
    and e: "nanoseconds_until_next_device_event (m_devices x) = Some delay"
  then have "nanoseconds_until_expiry (ds_timer (m_devices m)) = Some delay"
    by (simp add: nanoseconds_until_next_device_event_def sample_device_interrupts_def)
  note advance_to_expiry_disarms [OF this]
  moreover from \<open>nanoseconds_until_expiry (ds_timer (m_devices m)) = Some delay\<close>
  have "tim_armed (ds_timer (m_devices m))"
    by (simp add: nanoseconds_until_expiry_def split: if_splits)
  ultimately show "((decoded, x\<lparr>m_devices := advance_time delay (m_devices x)\<rparr>), decoded, m)
      \<in> measure (\<lambda>(d, m). if tim_armed (ds_timer (m_devices m)) then 1 else 0)"
    by (simp add: x sample_device_interrupts_def advance_time_def)
qed simp

declare execute_wait_for_interrupt.simps [simp del]

section \<open>What the shared operations leave alone\<close>

lemma thread_all_preserves:
  assumes "\<And>t a. P t \<Longrightarrow> P (snd (look t a))"
  shows "P t \<Longrightarrow> P (snd (thread_all look t as))"
proof (induction "as" arbitrary: t)
  case (Cons a as)
  obtain r t' where l: "look t a = (r, t')" by (cases "look t a")
  with assms [OF Cons.prems, of a] have "P t'" by simp
  with l Cons.IH [of t'] show ?case by (auto split: sum.splits prod.splits)
qed simp

definition plan_lookup :: "u64 \<Rightarrow> nat \<Rightarrow> AccessKind \<Rightarrow> Privilege \<Rightarrow> InterpreterV2
    \<Rightarrow> (TrapV2 + u64 list) \<times> TranslatorV2" where
  "plan_lookup a n kind lvl m =
     thread_all (\<lambda>t. translate t (m_memory m) (read_raw (m_csr m) csr_kPagingRoot) lvl kind)
       (m_translator m) (map (\<lambda>i. a + of_nat i) [0..<n])"

lemma snd_plan_access: "snd (plan_access a n kind lvl m) = m\<lparr>m_translator := snd (plan_lookup a n kind lvl m)\<rparr>"
  unfolding plan_access_def Let_def plan_lookup_def [symmetric]
  by (simp split: prod.split sum.split option.split)

lemma fst_plan_access:
  "fst (plan_access a n kind lvl m) =
     (case fst (plan_lookup a n kind lvl m) of
        Inl trap \<Rightarrow> Inl trap
      | Inr ps \<Rightarrow> (case lowest_inaccessible (m_memory m) ps of
                     Some l \<Rightarrow> Inl (no_trap\<lparr>trap_cause := cause_kPhysicalMemoryFault, trap_subcode := 0,
                                            trap_aux := l\<rparr>)
                   | None \<Rightarrow> Inr ps))"
  unfolding plan_access_def Let_def plan_lookup_def [symmetric]
  by (simp split: prod.split sum.split option.split)

lemma plan_access_frames [simp, field_frames]:
  "m_memory (snd (plan_access a n kind lvl m)) = m_memory m"
  "m_registers (snd (plan_access a n kind lvl m)) = m_registers m"
  "m_devices (snd (plan_access a n kind lvl m)) = m_devices m"
  "m_csr (snd (plan_access a n kind lvl m)) = m_csr m"
  "m_pc (snd (plan_access a n kind lvl m)) = m_pc m"
  "m_steps_taken (snd (plan_access a n kind lvl m)) = m_steps_taken m"
  "m_halted (snd (plan_access a n kind lvl m)) = m_halted m"
  by (simp_all add: snd_plan_access)

lemma wf_plan_lookup [wf_intros]:
  "wf_translator (m_translator m) \<Longrightarrow> wf_translator (snd (plan_lookup a n kind lvl m))"
  unfolding plan_lookup_def
  by (rule thread_all_preserves [where P = wf_translator]) (simp_all add: wf_translate)

lemma lowest_inaccessible_None:
  "lowest_inaccessible mem ps = None \<longleftrightarrow> (\<forall>p \<in> set ps. accessible mem p)"
proof -
  have "fold (\<lambda>p lowest. if \<not> accessible mem p \<and> (case lowest of None \<Rightarrow> True | Some l \<Rightarrow> p < l)
                      then Some p else lowest) ps x = None \<longleftrightarrow>
        x = None \<and> (\<forall>p \<in> set ps. accessible mem p)" for x
    by (induction ps arbitrary: x) auto
  then show ?thesis by (simp add: lowest_inaccessible_def)
qed

lemma plan_access_Inr:
  assumes "fst (plan_access a n kind lvl m) = Inr plan"
  shows "length plan = n" and "p \<in> set plan \<Longrightarrow> accessible (m_memory m) p"
proof -
  have r: "fst (plan_lookup a n kind lvl m) = Inr plan" and l: "lowest_inaccessible (m_memory m) plan = None"
    using assms by (auto simp: fst_plan_access split: sum.splits option.splits)
  from thread_all_length [OF r [unfolded plan_lookup_def]] show "length plan = n" by simp
  show "p \<in> set plan \<Longrightarrow> accessible (m_memory m) p"
    using l by (simp add: lowest_inaccessible_None)
qed

lemma write_planned_frames [simp, field_frames]:
  "m_registers (write_planned plan k w v m) = m_registers m"
  "m_devices (write_planned plan k w v m) = m_devices m"
  "m_csr (write_planned plan k w v m) = m_csr m"
  "m_translator (write_planned plan k w v m) = m_translator m"
  "m_pc (write_planned plan k w v m) = m_pc m"
  "m_steps_taken (write_planned plan k w v m) = m_steps_taken m"
  "m_halted (write_planned plan k w v m) = m_halted m"
  by (simp_all add: write_planned_def)

lemma accessible_write_planned [simp]:
  "accessible (m_memory (write_planned plan k w v m)) a = accessible (m_memory m) a"
  by (simp add: write_planned_def phys.acc_fold)

lemma mem_size_fold_write [simp]: "mem_size (fold (\<lambda>i m. write_byte m (at i) (f i)) is m) = mem_size m"
  by (induction "is" arbitrary: m) simp_all

lemma mem_size_write_planned [simp]: "mem_size (m_memory (write_planned plan k w v m)) = mem_size (m_memory m)"
  by (simp add: write_planned_def)

section \<open>The machine's invariant\<close>

definition wf_machine :: "InterpreterV2 \<Rightarrow> bool" where
  "wf_machine m \<longleftrightarrow>
     wf_registers (m_registers m) \<and> wf_csr (m_csr m) \<and> wf_translator (m_translator m) \<and>
     wf_devices (m_devices m)"

lemma wf_new_interpreter [wf_intros, simp]: "wf_machine (new_interpreter memory pc)"
  by (simp add: wf_machine_def new_interpreter_def)

lemma wf_machine_frames [simp]:
  "wf_machine (m\<lparr>m_pc := x\<rparr>) = wf_machine m" "wf_machine (m\<lparr>m_halted := h\<rparr>) = wf_machine m"
  "wf_machine (m\<lparr>m_steps_taken := k\<rparr>) = wf_machine m" "wf_machine (m\<lparr>m_memory := mm\<rparr>) = wf_machine m"
  by (simp_all add: wf_machine_def)

lemma wf_machine_updates [wf_intros]:
  "wf_machine m \<Longrightarrow> wf_registers r \<Longrightarrow> wf_machine (m\<lparr>m_registers := r\<rparr>)"
  "wf_machine m \<Longrightarrow> wf_csr c \<Longrightarrow> wf_machine (m\<lparr>m_csr := c\<rparr>)"
  "wf_machine m \<Longrightarrow> wf_translator t \<Longrightarrow> wf_machine (m\<lparr>m_translator := t\<rparr>)"
  "wf_machine m \<Longrightarrow> wf_devices d \<Longrightarrow> wf_machine (m\<lparr>m_devices := d\<rparr>)"
  by (simp_all add: wf_machine_def)

lemma wf_machine_parts [wf_dests]:
  assumes "wf_machine m"
  shows "wf_registers (m_registers m)" "wf_csr (m_csr m)" "wf_translator (m_translator m)"
    "wf_devices (m_devices m)"
  using assms by (simp_all add: wf_machine_def)

lemma wf_machine_plan [wf_intros]: "wf_machine m \<Longrightarrow> wf_machine (snd (plan_access a n kind lvl m))"
  by (simp add: wf_machine_def snd_plan_access wf_plan_lookup)

lemma wf_machine_write_planned [simp]: "wf_machine (write_planned plan k w v m) = wf_machine m"
  by (simp add: wf_machine_def)

lemma wf_set_register [simp]: "wf_machine (set_register n v m) = wf_machine m"
  by (simp add: wf_machine_def set_register_def)

lemma set_register_frames [simp, field_frames]:
  "m_memory (set_register n v m) = m_memory m" "m_devices (set_register n v m) = m_devices m"
  "m_csr (set_register n v m) = m_csr m" "m_translator (set_register n v m) = m_translator m"
  "m_pc (set_register n v m) = m_pc m" "m_steps_taken (set_register n v m) = m_steps_taken m"
  "m_halted (set_register n v m) = m_halted m"
  "m_registers (set_register n v m) = write_reg (m_registers m) n v"
  by (simp_all add: set_register_def)

section \<open>Trap delivery\<close>

text \<open>The four frame words as one operation, and the two ways a delivery ends.\<close>

definition push_frame :: "AccessPlanV2 \<Rightarrow> TrapV2 \<Rightarrow> InterpreterV2 \<Rightarrow> InterpreterV2" where
  "push_frame plan trap m =
     write_planned plan 24 8 (trap_aux trap)
       (write_planned plan 16 8 (encode_cause_word (trap_cause trap) (trap_subcode trap))
         (write_planned plan 8 8 (c_status (m_csr m))
           (write_planned plan 0 8 (trap_pc trap) m)))"

lemma push_frame_frames [simp, field_frames]:
  "m_registers (push_frame plan trap m) = m_registers m"
  "m_devices (push_frame plan trap m) = m_devices m"
  "m_csr (push_frame plan trap m) = m_csr m"
  "m_translator (push_frame plan trap m) = m_translator m"
  "m_steps_taken (push_frame plan trap m) = m_steps_taken m"
  "m_halted (push_frame plan trap m) = m_halted m"
  "mem_size (m_memory (push_frame plan trap m)) = mem_size (m_memory m)"
  by (simp_all add: push_frame_def)

definition vector_entry :: "TrapV2 \<Rightarrow> InterpreterV2 \<Rightarrow> u64" where
  "vector_entry trap m = entry_address (c_trap_vector_base (m_csr m)) (trap_cause trap)"

definition delivery_halt :: "TrapV2 \<Rightarrow> TranslatorV2 \<Rightarrow> nat \<Rightarrow> InterpreterV2 \<Rightarrow> InterpreterV2" where
  "delivery_halt trap t kind m =
     m\<lparr>m_translator := t,
       m_csr := machine_record_halt kind (trap_cause trap) (trap_subcode trap) (m_csr m),
       m_halted := True\<rparr>"

definition delivery_entry :: "TrapV2 \<Rightarrow> AccessPlanV2 \<Rightarrow> u64 \<Rightarrow> InterpreterV2 \<Rightarrow> InterpreterV2" where
  "delivery_entry trap plan handler m =
     (push_frame plan trap m)
       \<lparr>m_csr := machine_enter_supervisor
                   (machine_set_trap_stack (c_trap_stack (m_csr m) - trap_frame_kBytes) (m_csr m)),
        m_pc := handler\<rparr>"

lemma read_raw_named:
  "read_raw c csr_kTrapVectorBase = c_trap_vector_base c" "read_raw c csr_kTrapStack = c_trap_stack c"
  "read_raw c csr_kStatus = c_status c" "read_raw c csr_kPagingRoot = c_paging_root c"
  by (simp_all add: read_raw_def)

lemma plan_access_translator:
  assumes "plan_access a n kind lvl m = (v, m1)"
  shows "\<exists>t. m1 = m\<lparr>m_translator := t\<rparr> \<and> (wf_translator (m_translator m) \<longrightarrow> wf_translator t)"
  using snd_plan_access [of a n kind lvl m] wf_plan_lookup [of m a n kind lvl] assms by auto

lemma deliver_split:
  assumes "deliver trap opc ipc m = (r, m')"
  obtains
    (halted) t kind where "m' = delivery_halt trap t kind m"
      "wf_translator (m_translator m) \<Longrightarrow> wf_translator t"
      "sr_disposition r \<in> {HaltedNoHandler, HaltedDoubleFault}" "sr_status r = Trapped" "sr_trap r = trap"
      "kind = halt_cause_kKindNoHandler \<and> sr_disposition r = HaltedNoHandler \<or>
       kind = halt_cause_kKindDoubleFault \<and> sr_disposition r = HaltedDoubleFault"
      "sr_disposition r = HaltedNoHandler \<Longrightarrow>
       \<exists>vplan m1. plan_access (vector_entry trap m) 8 Load Supervisor m = (Inr vplan, m1) \<and>
         read_planned vplan 0 8 m1 = 0"
      "sr_disposition r = HaltedDoubleFault \<Longrightarrow>
       (\<exists>x m1. plan_access (vector_entry trap m) 8 Load Supervisor m = (Inl x, m1)) \<or>
       (\<exists>vplan m1 x m2. plan_access (vector_entry trap m) 8 Load Supervisor m = (Inr vplan, m1) \<and>
          plan_access (c_trap_stack (m_csr m) - trap_frame_kBytes) 32 Store Supervisor m1 = (Inl x, m2))"
  | (delivered) vplan plan m1 m2 where
      "plan_access (vector_entry trap m) 8 Load Supervisor m = (Inr vplan, m1)"
      "sr_handler r = read_planned vplan 0 8 m1" "sr_handler r \<noteq> 0"
      "plan_access (c_trap_stack (m_csr m) - trap_frame_kBytes) 32 Store Supervisor m1 = (Inr plan, m2)"
      "m' = delivery_entry trap plan (sr_handler r) m2"
      "sr_disposition r = Delivered" "sr_status r = Trapped" "sr_trap r = trap"
proof -
  note r = read_raw_named
  let ?f = "c_trap_stack (m_csr m) - trap_frame_kBytes"
  obtain v m1 where v: "plan_access (vector_entry trap m) 8 Load Supervisor m = (v, m1)"
    by (cases "plan_access (vector_entry trap m) 8 Load Supervisor m")
  from plan_access_translator [OF v] obtain t1
    where m1: "m1 = m\<lparr>m_translator := t1\<rparr>" and w1: "wf_translator (m_translator m) \<Longrightarrow> wf_translator t1"
    by blast
  obtain f m2 where f: "plan_access ?f 32 Store Supervisor m1 = (f, m2)"
    by (cases "plan_access ?f 32 Store Supervisor m1")
  from plan_access_translator [OF f] obtain t2
    where m2: "m2 = m\<lparr>m_translator := t2\<rparr>" and w2: "wf_translator t1 \<Longrightarrow> wf_translator t2"
    by (auto simp: m1)
  show thesis
  proof (cases v)
    case (Inl x)
    have "deliver trap opc ipc m = halt_without_delivering trap opc ipc HaltedDoubleFault 2 m1"
      using v Inl by (simp add: deliver_def r Let_def vector_entry_def)
    with assms v Inl show ?thesis
      by (intro halted [of t1 2] w1) (auto simp: halt_without_delivering_def step_result_def delivery_halt_def m1)
  next
    case (Inr vplan)
    show ?thesis
    proof (cases "read_planned vplan 0 8 m1 = 0")
      case True
      with v Inr have "deliver trap opc ipc m = halt_without_delivering trap opc ipc HaltedNoHandler 1 m1"
        by (simp add: deliver_def r Let_def vector_entry_def)
      with assms v Inr True show ?thesis
        by (intro halted [of t1 1] w1) (auto simp: halt_without_delivering_def step_result_def delivery_halt_def m1)
    next
      case nz: False
      have c1: "m_csr m1 = m_csr m" by (simp add: m1)
      show ?thesis
      proof (cases f)
        case (Inl x)
        with v Inr nz f c1 have
          "deliver trap opc ipc m = halt_without_delivering trap opc ipc HaltedDoubleFault 2 m2"
          by (simp add: deliver_def r Let_def vector_entry_def)
        with assms v Inr f \<open>f = Inl x\<close> show ?thesis
          by (intro halted [of t2 2] w2 w1) (auto simp: halt_without_delivering_def step_result_def delivery_halt_def m2)
      next
        case (Inr plan)
        have "deliver trap opc ipc m =
          ((step_result Trapped opc ipc)\<lparr>sr_trap := trap, sr_disposition := Delivered,
             sr_handler := read_planned vplan 0 8 m1\<rparr>,
           delivery_entry trap plan (read_planned vplan 0 8 m1) m2)"
          using v \<open>v = Inr vplan\<close> nz f c1 Inr
          by (simp add: deliver_def r Let_def vector_entry_def delivery_entry_def push_frame_def m2)
        with assms v \<open>v = Inr vplan\<close> nz f Inr show ?thesis
          by (intro delivered [of vplan m1 plan m2]) (auto simp: step_result_def)
      qed
    qed
  qed
qed

text \<open>What every delivery keeps, and that it keeps the invariant.\<close>

lemma delivery_frames [simp, field_frames]:
  "m_registers (delivery_halt trap t k m) = m_registers m" "m_registers (delivery_entry trap pl h m) = m_registers m"
  "m_devices (delivery_halt trap t k m) = m_devices m" "m_devices (delivery_entry trap pl h m) = m_devices m"
  "m_steps_taken (delivery_halt trap t k m) = m_steps_taken m"
  "m_steps_taken (delivery_entry trap pl h m) = m_steps_taken m"
  "m_memory (delivery_halt trap t k m) = m_memory m" "m_pc (delivery_halt trap t k m) = m_pc m"
  "m_pc (delivery_entry trap pl h m) = h" "m_halted (delivery_halt trap t k m)"
  "m_halted (delivery_entry trap pl h m) = m_halted m"
  "mem_size (m_memory (delivery_entry trap pl h m)) = mem_size (m_memory m)"
  by (simp_all add: delivery_halt_def delivery_entry_def)

lemma wf_delivery_halt [wf_intros]:
  "wf_machine m \<Longrightarrow> wf_translator t \<Longrightarrow> wf_machine (delivery_halt trap t k m)"
  by (simp add: delivery_halt_def wf_machine_def)

lemma wf_delivery_entry [wf_intros]: "wf_machine m \<Longrightarrow> wf_machine (delivery_entry trap pl h m)"
  by (simp add: delivery_entry_def wf_machine_def wf_csr_set_trap_stack)

lemma plan_access_same:
  "plan_access a n kind lvl m = (v, m1) \<Longrightarrow>
   m_memory m1 = m_memory m \<and> m_registers m1 = m_registers m \<and> m_devices m1 = m_devices m \<and>
   m_csr m1 = m_csr m \<and> m_pc m1 = m_pc m \<and> m_steps_taken m1 = m_steps_taken m \<and> m_halted m1 = m_halted m"
  by (drule plan_access_translator) auto

lemma wf_plan_access: "plan_access a n kind lvl m = (v, m1) \<Longrightarrow> wf_machine m \<Longrightarrow> wf_machine m1"
  using wf_machine_plan [of m a n kind lvl] by simp

lemma deliver_keeps:
  assumes "deliver trap opc ipc m = (r, m')"
  shows "m_registers m' = m_registers m \<and> m_devices m' = m_devices m \<and> m_steps_taken m' = m_steps_taken m \<and>
         mem_size (m_memory m') = mem_size (m_memory m) \<and> (wf_machine m \<longrightarrow> wf_machine m') \<and>
         sr_status r = Trapped \<and> sr_trap r = trap"
  using assms
proof (cases rule: deliver_split)
  case (halted t kind)
  then show ?thesis by (auto intro: wf_delivery_halt dest: wf_machine_parts)
next
  case (delivered vplan plan m1 m2)
  from plan_access_same [OF delivered(1)] plan_access_same [OF delivered(4)]
    wf_plan_access [OF delivered(1)] wf_plan_access [OF delivered(4)] delivered(5-8)
  show ?thesis by (auto intro: wf_delivery_entry)
qed

lemma deliver_frames [simp, field_frames]:
  "m_registers (snd (deliver trap opc ipc m)) = m_registers m"
  "m_devices (snd (deliver trap opc ipc m)) = m_devices m"
  "m_steps_taken (snd (deliver trap opc ipc m)) = m_steps_taken m"
  "mem_size (m_memory (snd (deliver trap opc ipc m))) = mem_size (m_memory m)"
  "sr_status (fst (deliver trap opc ipc m)) = Trapped"
  "sr_trap (fst (deliver trap opc ipc m)) = trap"
  using deliver_keeps [OF prod.collapse [symmetric], of trap opc ipc m] by simp_all

lemma wf_deliver [wf_intros]: "wf_machine m \<Longrightarrow> wf_machine (snd (deliver trap opc ipc m))"
  using deliver_keeps [OF prod.collapse [symmetric], of trap opc ipc m] by simp

section \<open>Planned reads and writes\<close>

lemma read_planned_le_value:
  "read_planned plan k w m = le_value (\<lambda>i. read_byte (m_memory m) (plan ! (k + i))) w"
  by (simp add: read_planned_def le_value_def)

lemma read_write_planned_same:
  assumes "distinct plan" and "k + w \<le> length plan" and "w \<le> 8"
    and "\<forall>p \<in> set plan. accessible (m_memory m) p"
  shows "read_planned plan k w (write_planned plan k w v m) = take_bit (8 * w) v"
proof -
  have "inj_on (\<lambda>i. plan ! (k + i)) {..<w}"
    using assms(1,2) by (auto simp: inj_on_def nth_eq_iff_index_eq)
  with assms show ?thesis
    by (simp add: read_planned_le_value write_planned_def) (intro phys.le_round_trip, auto)
qed

lemma read_write_planned_other:
  assumes "distinct plan" and "k + w \<le> length plan" and "j + w' \<le> length plan"
    and "j + w' \<le> k \<or> k + w \<le> j" and "\<forall>p \<in> set plan. accessible (m_memory m) p"
  shows "read_planned plan j w' (write_planned plan k w v m) = read_planned plan j w' m"
  unfolding read_planned_le_value
proof (rule le_value_cong)
  fix i assume i: "i < w'"
  have "plan ! (k + i') \<noteq> plan ! (j + i)" if "i' < w" for i'
    using assms that i by (auto simp: nth_eq_iff_index_eq)
  with assms show "read_byte (m_memory (write_planned plan k w v m)) (plan ! (j + i)) =
      read_byte (m_memory m) (plan ! (j + i))"
    by (simp add: write_planned_def) (intro phys.rd_fold_miss, auto)
qed

lemma read_push_frame:
  assumes "distinct plan" and "length plan = 32" and "\<forall>p \<in> set plan. accessible (m_memory m) p"
  shows "read_planned plan 0 8 (push_frame plan trap m) = trap_pc trap"
    and "read_planned plan 8 8 (push_frame plan trap m) = c_status (m_csr m)"
    and "read_planned plan 16 8 (push_frame plan trap m) = encode_cause_word (trap_cause trap) (trap_subcode trap)"
    and "read_planned plan 24 8 (push_frame plan trap m) = trap_aux trap"
proof -
  have t: "take_bit 64 v = v" for v :: u64 by (rule bit_word_eqI) (simp add: bit_simps)
  show "read_planned plan 0 8 (push_frame plan trap m) = trap_pc trap"
    and "read_planned plan 8 8 (push_frame plan trap m) = c_status (m_csr m)"
    and "read_planned plan 16 8 (push_frame plan trap m) = encode_cause_word (trap_cause trap) (trap_subcode trap)"
    and "read_planned plan 24 8 (push_frame plan trap m) = trap_aux trap"
    using assms by (simp_all add: push_frame_def read_write_planned_same read_write_planned_other t)
qed

text \<open>While the cache agrees with the tables, or translation is off, a plan is what the
  uncached translation of each byte gives.\<close>

definition tlb_ok :: "InterpreterV2 \<Rightarrow> bool" where
  "tlb_ok m \<longleftrightarrow>
     c_paging_root (m_csr m) AND paging_root_kModeMask = paging_root_kModeBare \<or>
     coherent (m_translator m) (m_memory m) (c_paging_root (m_csr m))"

lemma bare_lookup:
  assumes "root AND paging_root_kModeMask = paging_root_kModeBare"
  shows "thread_all (\<lambda>t. translate t mem root lvl kind) t as = (Inr as, t)"
    and "spec_all (translate_spec mem root lvl kind) as = Inr as"
  using assms by (induction "as") (simp_all add: translate_def translate_spec_def)

lemma plan_lookup_spec:
  assumes "wf_machine m" and "tlb_ok m"
  shows "fst (plan_lookup a n kind lvl m) =
           spec_all (translate_spec (m_memory m) (c_paging_root (m_csr m)) lvl kind)
             (map (\<lambda>i. a + of_nat i) [0..<n])"
    and "tlb_ok (m\<lparr>m_translator := snd (plan_lookup a n kind lvl m)\<rparr>)"
proof -
  let ?root = "c_paging_root (m_csr m)"
  show "fst (plan_lookup a n kind lvl m) =
           spec_all (translate_spec (m_memory m) ?root lvl kind) (map (\<lambda>i. a + of_nat i) [0..<n])"
  proof (cases "?root AND paging_root_kModeMask = paging_root_kModeBare")
    case True
    then show ?thesis by (simp add: plan_lookup_def bare_lookup read_raw_named)
  next
    case False
    with assms show ?thesis
      unfolding plan_lookup_def read_raw_named by (intro tlb.thread_all_spec) (simp add: tlb_ok_def wf_machine_def)
  qed
  show "tlb_ok (m\<lparr>m_translator := snd (plan_lookup a n kind lvl m)\<rparr>)"
  proof (cases "?root AND paging_root_kModeMask = paging_root_kModeBare")
    case True
    then show ?thesis by (simp add: tlb_ok_def)
  next
    case False
    with assms have "wf_translator (m_translator m) \<and> coherent (m_translator m) (m_memory m) ?root"
      by (simp add: tlb_ok_def wf_machine_def)
    from tlb.thread_all_inv [OF this, of lvl kind "map (\<lambda>i. a + of_nat i) [0..<n]"]
    show ?thesis by (simp add: tlb_ok_def plan_lookup_def read_raw_named)
  qed
qed

lemma plan_access_spec:
  assumes "wf_machine m" and "tlb_ok m" and "plan_access a n kind lvl m = (v, m1)"
  shows "tlb_ok m1"
    and "v = Inr plan \<longleftrightarrow>
         map (translate_spec (m_memory m) (c_paging_root (m_csr m)) lvl kind) (map (\<lambda>i. a + of_nat i) [0..<n]) =
           map Inr plan \<and> (\<forall>p \<in> set plan. accessible (m_memory m) p)"
proof -
  from assms(3) have v: "v = fst (plan_access a n kind lvl m)"
    and m1: "m1 = m\<lparr>m_translator := snd (plan_lookup a n kind lvl m)\<rparr>"
    using snd_plan_access [of a n kind lvl m] by simp_all
  show "tlb_ok m1" unfolding m1 by (rule plan_lookup_spec(2) [OF assms(1,2)])
  show "v = Inr plan \<longleftrightarrow>
         map (translate_spec (m_memory m) (c_paging_root (m_csr m)) lvl kind) (map (\<lambda>i. a + of_nat i) [0..<n]) =
           map Inr plan \<and> (\<forall>p \<in> set plan. accessible (m_memory m) p)"
    unfolding v fst_plan_access plan_lookup_spec(1) [OF assms(1,2)] spec_all_Inr [symmetric]
    by (auto simp: lowest_inaccessible_None [symmetric] split: sum.split option.split)
qed

text \<open>
  A place that was just stored to can be planned again for loading, at the same physical bytes, as
  long as the stores did not hit the page tables. The tables are untouched when translation is off,
  or when every walk gives what it gave.
\<close>

definition tables_kept :: "InterpreterV2 \<Rightarrow> InterpreterV2 \<Rightarrow> bool" where
  "tables_kept m m' \<longleftrightarrow>
     c_paging_root (m_csr m) AND paging_root_kModeMask = paging_root_kModeBare \<or>
     (\<forall>kind va tr. walk_table sv48_kLevels (m_memory m') kind va tr (c_paging_root (m_csr m) AND pte_kAddressMask) =
                   walk_table sv48_kLevels (m_memory m) kind va tr (c_paging_root (m_csr m) AND pte_kAddressMask))"

lemma tables_kept_spec:
  "tables_kept m m' \<Longrightarrow>
   translate_spec (m_memory m') (c_paging_root (m_csr m)) = translate_spec (m_memory m) (c_paging_root (m_csr m))"
  by (auto simp: tables_kept_def translate_spec_def fun_eq_iff)

lemma tables_kept_tlb_ok:
  assumes "tlb_ok m1" and "m_memory m1 = m_memory m" and "m_csr m1 = m_csr m" and "tables_kept m m'"
    and "m_translator m' = m_translator m1" and "c_paging_root (m_csr m') = c_paging_root (m_csr m)"
  shows "tlb_ok m'"
  using assms by (auto simp: tlb_ok_def tables_kept_def coherent_def)

lemma plan_access_nth:
  assumes "wf_machine m" and "tlb_ok m" and "plan_access a n kind lvl m = (Inr plan, m1)"
  shows "length plan = n"
    and "i < n \<Longrightarrow> translate_spec (m_memory m) (c_paging_root (m_csr m)) lvl kind (a + of_nat i) = Inr (plan ! i)"
    and "\<forall>p \<in> set plan. accessible (m_memory m) p"
proof -
  have s: "map (translate_spec (m_memory m) (c_paging_root (m_csr m)) lvl kind) (map (\<lambda>i. a + of_nat i) [0..<n]) =
      map Inr plan" and acc: "\<forall>p \<in> set plan. accessible (m_memory m) p"
    using plan_access_spec(2) [OF assms, of plan] by blast+
  show l: "length plan = n" using arg_cong [OF s, of length] by simp
  show "i < n \<Longrightarrow> translate_spec (m_memory m) (c_paging_root (m_csr m)) lvl kind (a + of_nat i) = Inr (plan ! i)"
    using arg_cong [OF s, of "\<lambda>xs. xs ! i"] l by simp
  show "\<forall>p \<in> set plan. accessible (m_memory m) p" by (rule acc)
qed

lemma plan_distinct:
  assumes "wf_machine m" and "tlb_ok m" and "plan_access a n kind lvl m = (Inr plan, m1)"
    and "inj_on (\<lambda>i. translate_spec (m_memory m) (c_paging_root (m_csr m)) lvl kind (a + of_nat i)) {..<n}"
  shows "distinct plan"
  unfolding distinct_conv_nth
  using assms(4) plan_access_nth(1,2) [OF assms(1-3)] by (auto simp: inj_on_def)

lemma replan_load:
  assumes "wf_machine m" and "tlb_ok m" and "plan_access a n Store lvl m = (Inr plan, m1)"
    and "wf_machine m2" and "tlb_ok m2" and "tables_kept m m2"
    and "c_paging_root (m_csr m2) = c_paging_root (m_csr m)"
    and "\<And>p. accessible (m_memory m2) p = accessible (m_memory m) p"
  shows "fst (plan_access a n Load lvl m2) = Inr plan"
proof -
  note n = plan_access_nth [OF assms(1-3)]
  have "map (translate_spec (m_memory m2) (c_paging_root (m_csr m2)) lvl Load) (map (\<lambda>i. a + of_nat i) [0..<n]) =
      map Inr plan"
    by (rule nth_equalityI)
      (simp_all add: n(1) assms(7) tables_kept_spec [OF assms(6)] storable_loadable [OF n(2)])
  with plan_access_spec(2) [OF assms(4,5) prod.collapse [symmetric], of a n Load lvl plan] n(3) assms(8)
  show ?thesis by blast
qed

section \<open>Interrupt sampling\<close>

lemma pending_raise:
  "wf_csr c \<Longrightarrow> n < kCauseCount \<Longrightarrow> k < kCauseCount \<Longrightarrow>
   pending (machine_raise_pending n c) k \<longleftrightarrow> n = k \<or> pending c k"
  using wf_csr_lengths(2) [of c]
  by (auto simp: pending_bit machine_raise_pending_def cause_bit_def bit_simps nth_list_update)
    (metis div_mod_decomp)+

lemma pending_clear:
  "wf_csr c \<Longrightarrow> n < kCauseCount \<Longrightarrow> k < kCauseCount \<Longrightarrow>
   pending (machine_clear_pending n c) k \<longleftrightarrow> n \<noteq> k \<and> pending c k"
  using wf_csr_lengths(2) [of c]
  by (auto simp: pending_bit machine_clear_pending_def cause_bit_def bit_simps nth_list_update)
    (metis div_mod_decomp)+

definition sample_step :: "u64 \<Rightarrow> nat \<Rightarrow> CsrFileV2 \<Rightarrow> CsrFileV2" where
  "sample_step lines line c =
     (if bit lines line then machine_raise_pending (32 + line) c else machine_clear_pending (32 + line) c)"

lemma sample_lines_steps: "sample_lines lines c = fold (sample_step lines) [0..<8] c"
  unfolding sample_lines_def
  by (rule fold_cong) (auto simp: sample_step_def bit_iff_and_push_bit_not_eq_0)

text \<open>The control registers apart from the pending array, which sampling alone touches.\<close>

definition but_pending :: "CsrFileV2 \<Rightarrow> CsrFileV2" where
  "but_pending c = c\<lparr>c_interrupt_pending := []\<rparr>"

lemma but_pending_fields:
  assumes "but_pending c = but_pending c'"
  shows "c_status c = c_status c'" "c_trap_stack c = c_trap_stack c'"
    "c_trap_vector_base c = c_trap_vector_base c'" "c_paging_root c = c_paging_root c'"
    "c_interrupt_enable c = c_interrupt_enable c'" "c_halt_cause c = c_halt_cause c'"
    "c_fcsr c = c_fcsr c'" "c_feature_bitmap c = c_feature_bitmap c'" "c_scratch c = c_scratch c'"
    "c_syscall_provider c = c_syscall_provider c'" "c_boot_info c = c_boot_info c'"
    "c_translation_flushes c = c_translation_flushes c'"
  using assms unfolding but_pending_def by (cases c; cases c'; simp)+

lemma but_pending_raise_clear [simp]:
  "but_pending (machine_raise_pending n c) = but_pending c"
  "but_pending (machine_clear_pending n c) = but_pending c"
  by (simp_all add: but_pending_def machine_raise_pending_def machine_clear_pending_def)

lemma sample_fold:
  assumes "wf_csr c" and "n \<le> 8"
  shows "wf_csr (fold (sample_step lines) [0..<n] c) \<and>
         but_pending (fold (sample_step lines) [0..<n] c) = but_pending c \<and>
         (\<forall>k < kCauseCount. pending (fold (sample_step lines) [0..<n] c) k \<longleftrightarrow>
            (if 32 \<le> k \<and> k < 32 + n then bit lines (k - 32) else pending c k))"
  using assms(2)
proof (induction n)
  case 0
  with assms(1) show ?case by auto
next
  case (Suc n)
  define u where "u = fold (sample_step lines) [0..<n] c"
  have f: "fold (sample_step lines) [0..<Suc n] c = sample_step lines n u" by (simp add: u_def)
  have ih: "wf_csr u" "but_pending u = but_pending c"
    "\<forall>k < kCauseCount. pending u k \<longleftrightarrow> (if 32 \<le> k \<and> k < 32 + n then bit lines (k - 32) else pending c k)"
    using Suc by (auto simp: u_def)
  have w: "wf_csr (sample_step lines n u)" "but_pending (sample_step lines n u) = but_pending c"
    using ih(1,2) by (simp_all add: sample_step_def)
  have "pending (sample_step lines n u) k \<longleftrightarrow> (if k = 32 + n then bit lines n else pending u k)"
    if "k < kCauseCount" for k
    using that ih(1) Suc.prems by (auto simp: sample_step_def pending_raise pending_clear)
  with ih(3) w show ?case unfolding f by (auto simp: less_Suc_eq)
qed

lemma sample_lines_props:
  assumes "wf_csr c"
  shows "wf_csr (sample_lines lines c)"
    and "but_pending (sample_lines lines c) = but_pending c"
    and "k < kCauseCount \<Longrightarrow> pending (sample_lines lines c) k \<longleftrightarrow>
           (if 32 \<le> k \<and> k < 40 then bit lines (k - 32) else pending c k)"
  using sample_fold [OF assms, of 8 lines] by (auto simp: sample_lines_steps)

lemma sample_frames [simp, field_frames]:
  "m_memory (sample_device_interrupts m) = m_memory m"
  "m_registers (sample_device_interrupts m) = m_registers m"
  "m_devices (sample_device_interrupts m) = m_devices m"
  "m_translator (sample_device_interrupts m) = m_translator m"
  "m_pc (sample_device_interrupts m) = m_pc m"
  "m_steps_taken (sample_device_interrupts m) = m_steps_taken m"
  "m_halted (sample_device_interrupts m) = m_halted m"
  by (simp_all add: sample_device_interrupts_def)

lemma wf_sample [wf_intros, simp]: "wf_machine m \<Longrightarrow> wf_machine (sample_device_interrupts m)"
  by (simp add: sample_device_interrupts_def wf_machine_def sample_lines_props)

section \<open>Waiting\<close>

text \<open>What the wait loop does, whichever way it ends: the clock and the pending bits move, and
  the program counter on completion; nothing else.\<close>

lemma wait_result:
  assumes "wf_machine m" and "execute_wait_for_interrupt decoded m = (r, m')"
  shows "wf_machine m' \<and> m_memory m' = m_memory m \<and> m_registers m' = m_registers m \<and>
         m_translator m' = m_translator m \<and> m_steps_taken m' = m_steps_taken m \<and> m_halted m' = m_halted m \<and>
         but_pending (m_csr m') = but_pending (m_csr m) \<and>
         sr_trap r = no_trap \<and> sr_disposition r = NoDisposition \<and>
         (if lowest_pending_and_enabled (m_csr m') \<noteq> kNoCause
          then sr_status r = Advanced \<and> m_pc m' = d_next_pc decoded
          else sr_status r = Suspended \<and> m_pc m' = m_pc m \<and> \<not> tim_armed (ds_timer (m_devices m')))"
  using assms
proof (induction decoded m rule: execute_wait_for_interrupt.induct)
  case (1 decoded m)
  let ?s = "sample_device_interrupts m"
  have w: "wf_machine ?s" using "1.prems" by simp
  have c: "but_pending (m_csr ?s) = but_pending (m_csr m)"
    using sample_lines_props(2) [OF wf_machine_parts(2) [OF "1.prems"(1)]]
    by (simp add: sample_device_interrupts_def)
  show ?case
  proof (cases "lowest_pending_and_enabled (m_csr ?s) = kNoCause")
    case False
    then have "execute_wait_for_interrupt decoded m = advance decoded ?s"
      by (subst execute_wait_for_interrupt.simps) (simp add: Let_def)
    with "1.prems"(2) w c False show ?thesis by (auto simp: advance_def step_result_def)
  next
    case True
    show ?thesis
    proof (cases "nanoseconds_until_next_device_event (m_devices ?s)")
      case None
      then have "execute_wait_for_interrupt decoded m =
          (step_result Suspended (d_opcode decoded) (d_pc decoded), ?s)"
        using True by (subst execute_wait_for_interrupt.simps) (simp add: Let_def)
      moreover have "\<not> tim_armed (ds_timer (m_devices ?s))"
        using None by (simp add: nanoseconds_until_next_device_event_def nanoseconds_until_expiry_def
            split: if_splits)
      ultimately show ?thesis
        using "1.prems"(2) w c True by (auto simp: step_result_def)
    next
      case (Some delay)
      let ?n = "?s\<lparr>m_devices := advance_time delay (m_devices ?s)\<rparr>"
      have e: "execute_wait_for_interrupt decoded m = execute_wait_for_interrupt decoded ?n"
        using True Some by (subst execute_wait_for_interrupt.simps) (simp add: Let_def)
      have wn: "wf_machine ?n" using w by (simp add: wf_machine_def)
      have t: "\<not> lowest_pending_and_enabled (m_csr ?s) \<noteq> kNoCause" using True by simp
      from "1.IH" [OF refl t Some wn] "1.prems"(2) c show ?thesis by (simp add: e)
    qed
  qed
qed

text \<open>Advancing to the expiry disarms the timer, so the loop goes round at most twice.\<close>

lemma wait_unfold:
  "execute_wait_for_interrupt decoded m =
     (let s = sample_device_interrupts m;
          stop = (\<lambda>s. if lowest_pending_and_enabled (m_csr s) \<noteq> kNoCause then advance decoded s
                      else (step_result Suspended (d_opcode decoded) (d_pc decoded), s))
      in if lowest_pending_and_enabled (m_csr s) \<noteq> kNoCause then advance decoded s
         else case nanoseconds_until_next_device_event (m_devices m) of
                None \<Rightarrow> stop s
              | Some delay \<Rightarrow>
                  stop (sample_device_interrupts (s\<lparr>m_devices := advance_time delay (m_devices m)\<rparr>)))"
proof (cases "nanoseconds_until_next_device_event (m_devices m)")
  case None
  then show ?thesis by (subst execute_wait_for_interrupt.simps) (simp add: Let_def)
next
  case (Some delay)
  then have "\<not> tim_armed (timer_advance_time delay (ds_timer (m_devices m)))"
    by (intro advance_to_expiry_disarms) (simp add: nanoseconds_until_next_device_event_def)
  then have n: "nanoseconds_until_next_device_event (advance_time delay (m_devices m)) = None"
    by (simp add: nanoseconds_until_next_device_event_def nanoseconds_until_expiry_def advance_time_def)
  show ?thesis
    by (subst execute_wait_for_interrupt.simps, subst execute_wait_for_interrupt.simps)
      (simp add: Let_def Some n)
qed

text \<open>Sampling makes the pending bits of the eight external causes mirror the device lines,
  raised or cleared, and leaves every other pending bit alone.\<close>

theorem sampling_mirrors_lines:
  assumes "wf_machine m" and "k < kCauseCount"
  shows "pending (m_csr (sample_device_interrupts m)) k \<longleftrightarrow>
           (if 32 \<le> k \<and> k < 40 then bit (asserted_interrupt_lines (m_devices m)) (k - 32)
            else pending (m_csr m) k)"
  using sample_lines_props(3) [OF wf_machine_parts(2) [OF assms(1)] assms(2)]
  by (simp add: sample_device_interrupts_def)

lemma sample_csr_rest:
  "wf_machine m \<Longrightarrow>
   (m_csr (sample_device_interrupts m))\<lparr>c_interrupt_pending := p\<rparr> = (m_csr m)\<lparr>c_interrupt_pending := p\<rparr>"
  using sample_lines_props(2) [OF wf_machine_parts(2), of m "asserted_interrupt_lines (m_devices m)"]
  unfolding but_pending_def sample_device_interrupts_def
  by (auto dest: arg_cong [where f = "\<lambda>c. c\<lparr>c_interrupt_pending := p\<rparr>"])

lemma wait_outcome:
  assumes "wf_machine m" and "execute_wait_for_interrupt decoded m = (r, m')"
  shows "m_devices m' =
           (if lowest_pending_and_enabled (m_csr (sample_device_interrupts m)) \<noteq> kNoCause then m_devices m
            else case nanoseconds_until_next_device_event (m_devices m) of
                   None \<Rightarrow> m_devices m
                 | Some delay \<Rightarrow> advance_time delay (m_devices m)) \<and>
         (if lowest_pending_and_enabled (m_csr m') \<noteq> kNoCause
          then r = step_result Advanced (d_opcode decoded) (d_pc decoded) \<and> m_pc m' = d_next_pc decoded
          else r = step_result Suspended (d_opcode decoded) (d_pc decoded) \<and> m_pc m' = m_pc m \<and>
               nanoseconds_until_next_device_event (m_devices m') = None) \<and>
         (\<forall>k < kCauseCount. pending (m_csr m') k \<longleftrightarrow>
            (if 32 \<le> k \<and> k < 40 then bit (asserted_interrupt_lines (m_devices m')) (k - 32)
             else pending (m_csr m) k)) \<and>
         (m_csr m')\<lparr>c_interrupt_pending := c_interrupt_pending (m_csr m)\<rparr> = m_csr m \<and>
         ds_console (m_devices m') = ds_console (m_devices m) \<and>
         m' = m\<lparr>m_devices := m_devices m', m_csr := m_csr m', m_pc := m_pc m'\<rparr>"
proof -
  let ?s = "sample_device_interrupts m"
  let ?stop = "\<lambda>s. if lowest_pending_and_enabled (m_csr s) \<noteq> kNoCause then advance decoded s
                    else (step_result Suspended (d_opcode decoded) (d_pc decoded), s)"
  define d where "d = (if lowest_pending_and_enabled (m_csr ?s) \<noteq> kNoCause then m_devices m
            else case nanoseconds_until_next_device_event (m_devices m) of
                   None \<Rightarrow> m_devices m | Some delay \<Rightarrow> advance_time delay (m_devices m))"
  have w: "wf_machine ?s" using assms(1) by simp
  obtain s where st: "execute_wait_for_interrupt decoded m = ?stop s"
    and ev: "lowest_pending_and_enabled (m_csr s) = kNoCause \<Longrightarrow> nanoseconds_until_next_device_event d = None"
    and s: "s = ?s \<and> d = m_devices m \<or>
      s = sample_device_interrupts (?s\<lparr>m_devices := d\<rparr>) \<and> wf_devices d \<and> ds_console d = ds_console (m_devices m)"
  proof (cases "lowest_pending_and_enabled (m_csr ?s) \<noteq> kNoCause \<or>
      nanoseconds_until_next_device_event (m_devices m) = None")
    case True
    then have "execute_wait_for_interrupt decoded m = ?stop ?s" "d = m_devices m"
      by (auto simp: wait_unfold Let_def d_def)
    with True show ?thesis by (intro that [of ?s]) auto
  next
    case False
    then obtain delay where e: "nanoseconds_until_next_device_event (m_devices m) = Some delay" by auto
    with False have d: "d = advance_time delay (m_devices m)" by (simp add: d_def)
    have "execute_wait_for_interrupt decoded m = ?stop (sample_device_interrupts (?s\<lparr>m_devices := d\<rparr>))"
      using False e by (simp add: wait_unfold Let_def d)
    moreover have "nanoseconds_until_next_device_event d = None"
      using advance_to_expiry_disarms [of "ds_timer (m_devices m)" delay] e
      by (simp add: d nanoseconds_until_next_device_event_def nanoseconds_until_expiry_def advance_time_def)
    moreover have "wf_devices d \<and> ds_console d = ds_console (m_devices m)"
      using wf_machine_parts(4) [OF assms(1)] wf_devices_advance by (simp add: d) (simp add: advance_time_def)
    ultimately show ?thesis by (intro that) auto
  qed
  have p: "pending (m_csr s) k \<longleftrightarrow> (if 32 \<le> k \<and> k < 40 then bit (asserted_interrupt_lines d) (k - 32)
      else pending (m_csr m) k)" if "k < kCauseCount" for k
    using s sampling_mirrors_lines [OF assms(1) that] sampling_mirrors_lines [OF wf_machine_updates(4) [OF w, of d] that] by auto
  have c: "(m_csr s)\<lparr>c_interrupt_pending := c_interrupt_pending (m_csr m)\<rparr> = m_csr m"
    using s sample_csr_rest [OF assms(1), of "c_interrupt_pending (m_csr m)"]
      sample_csr_rest [OF wf_machine_updates(4) [OF w, of d], of "c_interrupt_pending (m_csr m)"] by auto
  have f: "s = m\<lparr>m_devices := d, m_csr := m_csr s\<rparr>"
    using s by (auto simp: sample_device_interrupts_def)
  have console: "ds_console d = ds_console (m_devices m)" using s by auto
  have m': "m' = s\<lparr>m_pc := m_pc m'\<rparr>"
    "if lowest_pending_and_enabled (m_csr s) \<noteq> kNoCause
     then r = step_result Advanced (d_opcode decoded) (d_pc decoded) \<and> m_pc m' = d_next_pc decoded
     else r = step_result Suspended (d_opcode decoded) (d_pc decoded) \<and> m_pc m' = m_pc s"
    using assms(2) st by (auto simp: advance_def split: if_splits)
  have pc: "m_pc s = m_pc m" and dv: "m_devices s = d" by (subst f, simp)+
  have "m_csr m' = m_csr s" "m_devices m' = d" by (subst m'(1), simp add: dv)+
  moreover have "m' = m\<lparr>m_devices := d, m_csr := m_csr s, m_pc := m_pc m'\<rparr>"
    by (subst m'(1), subst f) simp
  ultimately show ?thesis
    using m'(2) p c console ev unfolding d_def [symmetric] by (simp add: pc split: if_splits)
qed

lemma lowest_inaccessible_Min:
  "lowest_inaccessible mem ps =
     (let bad = {p \<in> set ps. \<not> accessible mem p} in if bad = {} then None else Some (Min bad))"
proof -
  define f where "f = (\<lambda>p lowest. if \<not> accessible mem p \<and> (case lowest of None \<Rightarrow> True | Some l \<Rightarrow> p < l)
                      then Some p else lowest)"
  have "case fold f ps None of
          None \<Rightarrow> {p \<in> set ps. \<not> accessible mem p} = {}
        | Some l \<Rightarrow> l \<in> {p \<in> set ps. \<not> accessible mem p} \<and> (\<forall>b \<in> {p \<in> set ps. \<not> accessible mem p}. l \<le> b)"
  proof (induction ps rule: rev_induct)
    case (snoc p ps)
    then show ?case by (auto simp: f_def not_less split: option.splits if_splits)
  qed simp
  moreover have "lowest_inaccessible mem ps = fold f ps None" by (simp add: lowest_inaccessible_def f_def)
  ultimately show ?thesis
    by (cases "fold f ps None") (auto simp: Let_def intro!: Min_eqI [symmetric])
qed

text \<open>
  A word at a virtual address, read byte by byte: the eight bytes translate for the access kind at
  supervisor level through the tables of \<open>m\<close>, are populated, and hold the word in \<open>memory\<close>.
\<close>

definition virtual_word :: "AccessKind \<Rightarrow> InterpreterV2 \<Rightarrow> u64 \<Rightarrow> MemoryV2 \<Rightarrow> u64 \<Rightarrow> bool" where
  "virtual_word kind m a memory w \<longleftrightarrow>
     (\<forall>i < 8. \<exists>p. translate_spec (m_memory m) (c_paging_root (m_csr m)) Supervisor kind (a + of_nat i) = Inr p \<and>
        accessible (m_memory m) p \<and> read_byte memory p = ucast (drop_bit (i * 8) w))"

lemma planned_virtual_word:
  assumes "wf_machine m" and "tlb_ok m" and "plan_access a n kind Supervisor m = (Inr plan, m1)"
    and "k + 8 \<le> n"
  shows "virtual_word kind m (a + of_nat k) (m_memory x) (read_planned plan k 8 x)"
proof -
  note n = plan_access_nth [OF assms(1-3)]
  have "\<exists>p. translate_spec (m_memory m) (c_paging_root (m_csr m)) Supervisor kind (a + of_nat k + of_nat i) = Inr p \<and>
        accessible (m_memory m) p \<and> read_byte (m_memory x) p = ucast (drop_bit (i * 8) (read_planned plan k 8 x))"
    if i: "i < 8" for i
  proof (intro exI conjI)
    show "translate_spec (m_memory m) (c_paging_root (m_csr m)) Supervisor kind (a + of_nat k + of_nat i) =
        Inr (plan ! (k + i))"
      using n(2) [of "k + i"] i assms(4) by (simp add: add.assoc)
    show "accessible (m_memory m) (plan ! (k + i))" using n(1,3) i assms(4) by simp
    show "read_byte (m_memory x) (plan ! (k + i)) = ucast (drop_bit (i * 8) (read_planned plan k 8 x))"
      unfolding read_planned_le_value using i by (simp add: ucast_drop_bit_le_value)
  qed
  then show ?thesis by (simp add: virtual_word_def)
qed

text \<open>A byte a planned access can reach, and that a refused plan has one it cannot.\<close>

definition reaches :: "AccessKind \<Rightarrow> Privilege \<Rightarrow> InterpreterV2 \<Rightarrow> u64 \<Rightarrow> bool" where
  "reaches kind lvl m a \<longleftrightarrow>
     (case translate_spec (m_memory m) (c_paging_root (m_csr m)) lvl kind a of
        Inr p \<Rightarrow> accessible (m_memory m) p
      | Inl _ \<Rightarrow> False)"

lemma plan_access_reaches:
  assumes "wf_machine m" and "tlb_ok m" and "plan_access a n kind lvl m = (v, m1)"
  shows "(\<exists>plan. v = Inr plan) \<longleftrightarrow> (\<forall>i < n. reaches kind lvl m (a + of_nat i))"
proof
  assume "\<exists>plan. v = Inr plan"
  then obtain plan where "plan_access a n kind lvl m = (Inr plan, m1)" using assms(3) by blast
  from plan_access_nth [OF assms(1,2) this] show "\<forall>i < n. reaches kind lvl m (a + of_nat i)"
    by (simp add: reaches_def)
next
  assume r: "\<forall>i < n. reaches kind lvl m (a + of_nat i)"
  let ?tr = "translate_spec (m_memory m) (c_paging_root (m_csr m)) lvl kind"
  define plan where "plan = map (\<lambda>i. projr (?tr (a + of_nat i))) [0..<n]"
  have "?tr (a + of_nat i) = Inr (plan ! i) \<and> accessible (m_memory m) (plan ! i)" if "i < n" for i
    using r [rule_format, OF that] that by (cases "?tr (a + of_nat i)") (auto simp: reaches_def plan_def)
  then have "map ?tr (map (\<lambda>i. a + of_nat i) [0..<n]) = map Inr plan"
    "\<forall>p \<in> set plan. accessible (m_memory m) p"
    by (auto simp: plan_def list_eq_iff_nth_eq in_set_conv_nth)
  with plan_access_spec(2) [OF assms, of plan] show "\<exists>plan. v = Inr plan" by blast
qed

lemma write_planned_miss:
  assumes "p \<notin> set plan" and "k + w \<le> length plan" and "\<forall>p \<in> set plan. accessible (m_memory m) p"
  shows "read_byte (m_memory (write_planned plan k w v m)) p = read_byte (m_memory m) p"
proof -
  have "plan ! (k + i) \<in> set plan" if "i < w" for i using assms(2) that by simp
  with assms(1,3) show ?thesis
    by (simp add: write_planned_def) (intro phys.rd_fold_miss, auto)
qed

lemma push_frame_miss:
  assumes "p \<notin> set plan" and "length plan = 32" and "\<forall>p \<in> set plan. accessible (m_memory m) p"
  shows "read_byte (m_memory (push_frame plan trap m)) p = read_byte (m_memory m) p"
  using assms by (simp add: push_frame_def write_planned_miss)

lemma double_fault_cause:
  assumes "wf_machine m" and "tlb_ok m"
    and "(\<exists>x m1. plan_access entry 8 Load Supervisor m = (Inl x, m1)) \<or>
         (\<exists>vplan m1 x m2. plan_access entry 8 Load Supervisor m = (Inr vplan, m1) \<and>
            plan_access frame 32 Store Supervisor m1 = (Inl x, m2))"
  shows "(\<exists>i < 8. \<not> reaches Load Supervisor m (entry + of_nat i)) \<or>
         (\<exists>i < 32. \<not> reaches Store Supervisor m (frame + of_nat i))"
  using assms(3)
proof
  assume "\<exists>x m1. plan_access entry 8 Load Supervisor m = (Inl x, m1)"
  with plan_access_reaches [OF assms(1,2)] show ?thesis by blast
next
  assume "\<exists>vplan m1 x m2. plan_access entry 8 Load Supervisor m = (Inr vplan, m1) \<and>
            plan_access frame 32 Store Supervisor m1 = (Inl x, m2)"
  then obtain vplan m1 x m2 where p: "plan_access entry 8 Load Supervisor m = (Inr vplan, m1)"
    and f: "plan_access frame 32 Store Supervisor m1 = (Inl x, m2)" by blast
  have "reaches Store Supervisor m1 = reaches Store Supervisor m"
    using plan_access_same [OF p] by (intro ext) (simp add: reaches_def cong: sum.case_cong)
  with plan_access_reaches [OF wf_plan_access [OF p assms(1)] plan_access_spec(1) [OF assms(1,2) p] f]
  show ?thesis by auto
qed

text \<open>A refused translation reports a page fault at the address itself, unless the walk met a
  table outside populated memory.\<close>

lemma walk_table_Inl:
  "walk_table n mem kind va tr table = Inl trap \<Longrightarrow>
   trap_cause trap = cause_kPhysicalMemoryFault \<or>
   trap_cause trap = page_fault_cause kind \<and> trap_aux trap = va"
proof (induction n arbitrary: table)
  case 0
  then show ?case by (auto simp: page_fault_def translation_fault_def)
next
  case (Suc n)
  then show ?case
    by (auto simp: walk_table.simps Let_def page_fault_def translation_fault_def split: option.splits if_splits)
qed

lemma translate_spec_Inl:
  "translate_spec mem root lvl kind va = Inl trap \<Longrightarrow>
   trap_cause trap = cause_kPhysicalMemoryFault \<or>
   trap_cause trap = page_fault_cause kind \<and> trap_aux trap = va"
  by (auto simp: translate_spec_def finish_def page_fault_def translation_fault_def
      split: if_splits sum.splits dest: walk_table_Inl)

lemma plan_access_value:
  assumes "wf_machine m" and "tlb_ok m" and "plan_access a n kind lvl m = (v, m')"
  shows "v = (case spec_all (translate_spec (m_memory m) (c_paging_root (m_csr m)) lvl kind)
                (map (\<lambda>i. a + of_nat i) [0..<n]) of
        Inl trap \<Rightarrow> Inl trap
      | Inr ps \<Rightarrow> (case lowest_inaccessible (m_memory m) ps of
                     Some l \<Rightarrow> Inl (no_trap\<lparr>trap_cause := cause_kPhysicalMemoryFault, trap_subcode := 0,
                                            trap_aux := l\<rparr>)
                   | None \<Rightarrow> Inr ps))"
  using assms(3) fst_plan_access [of a n kind lvl m] by (simp add: plan_lookup_spec(1) [OF assms(1,2)])

lemma first_refused_lowest:
  assumes "spec_all (translate_spec (m_memory m) (c_paging_root (m_csr m)) lvl kind)
             (map (\<lambda>i. a + of_nat i) [0..<n]) = Inl trap"
    and "unat a + n \<le> 2 ^ 64"
    and "tr = (\<lambda>i. translate_spec (m_memory m) (c_paging_root (m_csr m)) lvl kind (a + of_nat i))"
    and "(\<forall>i < n. \<exists>p. tr i = Inr p) \<or> (\<forall>i < n. \<forall>p. tr i = Inr p \<longrightarrow> accessible (m_memory m) p)"
  shows "\<exists>i < n. tr i = Inl trap \<and>
           (\<forall>j < n. reaches kind lvl m (a + of_nat j) \<or> a + of_nat i \<le> a + of_nat j) \<and>
           (trap_cause trap = cause_kPhysicalMemoryFault \<or>
            trap_cause trap = page_fault_cause kind \<and> trap_aux trap = a + of_nat i)"
proof -
  from spec_all_Inl [OF assms(1)] obtain i where
    i: "i < n" "tr i = Inl trap" "\<forall>j < i. \<exists>p. tr j = Inr p" by (auto simp: assms(3))
  have "a + of_nat i \<le> a + of_nat j" if j: "j < n" "\<not> reaches kind lvl m (a + of_nat j)" for j
  proof -
    have "\<not> j < i"
    proof
      assume "j < i"
      with i(3) obtain p where p: "tr j = Inr p" by blast
      moreover have "accessible (m_memory m) p" using assms(4) i(1,2) p j(1) by auto
      ultimately show False using j(2) by (simp add: reaches_def assms(3))
    qed
    with j(1) i(1) assms(2) show ?thesis
      by (simp add: word_le_nat_alt unat_word_ariths unat_of_nat)
  qed
  moreover have "trap_cause trap = cause_kPhysicalMemoryFault \<or>
      trap_cause trap = page_fault_cause kind \<and> trap_aux trap = a + of_nat i"
    using translate_spec_Inl [of "m_memory m"] i(2) unfolding assms(3) by blast
  ultimately show ?thesis using i(1,2) by blast
qed

text \<open>What the pushed frame holds, and that the stores touch no other byte.\<close>

lemma frame_words:
  fixes trap :: TrapV2
  assumes "wf_machine m" and "tlb_ok m" and "plan_access frame 32 Store Supervisor m = (Inr plan, m2)"
    and "store = (\<lambda>i. translate_spec (m_memory m) (c_paging_root (m_csr m)) Supervisor Store (frame + of_nat i))"
  defines "memory \<equiv> m_memory (push_frame plan trap m2)"
  shows "inj_on store {..<32} \<Longrightarrow>
           virtual_word Store m frame memory (trap_pc trap) \<and>
           virtual_word Store m (frame + 8) memory (c_status (m_csr m)) \<and>
           virtual_word Store m (frame + 16) memory (encode_cause_word (trap_cause trap) (trap_subcode trap)) \<and>
           virtual_word Store m (frame + 24) memory (trap_aux trap)"
    and "\<forall>i < 32. store i \<noteq> Inr p \<Longrightarrow> read_byte memory p = read_byte (m_memory m) p"
proof -
  note n = plan_access_nth [OF assms(1-3)] and s = plan_access_same [OF assms(3)]
  have st: "store i = Inr (plan ! i)" if "i < 32" for i using n(2) [OF that] by (simp add: assms(4))
  show "virtual_word Store m frame memory (trap_pc trap) \<and>
        virtual_word Store m (frame + 8) memory (c_status (m_csr m)) \<and>
        virtual_word Store m (frame + 16) memory (encode_cause_word (trap_cause trap) (trap_subcode trap)) \<and>
        virtual_word Store m (frame + 24) memory (trap_aux trap)" if "inj_on store {..<32}"
  proof -
    have "distinct plan" using that n(1) st by (auto simp: distinct_conv_nth inj_on_def)
    note r = read_push_frame [OF this n(1), of m2 trap]
    note v = planned_virtual_word [OF assms(1-3), where x = "push_frame plan trap m2"]
    from v [of 0] v [of 8] v [of 16] v [of 24] r n(3) s show ?thesis unfolding memory_def by simp
  qed
  show "read_byte memory p = read_byte (m_memory m) p" if p: "\<forall>i < 32. store i \<noteq> Inr p"
  proof -
    have "p \<notin> set plan" using p st n(1) by (auto simp: in_set_conv_nth)
    from push_frame_miss [OF this n(1)] n(3) s show ?thesis unfolding memory_def by simp
  qed
qed

lemma delivered_csr:
  assumes "wf_csr c" and "c' = machine_enter_supervisor (machine_set_trap_stack (c_trap_stack c - trap_frame_kBytes) c)"
  shows "privilege c' = Supervisor \<and> \<not> interrupts_enabled c' \<and>
         c' = c\<lparr>c_trap_stack := c_trap_stack c - trap_frame_kBytes, c_status := c_status c'\<rparr>"
  using wf_csr_set_trap_stack(1) [OF assms(1)]
  by (simp add: assms(2)) (simp add: machine_enter_supervisor_def machine_set_trap_stack_def)

section \<open>Properties\<close>

text \<open>C18: Planning an access that does not run past the top of the address space is all or nothing
  and blames the lowest byte. It yields the physical addresses exactly when every byte translates
  and is populated. Otherwise: if some byte does not translate, and every byte that does is populated,
  the trap is the one of the lowest address the access cannot reach, and a page fault carries that
  address; if all bytes translate, it is a physical-memory fault carrying the lowest unpopulated
  physical address. Nothing in the machine changes but the translation cache.\<close>

theorem plan_access_decides:
  assumes "wf_machine m" and "tlb_ok m" and "plan_access a n kind lvl m = (v, m')"
    and "unat a + n \<le> 2 ^ 64"
    and "tr = (\<lambda>i. translate_spec (m_memory m) (c_paging_root (m_csr m)) lvl kind (a + of_nat i))"
    and "(\<forall>i < n. \<exists>p. tr i = Inr p) \<or> (\<forall>i < n. \<forall>p. tr i = Inr p \<longrightarrow> accessible (m_memory m) p)"
  shows "(case v of
            Inr plan \<Rightarrow> map tr [0..<n] = map Inr plan \<and> (\<forall>p \<in> set plan. accessible (m_memory m) p)
          | Inl trap \<Rightarrow>
              if \<forall>i < n. \<exists>p. tr i = Inr p
              then \<exists>plan. map tr [0..<n] = map Inr plan \<and>
                     {p \<in> set plan. \<not> accessible (m_memory m) p} \<noteq> {} \<and>
                     trap = no_trap\<lparr>trap_cause := cause_kPhysicalMemoryFault,
                                    trap_aux := Min {p \<in> set plan. \<not> accessible (m_memory m) p}\<rparr>
              else \<exists>i < n. tr i = Inl trap \<and>
                     (\<forall>j < n. reaches kind lvl m (a + of_nat j) \<or> a + of_nat i \<le> a + of_nat j) \<and>
                     (trap_cause trap = cause_kPhysicalMemoryFault \<or>
                      trap_cause trap = page_fault_cause kind \<and> trap_aux trap = a + of_nat i)) \<and>
         m' = m\<lparr>m_translator := m_translator m'\<rparr>"
proof -
  have f: "m' = m\<lparr>m_translator := m_translator m'\<rparr>" using plan_access_translator [OF assms(3)] by auto
  show ?thesis
  proof (cases "spec_all (translate_spec (m_memory m) (c_paging_root (m_csr m)) lvl kind)
      (map (\<lambda>i. a + of_nat i) [0..<n])")
    case (Inl trap)
    from first_refused_lowest [OF this assms(4-6)] f show ?thesis
      unfolding plan_access_value [OF assms(1-3)] Inl by auto
  next
    case (Inr ps)
    then have m: "map tr [0..<n] = map Inr ps" by (simp add: spec_all_Inr comp_def assms(5))
    then have all: "\<forall>i < n. \<exists>p. tr i = Inr p"
      by (metis (no_types, lifting) add_0 diff_zero length_map length_upt nth_map nth_upt)
    show ?thesis
    proof (cases "lowest_inaccessible (m_memory m) ps")
      case None
      with plan_access_value [OF assms(1-3)] Inr m f show ?thesis by (simp add: lowest_inaccessible_None)
    next
      case (Some l)
      then have "{p \<in> set ps. \<not> accessible (m_memory m) p} \<noteq> {}"
        "l = Min {p \<in> set ps. \<not> accessible (m_memory m) p}"
        by (auto simp: lowest_inaccessible_Min Let_def split: if_splits)
      with plan_access_value [OF assms(1-3)] Inr Some m all f show ?thesis by (auto intro!: exI [of _ ps])
    qed
  qed
qed

theorem plan_access_decides_witness:
  "fst (plan_access 6 4 Store Supervisor (new_interpreter (new_memory 8) 0)) =
     Inl (no_trap\<lparr>trap_cause := cause_kPhysicalMemoryFault, trap_aux := 8\<rparr>) \<and>
   m_memory (snd (plan_access 6 4 Store Supervisor (new_interpreter (new_memory 8) 0))) = new_memory 8"
proof -
  let ?m = "new_interpreter (new_memory 8) 0"
  have t: "tlb_ok ?m" by (simp add: tlb_ok_def new_interpreter_def reset_csr_def)
  have "fst (plan_access 6 4 Store Supervisor ?m) =
     Inl (no_trap\<lparr>trap_cause := cause_kPhysicalMemoryFault, trap_aux := 8\<rparr>)" by code_simp
  moreover have "\<exists>p. translate_spec (m_memory ?m) (c_paging_root (m_csr ?m)) Supervisor Store a = Inr p" for a
    by (simp add: translate_spec_def new_interpreter_def reset_csr_def)
  then have "snd (plan_access 6 4 Store Supervisor ?m) =
      ?m\<lparr>m_translator := m_translator (snd (plan_access 6 4 Store Supervisor ?m))\<rparr>"
    using plan_access_decides [OF wf_new_interpreter t prod.collapse [symmetric] _ refl,
      where a = 6 and n = 4 and kind = Store and lvl = Supervisor] by simp
  then have "m_memory (snd (plan_access 6 4 Store Supervisor ?m)) = m_memory ?m" by (rule ssubst) simp
  ultimately show ?thesis by (simp add: new_interpreter_def)
qed

text \<open>C16: What a trap does, in full. Delivered: the handler is the nonzero word at entry \<open>cause\<close> of
  the vector table; the machine continues there at supervisor level with interrupts off and the trap
  stack one frame lower; the frame holds, in order, the trap's program counter, the status word from
  before, the cause word and the auxiliary word, provided its 32 bytes are distinct physical bytes;
  and no byte outside the frame and no control register but the trap stack and the status word
  changes. Halted: the entry is zero (no handler), or the entry cannot be loaded or the frame not
  stored (double fault); then the cause is recorded and memory and program counter are untouched. In
  every case no general register and no device changes. The translation cache agrees with the
  tables.\<close>

theorem trap_delivery_outcome:
  assumes "wf_machine m" and "tlb_ok m" and "deliver trap opc ipc m = (r, m')"
    and "entry = c_trap_vector_base (m_csr m) + 8 * ucast (trap_cause trap)"
    and "frame = c_trap_stack (m_csr m) - 32"
    and "store = (\<lambda>i. translate_spec (m_memory m) (c_paging_root (m_csr m)) Supervisor Store (frame + of_nat i))"
  shows "m_registers m' = m_registers m \<and> m_devices m' = m_devices m \<and> m_steps_taken m' = m_steps_taken m \<and>
         (case sr_disposition r of
            Delivered \<Rightarrow>
              virtual_word Load m entry (m_memory m) (sr_handler r) \<and> sr_handler r \<noteq> 0 \<and>
              m_pc m' = sr_handler r \<and> level m' = Supervisor \<and> \<not> interrupts_enabled (m_csr m') \<and>
              m_halted m' = m_halted m \<and>
              m_csr m' = (m_csr m)\<lparr>c_trap_stack := frame, c_status := c_status (m_csr m')\<rparr> \<and>
              (inj_on store {..<32} \<longrightarrow>
                 virtual_word Store m frame (m_memory m') (trap_pc trap) \<and>
                 virtual_word Store m (frame + 8) (m_memory m') (c_status (m_csr m)) \<and>
                 virtual_word Store m (frame + 16) (m_memory m')
                   (encode_cause_word (trap_cause trap) (trap_subcode trap)) \<and>
                 virtual_word Store m (frame + 24) (m_memory m') (trap_aux trap)) \<and>
              (\<forall>p. (\<forall>i < 32. store i \<noteq> Inr p) \<longrightarrow> read_byte (m_memory m') p = read_byte (m_memory m) p)
          | HaltedNoHandler \<Rightarrow>
              virtual_word Load m entry (m_memory m) 0 \<and>
              m_halted m' \<and> m_memory m' = m_memory m \<and> m_pc m' = m_pc m \<and>
              m_csr m' = (m_csr m)\<lparr>c_halt_cause := encode_halt_cause 1 (trap_cause trap) (trap_subcode trap)\<rparr>
          | HaltedDoubleFault \<Rightarrow>
              ((\<exists>i < 8. \<not> reaches Load Supervisor m (entry + of_nat i)) \<or>
               (\<exists>i < 32. \<not> reaches Store Supervisor m (frame + of_nat i))) \<and>
              m_halted m' \<and> m_memory m' = m_memory m \<and> m_pc m' = m_pc m \<and>
              m_csr m' = (m_csr m)\<lparr>c_halt_cause := encode_halt_cause 2 (trap_cause trap) (trap_subcode trap)\<rparr>
          | NoDisposition \<Rightarrow> False)"
proof -
  have e: "vector_entry trap m = entry"
    by (simp add: vector_entry_def entry_address_def assms(4) mult.commute)
  have fr: "c_trap_stack (m_csr m) - trap_frame_kBytes = frame" by (simp add: assms(5))
  show ?thesis
    using assms(3)
  proof (cases rule: deliver_split)
    case (halted t kind)
    have "virtual_word Load m entry (m_memory m) 0" if d: "sr_disposition r = HaltedNoHandler"
    proof -
      from halted(7) [OF d] obtain vplan m1 where
        p: "plan_access entry 8 Load Supervisor m = (Inr vplan, m1)" and z: "read_planned vplan 0 8 m1 = 0"
        unfolding e by blast
      from planned_virtual_word [OF assms(1,2) p, of 0 m1] z plan_access_same [OF p] show ?thesis by simp
    qed
    moreover have "(\<exists>i < 8. \<not> reaches Load Supervisor m (entry + of_nat i)) \<or>
        (\<exists>i < 32. \<not> reaches Store Supervisor m (frame + of_nat i))" if d: "sr_disposition r = HaltedDoubleFault"
      by (rule double_fault_cause [OF assms(1,2) halted(8) [OF d, unfolded e fr]])
    ultimately show ?thesis
      using halted by (auto simp: delivery_halt_def machine_record_halt_def)
  next
    case (delivered vplan plan m1 m2)
    note d = delivered(1) [unfolded e] delivered(4) [unfolded fr]
    note s1 = plan_access_same [OF d(1)] and s2 = plan_access_same [OF d(2)]
    note frame = frame_words [OF wf_plan_access [OF d(1) assms(1)] plan_access_spec(1) [OF assms(1,2) d(1)] d(2),
        where store = store and trap = trap]
    have v: "virtual_word Store m1 = virtual_word Store m" using s1 by (simp add: virtual_word_def fun_eq_iff)
    have h: "virtual_word Load m entry (m_memory m) (sr_handler r)"
      using planned_virtual_word [OF assms(1,2) d(1), of 0 m1] s1 delivered(2) by simp
    have mem: "m_memory m' = m_memory (push_frame plan trap m2)"
      by (simp add: delivered(5) delivery_entry_def)
    have "m_csr m' = machine_enter_supervisor (machine_set_trap_stack (c_trap_stack (m_csr m) - trap_frame_kBytes) (m_csr m))"
      using s1 s2 by (simp add: delivered(5) delivery_entry_def)
    note c = delivered_csr [OF wf_machine_parts(2) [OF assms(1)] this, unfolded fr]
    have "m_registers m' = m_registers m \<and> m_devices m' = m_devices m \<and>
        m_steps_taken m' = m_steps_taken m \<and> m_halted m' = m_halted m \<and> m_pc m' = sr_handler r"
      using s1 s2 by (simp add: delivered(5))
    with h c frame s1 show ?thesis
      unfolding mem v by (simp add: delivered(3,6) assms(6))
  qed
qed

definition tiny_machine :: InterpreterV2 where
  "tiny_machine =
     (new_interpreter \<lparr>mem_bytes = [0x40] @ replicate 47 0\<rparr> 8)
       \<lparr>m_csr := reset_csr\<lparr>c_trap_stack := 48, c_status := 4\<rparr>\<rparr>"

definition tiny_trap :: TrapV2 where
  "tiny_trap = \<lparr>trap_cause = 0, trap_subcode = 3, trap_aux = 7, trap_pc = 0x1122334455667788\<rparr>"

lemma wf_tiny_machine: "wf_machine tiny_machine"
proof -
  have "wf_csr (reset_csr\<lparr>c_trap_stack := 48, c_status := 4\<rparr>)" by code_simp
  then show ?thesis by (simp add: tiny_machine_def wf_machine_updates)
qed

lemma tiny_fields:
  "c_trap_vector_base (m_csr tiny_machine) = 0" "c_trap_stack (m_csr tiny_machine) = 48"
  "c_paging_root (m_csr tiny_machine) = 0" "c_status (m_csr tiny_machine) = 4"
  by (simp_all add: tiny_machine_def reset_csr_def new_interpreter_def)

lemma tiny_delivered:
  "sr_disposition (fst (deliver tiny_trap 0 0 tiny_machine)) = Delivered"
  "sr_handler (fst (deliver tiny_trap 0 0 tiny_machine)) = 0x40"
proof -
  have e: "plan_access 0 8 Load Supervisor tiny_machine = (Inr (map of_nat [0..<8]), tiny_machine)" by code_simp
  have h: "read_planned (map of_nat [0..<8]) 0 8 tiny_machine = 0x40" by code_simp
  have f: "plan_access 16 32 Store Supervisor tiny_machine = (Inr (map (\<lambda>i. 16 + of_nat i) [0..<32]), tiny_machine)"
    by code_simp
  show "sr_disposition (fst (deliver tiny_trap 0 0 tiny_machine)) = Delivered"
    "sr_handler (fst (deliver tiny_trap 0 0 tiny_machine)) = 0x40"
    by (simp_all add: deliver_def read_raw_named tiny_fields entry_address_def tiny_trap_def e h f Let_def del: upt_Suc)
qed

theorem trap_delivery_outcome_witness:
  "let out = deliver tiny_trap 0 0 tiny_machine
   in m_pc (snd out) = 0x40 \<and> level tiny_machine = User \<and> level (snd out) = Supervisor \<and>
      virtual_word Load tiny_machine 0 (m_memory tiny_machine) 0x40 \<and>
      virtual_word Store tiny_machine 16 (m_memory (snd out)) 0x1122334455667788 \<and>
      virtual_word Store tiny_machine 24 (m_memory (snd out)) 4 \<and>
      virtual_word Store tiny_machine 40 (m_memory (snd out)) 7"
proof -
  have t: "tlb_ok tiny_machine" by (simp add: tlb_ok_def tiny_fields)
  have l: "level tiny_machine = User" by (simp add: privilege_def privilege_of_bits_def tiny_fields)
  have i: "inj_on (\<lambda>i. translate_spec (m_memory tiny_machine) (c_paging_root (m_csr tiny_machine)) Supervisor Store
      (16 + of_nat i)) {..<32}"
    by (simp add: tiny_fields translate_spec_def inj_on_def of_nat_inj_64)
  from trap_delivery_outcome [OF wf_tiny_machine t prod.collapse [symmetric] refl refl refl,
      where trap = tiny_trap and opc = 0 and ipc = 0] i l
  show ?thesis
    by (simp add: tiny_delivered tiny_fields Let_def) (simp add: tiny_trap_def)
qed

text \<open>C6: Returning from a trap undoes its delivery. If the handler returns at once, the
  interrupted program counter is back, every control register including the status word and the
  trap stack is what it was, and so are the general registers and the devices. The frame must
  occupy distinct physical bytes and must not be where the page tables are; both hold whenever
  translation is off.\<close>

theorem trap_return_inverts_delivery:
  assumes "wf_machine m" and "tlb_ok m" and "deliver trap opc ipc m = (r, m1)"
    and "sr_disposition r = Delivered"
    and "c_paging_root (m_csr m) AND paging_root_kModeMask = paging_root_kModeBare \<or>
         (\<forall>kind va tr.
            walk_table sv48_kLevels (m_memory m1) kind va tr (c_paging_root (m_csr m) AND pte_kAddressMask) =
            walk_table sv48_kLevels (m_memory m) kind va tr (c_paging_root (m_csr m) AND pte_kAddressMask))"
    and "inj_on (\<lambda>i. translate_spec (m_memory m) (c_paging_root (m_csr m)) Supervisor Store
                     (c_trap_stack (m_csr m) - trap_frame_kBytes + of_nat i)) {..<32}"
    and "execute_trap_return decoded m1 = (r', m2)"
  shows "sr_status r' = Advanced \<and> m_pc m2 = trap_pc trap \<and> m_csr m2 = m_csr m \<and>
         m_registers m2 = m_registers m \<and> m_devices m2 = m_devices m"
  using assms(3)
proof (cases rule: deliver_split)
  case (halted t kind)
  with assms(4) show ?thesis by auto
next
  case (delivered vplan plan n1 n2)
  let ?frame = "c_trap_stack (m_csr m) - trap_frame_kBytes"
  note s1 = plan_access_same [OF delivered(1)] and s2 = plan_access_same [OF delivered(4)]
  have w1: "wf_machine n1" and t1: "tlb_ok n1"
    using wf_plan_access [OF delivered(1) assms(1)] plan_access_spec(1) [OF assms(1,2) delivered(1)] by blast+
  have w2: "wf_machine n2" and t2: "tlb_ok n2"
    using wf_plan_access [OF delivered(4) w1] plan_access_spec(1) [OF w1 t1 delivered(4)] by blast+
  have k: "tables_kept n1 m1" using assms(5) s1 by (simp add: tables_kept_def)
  have dist: "distinct plan" using plan_distinct [OF w1 t1 delivered(4)] assms(6) s1 by simp
  note len = plan_access_nth(1) [OF w1 t1 delivered(4)] and acc = plan_access_nth(3) [OF w1 t1 delivered(4)]
  have csr: "m_csr m1 = machine_enter_supervisor (machine_set_trap_stack ?frame (m_csr m))"
    using s1 s2 by (simp add: delivered(5) delivery_entry_def)
  have wf3: "wf_machine m1" using w2 by (simp add: delivered(5) wf_delivery_entry)
  have f3: "c_paging_root (m_csr m1) = c_paging_root (m_csr n1)" "c_trap_stack (m_csr m1) = ?frame"
    "m_translator m1 = m_translator n2"
    using s1 by (simp_all add: csr machine_enter_supervisor_def machine_set_trap_stack_def)
      (simp add: delivered(5) delivery_entry_def)
  have lvl3: "level m1 = Supervisor"
    unfolding csr by (intro privilege_enter_supervisor wf_csr_set_trap_stack wf_machine_parts(2) assms(1))
  have mem3: "m_memory m1 = m_memory (push_frame plan trap n2)" by (simp add: delivered(5) delivery_entry_def)
  have tlb3: "tlb_ok m1" by (rule tables_kept_tlb_ok [OF t2 _ _ k f3(3,1)]) (use s2 in simp_all)
  obtain v n4 where v: "plan_access ?frame 32 Load Supervisor m1 = (v, n4)"
    by (cases "plan_access ?frame 32 Load Supervisor m1")
  note s4 = plan_access_same [OF v]
  have "v = Inr plan"
    using replan_load [OF w1 t1 delivered(4) wf3 tlb3 k f3(1)] v s2 by (simp add: mem3 push_frame_def)
  moreover have "read_planned plan 0 8 n4 = trap_pc trap" "read_planned plan 8 8 n4 = c_status (m_csr m)"
    using read_push_frame(1,2) [OF dist len, of n2 trap] acc s1 s2 s4 by (simp_all add: read_planned_def mem3)
  moreover have "status_value_is_acceptable (c_status (m_csr m))"
    using assms(1) by (intro wf_csr_status wf_machine_parts(2))
  ultimately have "execute_trap_return decoded m1 =
      branch_to decoded (trap_pc trap)
        (n4\<lparr>m_csr := machine_set_trap_stack (?frame + trap_frame_kBytes)
                       (machine_write_status (c_status (m_csr m)) (m_csr m1))\<rparr>)"
    using v s4 by (simp add: execute_trap_return_def read_raw_named f3(2) lvl3 Let_def)
  moreover have "machine_set_trap_stack (?frame + trap_frame_kBytes)
      (machine_write_status (c_status (m_csr m)) (m_csr m1)) = m_csr m"
    by (simp add: csr machine_set_trap_stack_def machine_write_status_def machine_enter_supervisor_def)
  ultimately show ?thesis
    using assms(7) s1 s2 s4 by (auto simp: branch_to_def step_result_def delivered(5))
qed

theorem trap_return_inverts_delivery_witness:
  "let m1 = snd (deliver tiny_trap 0 0 tiny_machine);
       d = \<lparr>d_opcode = op_kTrapReturn, d_pc = 0x40, d_next_pc = 0x41, d_length = 1, d_operand_count = 0,
            d_reg = [0, 0, 0, 0], d_form = [0, 0, 0, 0], d_immediate_count = 0, d_immediate = [0, 0],
            d_immediate_bytes = [0, 0]\<rparr>
   in m_pc (snd (execute_trap_return d m1)) = 0x1122334455667788 \<and>
      m_csr (snd (execute_trap_return d m1)) = m_csr tiny_machine"
proof -
  have t: "tlb_ok tiny_machine" by (simp add: tlb_ok_def tiny_fields)
  have b: "c_paging_root (m_csr tiny_machine) AND paging_root_kModeMask = paging_root_kModeBare \<or>
         (\<forall>kind va tr. walk_table sv48_kLevels (m_memory (snd (deliver tiny_trap 0 0 tiny_machine))) kind va tr
              (c_paging_root (m_csr tiny_machine) AND pte_kAddressMask) =
            walk_table sv48_kLevels (m_memory tiny_machine) kind va tr
              (c_paging_root (m_csr tiny_machine) AND pte_kAddressMask))"
    by (simp add: tiny_fields)
  have i: "inj_on (\<lambda>i. translate_spec (m_memory tiny_machine) (c_paging_root (m_csr tiny_machine)) Supervisor Store
                     (c_trap_stack (m_csr tiny_machine) - trap_frame_kBytes + of_nat i)) {..<32}"
    by (simp add: tiny_fields translate_spec_def inj_on_def of_nat_inj_64)
  from trap_return_inverts_delivery [OF wf_tiny_machine t prod.collapse [symmetric] tiny_delivered(1) b i
      prod.collapse [symmetric]]
  show ?thesis unfolding Let_def by (simp add: tiny_trap_def)
qed

text \<open>C30: Waiting for an interrupt always ends, and this is all it does. If an enabled cause is
  pending once the device lines are sampled, no time passes; otherwise the clock jumps to the next
  device event, if one is scheduled, and the lines are sampled again. The wait completes with the next
  instruction if an enabled cause is then pending, and otherwise suspends at the waiting instruction
  with nothing scheduled. The pending bits of the eight external causes mirror the device lines, and
  nothing else of the machine changes: not memory, registers, the console, the other pending bits or
  control registers, the translation cache, the step count or the halt flag.\<close>

theorem wait_for_interrupt_ends:
  assumes "wf_machine m" and "execute_wait_for_interrupt decoded m = (r, m')"
  shows "m_devices m' =
           (if lowest_pending_and_enabled (m_csr (sample_device_interrupts m)) \<noteq> kNoCause then m_devices m
            else case nanoseconds_until_next_device_event (m_devices m) of
                   None \<Rightarrow> m_devices m
                 | Some delay \<Rightarrow> advance_time delay (m_devices m)) \<and>
         (if lowest_pending_and_enabled (m_csr m') \<noteq> kNoCause
          then r = step_result Advanced (d_opcode decoded) (d_pc decoded) \<and> m_pc m' = d_next_pc decoded
          else r = step_result Suspended (d_opcode decoded) (d_pc decoded) \<and> m_pc m' = m_pc m \<and>
               nanoseconds_until_next_device_event (m_devices m') = None) \<and>
         (\<forall>k < kCauseCount. pending (m_csr m') k \<longleftrightarrow>
            (if 32 \<le> k \<and> k < 40 then bit (asserted_interrupt_lines (m_devices m')) (k - 32)
             else pending (m_csr m) k)) \<and>
         (m_csr m')\<lparr>c_interrupt_pending := c_interrupt_pending (m_csr m)\<rparr> = m_csr m \<and>
         ds_console (m_devices m') = ds_console (m_devices m) \<and>
         m' = m\<lparr>m_devices := m_devices m', m_csr := m_csr m', m_pc := m_pc m'\<rparr>"
  using wait_outcome [OF assms] by blast

theorem wait_for_interrupt_ends_witness:
  "let t = (port_write timer_hooks (port_write timer_hooks new_timer timer_offset_kPeriod 2500)
             timer_offset_kMode 1)\<lparr>dev_interrupt_enabled := True\<rparr>;
       m = (new_interpreter (new_memory 4) 0)
             \<lparr>m_devices := new_devices\<lparr>ds_timer := t\<rparr>,
              m_csr := reset_csr\<lparr>c_interrupt_enable := [0x800000000, 0, 0, 0]\<rparr>\<rparr>;
       d = \<lparr>d_opcode = op_kWaitForInterrupt, d_pc = 0, d_next_pc = 1, d_length = 1, d_operand_count = 0,
            d_reg = [0, 0, 0, 0], d_form = [0, 0, 0, 0], d_immediate_count = 0, d_immediate = [0, 0],
            d_immediate_bytes = [0, 0]\<rparr>;
       m' = snd (execute_wait_for_interrupt d m)
   in m_devices m' = advance_time 2500 (m_devices m) \<and> pending (m_csr m') 35 \<and>
      m_memory m' = new_memory 4"
proof -
  let ?t = "(port_write timer_hooks (port_write timer_hooks new_timer timer_offset_kPeriod 2500)
             timer_offset_kMode 1)\<lparr>dev_interrupt_enabled := True\<rparr>"
  let ?c = "reset_csr\<lparr>c_interrupt_enable := [0x800000000, 0, 0, 0]\<rparr>"
  let ?m = "(new_interpreter (new_memory 4) 0)\<lparr>m_devices := new_devices\<lparr>ds_timer := ?t\<rparr>, m_csr := ?c\<rparr>"
  have "wf_devices (new_devices\<lparr>ds_timer := ?t\<rparr>)" "wf_csr ?c" by code_simp+
  then have w: "wf_machine ?m" by (simp add: wf_machine_updates)
  have n: "lowest_pending_and_enabled (m_csr (sample_device_interrupts ?m)) = kNoCause" by code_simp
  have e: "nanoseconds_until_next_device_event (m_devices ?m) = Some 2500" by code_simp
  have b: "bit (asserted_interrupt_lines (advance_time 2500 (m_devices ?m))) 3" by code_simp
  note all = wait_for_interrupt_ends [OF w prod.collapse [symmetric]]
  have d: "m_devices (snd (execute_wait_for_interrupt d ?m)) = advance_time 2500 (m_devices ?m)" for d
    using all [of d] unfolding n e by simp
  moreover have "pending (m_csr (snd (execute_wait_for_interrupt d ?m))) 35" for d
  proof -
    have "pending (m_csr (snd (execute_wait_for_interrupt d ?m))) 35 \<longleftrightarrow>
        bit (asserted_interrupt_lines (m_devices (snd (execute_wait_for_interrupt d ?m)))) 3"
      using all [of d] by auto
    then show ?thesis unfolding d using b by simp
  qed
  moreover have "m_memory (snd (execute_wait_for_interrupt d ?m)) = m_memory ?m" for d
    using all [of d] by (metis (no_types, lifting) InterpreterV2.select_convs(1) InterpreterV2.surjective
        InterpreterV2.update_convs(3,4,6))
  ultimately show ?thesis unfolding Let_def by (simp add: new_interpreter_def)
qed

text \<open>An instance: a console with a waiting byte and its interrupt enabled.\<close>

theorem sampling_mirrors_lines_witness:
  "let m = (new_interpreter (new_memory 4) 0)
             \<lparr>m_devices := new_devices\<lparr>ds_console := (host_push_input new_console 0x41)
                                         \<lparr>dev_interrupt_enabled := True\<rparr>\<rparr>\<rparr>
   in pending (m_csr (sample_device_interrupts m)) 33"
proof -
  let ?d = "new_devices\<lparr>ds_console := (host_push_input new_console 0x41)\<lparr>dev_interrupt_enabled := True\<rparr>\<rparr>"
  let ?m = "(new_interpreter (new_memory 4) 0)\<lparr>m_devices := ?d\<rparr>"
  have "wf_devices ?d" by code_simp
  then have w: "wf_machine ?m" by (simp add: wf_machine_updates)
  have "bit (asserted_interrupt_lines ?d) 1" by code_simp
  with sampling_mirrors_lines [OF w, of 33] show ?thesis by (simp add: Let_def)
qed

end
