(* ===== verification/Block.thy ===== *)
theory Block
  imports Machine
begin

text \<open>
  The block-memory instructions, \<^verbatim>\<open>execute_block\<close> of \<^verbatim>\<open>src/v2/interpreter_v2.cpp\<close>: a byte loop
  that may fault or be interrupted between bytes, and that then leaves its operand registers so that
  the instruction restarts. A loop ends early with a step result or runs out with the machine; the
  number of bytes left is its structural argument.
\<close>

section \<open>The loops\<close>

abbreviation (input) kBlockInterruptCheckBytes :: u64 where
  "kBlockInterruptCheckBytes \<equiv> 64"

definition block_mid_operation_interrupt :: "u64 \<Rightarrow> InterpreterV2 \<Rightarrow> nat \<times> InterpreterV2" where
  "block_mid_operation_interrupt transferred m =
     (if transferred = 0 \<or> transferred mod kBlockInterruptCheckBytes \<noteq> 0 then (kNoCause, m)
      else let m = m\<lparr>m_devices := advance_time kNanosecondsPerInstruction (m_devices m)\<rparr>;
               m = sample_device_interrupts m
           in (deliverable_interrupt m, m))"

fun block_set_loop :: "nat \<Rightarrow> DecodedV2 \<Rightarrow> u8 \<Rightarrow> u64 \<Rightarrow> u64 \<Rightarrow> u64 \<Rightarrow> InterpreterV2
    \<Rightarrow> (StepResult \<times> InterpreterV2) + InterpreterV2" where
  "block_set_loop 0 decoded fill destination count i m = Inr m"
| "block_set_loop (Suc left) decoded fill destination count i m =
     (let slot1 = d_reg decoded ! 1; slot2 = d_reg decoded ! 2; address = destination + i
      in case plan_byte address Store m of
           (Inl access_trap, m) \<Rightarrow>
             let m = set_register slot1 address m; m = set_register slot2 (count - i) m
             in Inl (raise_trap decoded (trap_cause access_trap) (trap_subcode access_trap)
                       (trap_aux access_trap) m)
         | (Inr physical, m) \<Rightarrow>
             let m = m\<lparr>m_memory := write_byte (m_memory m) physical fill\<rparr>
             in case block_mid_operation_interrupt (i + 1) m of
                  (interrupt, m) \<Rightarrow>
                    if interrupt \<noteq> kNoCause
                    then let m = set_register slot1 (address + 1) m;
                             m = set_register slot2 (count - (i + 1)) m
                         in Inl (deliver_interrupt interrupt (d_pc decoded) m)
                    else block_set_loop left decoded fill destination count (i + 1) m)"

text \<open>The two translations of one copied byte: the destination is planned only when the source
  is reachable.\<close>

definition plan_copy :: "u64 \<Rightarrow> u64 \<Rightarrow> InterpreterV2 \<Rightarrow> (TrapV2 + u64 \<times> u64) \<times> InterpreterV2" where
  "plan_copy from to m =
     (case plan_byte from Load m of
        (Inl access_trap, m) \<Rightarrow> (Inl access_trap, m)
      | (Inr from_physical, m) \<Rightarrow>
          (case plan_byte to Store m of
             (Inl access_trap, m) \<Rightarrow> (Inl access_trap, m)
           | (Inr to_physical, m) \<Rightarrow> (Inr (from_physical, to_physical), m)))"

definition copy_byte :: "u64 \<Rightarrow> u64 \<Rightarrow> InterpreterV2 \<Rightarrow> InterpreterV2" where
  "copy_byte from_physical to_physical m =
     m\<lparr>m_memory := write_byte (m_memory m) to_physical (read_byte (m_memory m) from_physical)\<rparr>"

fun block_copy_ascending :: "nat \<Rightarrow> DecodedV2 \<Rightarrow> u64 \<Rightarrow> u64 \<Rightarrow> u64 \<Rightarrow> u64 \<Rightarrow> InterpreterV2
    \<Rightarrow> (StepResult \<times> InterpreterV2) + InterpreterV2" where
  "block_copy_ascending 0 decoded source destination count i m = Inr m"
| "block_copy_ascending (Suc left) decoded source destination count i m =
     (let slot0 = d_reg decoded ! 0; slot1 = d_reg decoded ! 1; slot2 = d_reg decoded ! 2;
          from = source + i; to = destination + i
      in case plan_copy from to m of
           (Inl access_trap, m) \<Rightarrow>
             let m = set_register slot0 from m; m = set_register slot1 to m;
                 m = set_register slot2 (count - i) m
             in Inl (raise_trap decoded (trap_cause access_trap) (trap_subcode access_trap)
                       (trap_aux access_trap) m)
         | (Inr (from_physical, to_physical), m) \<Rightarrow>
             let m = copy_byte from_physical to_physical m
             in case block_mid_operation_interrupt (i + 1) m of
                  (interrupt, m) \<Rightarrow>
                    if interrupt \<noteq> kNoCause
                    then let m = set_register slot0 (from + 1) m; m = set_register slot1 (to + 1) m;
                             m = set_register slot2 (count - (i + 1)) m
                         in Inl (deliver_interrupt interrupt (d_pc decoded) m)
                    else block_copy_ascending left decoded source destination count (i + 1) m)"

text \<open>The descending loop tests \<open>i\<close> and then decrements it, so its body runs with \<open>i - 1\<close>.\<close>

fun block_copy_descending :: "nat \<Rightarrow> DecodedV2 \<Rightarrow> u64 \<Rightarrow> u64 \<Rightarrow> u64 \<Rightarrow> u64 \<Rightarrow> InterpreterV2
    \<Rightarrow> (StepResult \<times> InterpreterV2) + InterpreterV2" where
  "block_copy_descending 0 decoded source destination count i m = Inr m"
| "block_copy_descending (Suc left) decoded source destination count i m =
     (let slot2 = d_reg decoded ! 2; i = i - 1; from = source + i; to = destination + i
      in case plan_copy from to m of
           (Inl access_trap, m) \<Rightarrow>
             let m = set_register slot2 (i + 1) m
             in Inl (raise_trap decoded (trap_cause access_trap) (trap_subcode access_trap)
                       (trap_aux access_trap) m)
         | (Inr (from_physical, to_physical), m) \<Rightarrow>
             let m = copy_byte from_physical to_physical m
             in case block_mid_operation_interrupt (count - i) m of
                  (interrupt, m) \<Rightarrow>
                    if interrupt \<noteq> kNoCause
                    then let m = set_register slot2 i m
                         in Inl (deliver_interrupt interrupt (d_pc decoded) m)
                    else block_copy_descending left decoded source destination count i m)"

section \<open>The instruction\<close>

definition copies_descending :: "u8 \<Rightarrow> u64 \<Rightarrow> u64 \<Rightarrow> u64 \<Rightarrow> bool" where
  "copies_descending opcode source destination count =
     (let offset = destination - source
      in opcode = op_kBlockCopy \<and> offset \<noteq> 0 \<and> offset < count)"

definition execute_block :: "DecodedV2 \<Rightarrow> InterpreterV2 \<Rightarrow> StepResult \<times> InterpreterV2" where
  "execute_block decoded m =
     (let is_set = (d_opcode decoded = op_kBlockSet);
          slot0 = d_reg decoded ! 0; slot1 = d_reg decoded ! 1; slot2 = d_reg decoded ! 2;
          slot0_carries_state = (\<not> is_set)
      in if slot0_carries_state \<and> slot0 = 0 \<or> slot1 = 0 \<or> slot2 = 0 then
           let offending = (if slot0_carries_state \<and> slot0 = 0 then 0 else if slot1 = 0 then 1 else (2 :: nat))
           in raise_trap decoded cause_kIllegalOperand subcode_kBlockMemoryOperands
                (of_nat (d_reg decoded ! offending)) m
         else
           let aliased = (if slot1 = slot0 then 1 else if slot2 = slot0 \<or> slot2 = slot1 then 2 else (4 :: nat))
           in if aliased \<noteq> 4 then
                raise_trap decoded cause_kIllegalOperand subcode_kBlockMemoryOperands
                  (of_nat (d_reg decoded ! aliased)) m
              else
                let count = get_register slot2 m
                in if count = 0 then advance decoded m
                   else if is_set then
                     let fill = ucast (get_register slot0 m); destination = get_register slot1 m
                     in case block_set_loop (unat count) decoded fill destination count 0 m of
                          Inl out \<Rightarrow> out
                        | Inr m \<Rightarrow>
                            let m = set_register slot1 (destination + count) m;
                                m = set_register slot2 0 m
                            in advance decoded m
                   else
                     let source = get_register slot0 m; destination = get_register slot1 m
                     in case (if \<not> copies_descending (d_opcode decoded) source destination count
                              then block_copy_ascending (unat count) decoded source destination count 0 m
                              else block_copy_descending (unat count) decoded source destination count count m) of
                          Inl out \<Rightarrow> out
                        | Inr m \<Rightarrow>
                            let m = set_register slot0 (source + count) m;
                                m = set_register slot1 (destination + count) m;
                                m = set_register slot2 0 m
                            in advance decoded m)"

section \<open>What a loop may touch\<close>

text \<open>
  Between two bytes the loops change memory, the translation cache, the clock and the pending bits,
  and the operand registers on the way out. Everything else of the machine is carried along.
\<close>

definition carried :: "InterpreterV2 \<Rightarrow> InterpreterV2 \<Rightarrow> bool" where
  "carried m m' \<longleftrightarrow>
     wf_machine m' \<and> m_pc m' = m_pc m \<and> m_steps_taken m' = m_steps_taken m \<and> m_halted m' = m_halted m \<and>
     mem_size (m_memory m') = mem_size (m_memory m) \<and> but_pending (m_csr m') = but_pending (m_csr m) \<and>
     ds_console (m_devices m') = ds_console (m_devices m)"

lemma carried_refl: "wf_machine m \<Longrightarrow> carried m m"
  by (simp add: carried_def)

lemma carried_trans: "carried m m' \<Longrightarrow> carried m' m'' \<Longrightarrow> carried m m''"
  by (simp add: carried_def)

lemma carried_wf: "carried m m' \<Longrightarrow> wf_machine m'"
  by (simp add: carried_def)

lemma carried_set_register [simp]: "carried m (set_register n v m') = carried m m'"
  by (simp add: carried_def)

lemma carried_write_byte [simp]:
  "carried m (m'\<lparr>m_memory := write_byte (m_memory m') a v\<rparr>) = carried m m'"
  by (simp add: carried_def)

lemma carried_copy_byte [simp]: "carried m (copy_byte a b m') = carried m m'"
  by (simp add: copy_byte_def)

lemma registers_copy_byte [simp]: "m_registers (copy_byte a b m) = m_registers m"
  by (simp add: copy_byte_def)

lemma plan_byte_carried:
  assumes "wf_machine m" and "plan_byte a kind m = (v, m1)"
  shows "carried m m1" and "m_registers m1 = m_registers m" and "m_memory m1 = m_memory m"
    and "m_csr m1 = m_csr m" and "m_devices m1 = m_devices m"
proof -
  obtain w where p: "plan_access a 1 kind (level m) m = (w, m1)"
    using assms(2) by (auto simp: plan_byte_def split: prod.splits sum.splits)
  from wf_plan_access [OF p assms(1)] plan_access_same [OF p]
  show "carried m m1" "m_registers m1 = m_registers m" "m_memory m1 = m_memory m"
    "m_csr m1 = m_csr m" "m_devices m1 = m_devices m"
    by (simp_all add: carried_def)
qed

lemma plan_copy_carried:
  assumes "wf_machine m" and "plan_copy a b m = (v, m1)"
  shows "carried m m1" and "m_registers m1 = m_registers m"
proof -
  obtain v1 n1 where 1: "plan_byte a Load m = (v1, n1)" by (cases "plan_byte a Load m")
  note c1 = plan_byte_carried(1,2) [OF assms(1) 1]
  obtain v2 n2 where 2: "plan_byte b Store n1 = (v2, n2)" by (cases "plan_byte b Store n1")
  note c2 = plan_byte_carried(1,2) [OF carried_wf [OF c1(1)] 2]
  have "m1 = n1 \<or> m1 = n2" using assms(2) 1 2 by (auto simp: plan_copy_def split: sum.splits)
  then show "carried m m1" "m_registers m1 = m_registers m"
    using c1 c2 carried_trans by auto
qed

lemma mid_interrupt_carried:
  assumes "wf_machine m" and "block_mid_operation_interrupt k m = (n, m1)"
  shows "carried m m1" and "m_registers m1 = m_registers m" and "m_memory m1 = m_memory m"
    and "m_translator m1 = m_translator m"
proof -
  let ?a = "m\<lparr>m_devices := advance_time kNanosecondsPerInstruction (m_devices m)\<rparr>"
  have a: "wf_machine ?a" using assms(1) by (simp add: wf_machine_def)
  have "carried m (sample_device_interrupts ?a)"
    using wf_sample [OF a] sample_lines_props(2) [OF wf_machine_parts(2) [OF a]]
    by (simp add: carried_def advance_time_def) (simp add: sample_device_interrupts_def)
  moreover have "m1 = m \<or> m1 = sample_device_interrupts ?a"
    using assms(2) by (auto simp: block_mid_operation_interrupt_def Let_def split: if_splits)
  ultimately show "carried m m1" "m_registers m1 = m_registers m" "m_memory m1 = m_memory m"
    "m_translator m1 = m_translator m"
    using assms(1) by (auto simp: carried_refl)
qed

text \<open>An early exit is a trap delivery from such a machine, naming the block instruction itself,
  with at most the three operand registers moved.\<close>

definition block_exit :: "DecodedV2 \<Rightarrow> InterpreterV2 \<Rightarrow> StepResult \<times> InterpreterV2 \<Rightarrow> bool" where
  "block_exit d m out \<longleftrightarrow>
     (\<exists>trap opc m1. out = deliver trap opc (d_pc d) m1 \<and> trap_pc trap = d_pc d \<and> carried m m1 \<and>
        (\<forall>k. k \<notin> {d_reg d ! 0, d_reg d ! 1, d_reg d ! 2} \<longrightarrow> get_register k m1 = get_register k m))"

lemma block_exit_raise:
  assumes "carried m m1"
    and "\<And>k. k \<notin> {d_reg d ! 0, d_reg d ! 1, d_reg d ! 2} \<Longrightarrow> get_register k m1 = get_register k m"
  shows "block_exit d m (raise_trap d c s a m1)"
  unfolding block_exit_def raise_trap_def
  by (intro exI conjI) (rule refl, simp, rule assms(1), simp add: assms(2))

lemma wf_csr_clear_pending: "wf_csr c \<Longrightarrow> wf_csr (machine_clear_pending n c)"
  by (simp add: wf_csr_def machine_clear_pending_def)

lemma block_exit_interrupt:
  assumes "carried m m1"
    and "\<And>k. k \<notin> {d_reg d ! 0, d_reg d ! 1, d_reg d ! 2} \<Longrightarrow> get_register k m1 = get_register k m"
  shows "block_exit d m (deliver_interrupt n (d_pc d) m1)"
  unfolding block_exit_def deliver_interrupt_def Let_def
proof (intro exI conjI)
  show "carried m (m1\<lparr>m_csr := machine_clear_pending n (m_csr m1)\<rparr>)"
    using assms(1) by (simp add: carried_def wf_machine_def)
qed (use assms(2) in auto)

lemma block_exit_trans:
  "carried m m1 \<Longrightarrow> m_registers m1 = m_registers m \<Longrightarrow> block_exit d m1 out \<Longrightarrow> block_exit d m out"
  unfolding block_exit_def using carried_trans by fastforce

definition loop_outcome :: "DecodedV2 \<Rightarrow> InterpreterV2 \<Rightarrow> (StepResult \<times> InterpreterV2) + InterpreterV2 \<Rightarrow> bool" where
  "loop_outcome d m res \<longleftrightarrow>
     (case res of Inl out \<Rightarrow> block_exit d m out | Inr m' \<Rightarrow> carried m m' \<and> m_registers m' = m_registers m)"

lemma loop_outcome_trans:
  assumes "carried m m1" and "m_registers m1 = m_registers m" and "loop_outcome d m1 res"
  shows "loop_outcome d m res"
  using assms carried_trans [OF assms(1)] block_exit_trans [OF assms(1,2)]
  by (auto simp: loop_outcome_def split: sum.splits)

text \<open>One iteration after a byte has moved: the interrupt check, then the exit or the rest.\<close>

lemma loop_outcome_check:
  assumes "wf_machine m" and "carried m m1" and "m_registers m1 = m_registers m"
    and "\<And>n m2. carried m m2 \<Longrightarrow> m_registers m2 = m_registers m \<Longrightarrow>
           block_exit d m (deliver_interrupt n (d_pc d) (upd m2))"
    and "\<And>m2. wf_machine m2 \<Longrightarrow> loop_outcome d m2 (rest m2)"
  shows "loop_outcome d m (case block_mid_operation_interrupt k m1 of
           (interrupt, m2) \<Rightarrow> if interrupt \<noteq> kNoCause then Inl (deliver_interrupt interrupt (d_pc d) (upd m2))
                              else rest m2)"
proof -
  obtain n m2 where i: "block_mid_operation_interrupt k m1 = (n, m2)"
    by (cases "block_mid_operation_interrupt k m1")
  from mid_interrupt_carried [OF carried_wf [OF assms(2)] i] assms(2,3)
  have c: "carried m m2" and r: "m_registers m2 = m_registers m" using carried_trans by auto
  show ?thesis
  proof (cases "n = kNoCause")
    case True
    with i loop_outcome_trans [OF c r assms(5) [OF carried_wf [OF c]]] show ?thesis by simp
  next
    case False
    with i assms(4) [OF c r] show ?thesis by (simp add: loop_outcome_def)
  qed
qed

lemma block_set_outcome: "wf_machine m \<Longrightarrow> loop_outcome d m (block_set_loop left d fill dst c i m)"
proof (induction left arbitrary: i m)
  case (Suc left)
  obtain v m1 where p: "plan_byte (dst + i) Store m = (v, m1)" by (cases "plan_byte (dst + i) Store m")
  note c = plan_byte_carried(1,2) [OF Suc.prems p]
  show ?case
  proof (cases v)
    case (Inl trap)
    with p c show ?thesis
      by (simp add: Let_def loop_outcome_def) (rule block_exit_raise, simp_all)
  next
    case (Inr physical)
    show ?thesis unfolding block_set_loop.simps Let_def p Inr sum.case prod.case
      by (rule loop_outcome_check, rule Suc.prems, simp add: c, simp add: c, rule block_exit_interrupt)
        (simp_all add: Suc.IH)
  qed
qed (simp add: loop_outcome_def carried_refl)

lemma block_copy_ascending_outcome:
  "wf_machine m \<Longrightarrow> loop_outcome d m (block_copy_ascending left d src dst c i m)"
proof (induction left arbitrary: i m)
  case (Suc left)
  obtain v m1 where p: "plan_copy (src + i) (dst + i) m = (v, m1)" by (cases "plan_copy (src + i) (dst + i) m")
  note c = plan_copy_carried [OF Suc.prems p]
  show ?case
  proof (cases v)
    case (Inl trap)
    with p c show ?thesis
      by (simp add: Let_def loop_outcome_def) (rule block_exit_raise, simp_all)
  next
    case (Inr pp)
    show ?thesis unfolding block_copy_ascending.simps Let_def p Inr prod.case sum.case
      unfolding case_prod_beta [of _ pp]
      by (rule loop_outcome_check, rule Suc.prems, simp add: c, simp add: c, rule block_exit_interrupt)
        (simp_all add: Suc.IH)
  qed
qed (simp add: loop_outcome_def carried_refl)

lemma block_copy_descending_outcome:
  "wf_machine m \<Longrightarrow> loop_outcome d m (block_copy_descending left d src dst c i m)"
proof (induction left arbitrary: i m)
  case (Suc left)
  obtain v m1 where p: "plan_copy (src + (i - 1)) (dst + (i - 1)) m = (v, m1)"
    by (cases "plan_copy (src + (i - 1)) (dst + (i - 1)) m")
  note c = plan_copy_carried [OF Suc.prems p]
  show ?case
  proof (cases v)
    case (Inl trap)
    with p c show ?thesis
      by (simp add: Let_def loop_outcome_def) (rule block_exit_raise, simp_all)
  next
    case (Inr pp)
    show ?thesis unfolding block_copy_descending.simps Let_def p Inr prod.case sum.case
      unfolding case_prod_beta [of _ pp]
      by (rule loop_outcome_check, rule Suc.prems, simp add: c, simp add: c, rule block_exit_interrupt)
        (simp_all add: Suc.IH)
  qed
qed (simp add: loop_outcome_def carried_refl)

section \<open>How the instruction ends\<close>

text \<open>The block instruction completes at the next instruction, or exits early.\<close>

definition block_done :: "DecodedV2 \<Rightarrow> InterpreterV2 \<Rightarrow> StepResult \<times> InterpreterV2 \<Rightarrow> bool" where
  "block_done d m out \<longleftrightarrow>
     (\<exists>m1. out = advance d m1 \<and> carried m m1 \<and>
        (\<forall>k. k \<notin> {d_reg d ! 0, d_reg d ! 1, d_reg d ! 2} \<longrightarrow> get_register k m1 = get_register k m))"

lemma block_doneI:
  assumes "carried m m1"
    and "\<And>k. k \<notin> {d_reg d ! 0, d_reg d ! 1, d_reg d ! 2} \<Longrightarrow> get_register k m1 = get_register k m"
  shows "block_done d m (advance d m1)"
  unfolding block_done_def using assms by blast

definition block_ends :: "DecodedV2 \<Rightarrow> InterpreterV2 \<Rightarrow> StepResult \<times> InterpreterV2 \<Rightarrow> bool" where
  "block_ends d m out \<longleftrightarrow> block_done d m out \<or> block_exit d m out"

lemma block_ends_if: "block_ends d m x \<Longrightarrow> block_ends d m y \<Longrightarrow> block_ends d m (if b then x else y)"
  by simp

lemma loop_outcome_if: "loop_outcome d m x \<Longrightarrow> loop_outcome d m y \<Longrightarrow> loop_outcome d m (if b then x else y)"
  by simp

lemma block_ends_finish:
  assumes "loop_outcome d m res"
    and "\<And>m1. carried m m1 \<Longrightarrow> m_registers m1 = m_registers m \<Longrightarrow> block_done d m (fin m1)"
  shows "block_ends d m (case res of Inl out \<Rightarrow> out | Inr m1 \<Rightarrow> fin m1)"
  using assms by (auto simp: block_ends_def loop_outcome_def split: sum.splits)

lemma execute_block_ends:
  assumes "wf_machine m"
  shows "block_ends d m (execute_block d m)"
proof -
  have raises: "block_ends d m (raise_trap d c s a m)" for c s a
    unfolding block_ends_def
    by (intro disjI2 block_exit_raise) (use assms in \<open>simp_all add: carried_refl\<close>)
  have done0: "block_ends d m (advance d m)"
    unfolding block_ends_def
    by (intro disjI1 block_doneI) (use assms in \<open>simp_all add: carried_refl\<close>)
  have set_done: "block_done d m (advance d (set_register (d_reg d ! 2) 0 (set_register (d_reg d ! 1) v m1)))"
    if "carried m m1" "m_registers m1 = m_registers m" for v m1
    by (rule block_doneI) (use that in simp_all)
  have copy_done: "block_done d m (advance d (set_register (d_reg d ! 2) 0
      (set_register (d_reg d ! 1) v (set_register (d_reg d ! 0) u m1))))"
    if "carried m m1" "m_registers m1 = m_registers m" for u v m1
    by (rule block_doneI) (use that in simp_all)
  show ?thesis
    unfolding execute_block_def Let_def
    by (intro block_ends_if raises done0 block_ends_finish loop_outcome_if set_done copy_done
        block_set_outcome block_copy_ascending_outcome block_copy_descending_outcome assms)
qed

section \<open>The memory effect of the loops\<close>

text \<open>
  With translation off and interrupts disabled a byte is reached at its own address and no check
  ends a loop, so a loop over populated addresses is a fold over memory.
\<close>

definition quiet :: "InterpreterV2 \<Rightarrow> bool" where
  "quiet m \<longleftrightarrow> wf_machine m \<and> \<not> interrupts_enabled (m_csr m) \<and>
     c_paging_root (m_csr m) AND paging_root_kModeMask = paging_root_kModeBare"

lemma quiet_carried: "quiet m \<Longrightarrow> carried m m' \<Longrightarrow> quiet m'"
  unfolding quiet_def carried_def
  using but_pending_fields(1,4) [of "m_csr m'" "m_csr m"] by (auto simp: interrupts_enabled_def)

lemma plan_byte_quiet:
  assumes "quiet m" and "accessible (m_memory m) a"
  shows "plan_byte a kind m = (Inr a, m)"
  using assms
  by (simp add: plan_byte_def plan_access_def Let_def quiet_def read_raw_named translate_def lowest_inaccessible_def)

lemma plan_copy_quiet:
  "quiet m \<Longrightarrow> accessible (m_memory m) a \<Longrightarrow> accessible (m_memory m) b \<Longrightarrow>
   plan_copy a b m = (Inr (a, b), m)"
  by (simp add: plan_copy_def plan_byte_quiet)

lemma mid_interrupt_quiet:
  assumes "quiet m" and "block_mid_operation_interrupt k m = (n, m1)"
  shows "n = kNoCause"
proof -
  have w: "wf_machine m" using assms(1) by (simp add: quiet_def)
  have "quiet m1" using quiet_carried [OF assms(1) mid_interrupt_carried(1) [OF w assms(2)]] .
  with assms(2) show ?thesis
    by (auto simp: block_mid_operation_interrupt_def deliverable_interrupt_def quiet_def Let_def split: if_splits)
qed

definition set_bytes :: "u64 \<Rightarrow> u8 \<Rightarrow> nat list \<Rightarrow> MemoryV2 \<Rightarrow> MemoryV2" where
  "set_bytes dst fill = fold (\<lambda>k mem. write_byte mem (dst + of_nat k) fill)"

definition copy_bytes :: "u64 \<Rightarrow> u64 \<Rightarrow> nat list \<Rightarrow> MemoryV2 \<Rightarrow> MemoryV2" where
  "copy_bytes src dst = fold (\<lambda>k mem. write_byte mem (dst + of_nat k) (read_byte mem (src + of_nat k)))"

lemma accessible_copy_bytes [simp]: "accessible (copy_bytes src dst ks mem) a = accessible mem a"
  unfolding copy_bytes_def by (induction ks arbitrary: mem) simp_all

text \<open>One quiet iteration: the check neither ends the loop nor touches memory.\<close>

lemma quiet_iteration:
  assumes "quiet m"
  obtains m1 where "block_mid_operation_interrupt k m = (kNoCause, m1)" "quiet m1"
    "carried m m1" "m_registers m1 = m_registers m" "m_memory m1 = m_memory m"
proof -
  obtain n m1 where i: "block_mid_operation_interrupt k m = (n, m1)"
    by (cases "block_mid_operation_interrupt k m")
  have w: "wf_machine m" using assms by (simp add: quiet_def)
  note c = mid_interrupt_carried [OF w i]
  from that i mid_interrupt_quiet [OF assms i] quiet_carried [OF assms c(1)] c show ?thesis by blast
qed

lemma block_set_quiet:
  assumes "quiet m" and "\<forall>k. k0 \<le> k \<and> k < k0 + left \<longrightarrow> accessible (m_memory m) (dst + of_nat k)"
  shows "\<exists>m'. block_set_loop left d fill dst c (of_nat k0) m = Inr m' \<and> carried m m' \<and>
              m_registers m' = m_registers m \<and>
              m_memory m' = set_bytes dst fill [k0..<k0 + left] (m_memory m)"
  using assms
proof (induction left arbitrary: k0 m)
  case 0
  then show ?case by (simp add: set_bytes_def carried_refl quiet_def)
next
  case (Suc left)
  define mw where "mw = m\<lparr>m_memory := write_byte (m_memory m) (dst + of_nat k0) fill\<rparr>"
  have cw: "carried m mw" using Suc.prems(1) by (simp add: mw_def carried_refl quiet_def)
  obtain m1 where i: "block_mid_operation_interrupt (of_nat k0 + 1) mw = (kNoCause, m1)"
    and q: "quiet m1" and c1: "carried mw m1"
    and r: "m_registers m1 = m_registers mw" and mem: "m_memory m1 = m_memory mw"
    using quiet_iteration [OF quiet_carried [OF Suc.prems(1) cw]] by blast
  have u: "[k0..<k0 + Suc left] = k0 # [Suc k0..<Suc k0 + left]" by (simp add: upt_rec)
  have p: "plan_byte (dst + of_nat k0) Store m = (Inr (dst + of_nat k0), m)"
    using Suc.prems by (intro plan_byte_quiet) auto
  have e: "block_set_loop (Suc left) d fill dst c (of_nat k0) m =
      block_set_loop left d fill dst c (of_nat (Suc k0)) m1"
    using i p by (simp add: Let_def mw_def [symmetric] add.commute)
  have "\<forall>k. Suc k0 \<le> k \<and> k < Suc k0 + left \<longrightarrow> accessible (m_memory m1) (dst + of_nat k)"
    using Suc.prems(2) by (simp add: mem mw_def)
  from Suc.IH [OF q this] carried_trans [OF carried_trans [OF cw c1]] show ?case
    unfolding e u by (auto simp: set_bytes_def mem mw_def r)
qed

lemma block_copy_ascending_quiet:
  assumes "quiet m"
    and "\<forall>k. k0 \<le> k \<and> k < k0 + left \<longrightarrow>
           accessible (m_memory m) (src + of_nat k) \<and> accessible (m_memory m) (dst + of_nat k)"
  shows "\<exists>m'. block_copy_ascending left d src dst c (of_nat k0) m = Inr m' \<and> carried m m' \<and>
              m_registers m' = m_registers m \<and>
              m_memory m' = copy_bytes src dst [k0..<k0 + left] (m_memory m)"
  using assms
proof (induction left arbitrary: k0 m)
  case 0
  then show ?case by (simp add: copy_bytes_def carried_refl quiet_def)
next
  case (Suc left)
  define mw where "mw = copy_byte (src + of_nat k0) (dst + of_nat k0) m"
  have cw: "carried m mw" using Suc.prems(1) by (simp add: mw_def carried_refl quiet_def)
  obtain m1 where i: "block_mid_operation_interrupt (of_nat k0 + 1) mw = (kNoCause, m1)"
    and q: "quiet m1" and c1: "carried mw m1"
    and r: "m_registers m1 = m_registers mw" and mem: "m_memory m1 = m_memory mw"
    using quiet_iteration [OF quiet_carried [OF Suc.prems(1) cw]] by blast
  have u: "[k0..<k0 + Suc left] = k0 # [Suc k0..<Suc k0 + left]" by (simp add: upt_rec)
  have p: "plan_copy (src + of_nat k0) (dst + of_nat k0) m = (Inr (src + of_nat k0, dst + of_nat k0), m)"
    using Suc.prems by (intro plan_copy_quiet) auto
  have e: "block_copy_ascending (Suc left) d src dst c (of_nat k0) m =
      block_copy_ascending left d src dst c (of_nat (Suc k0)) m1"
    using i p by (simp add: Let_def mw_def [symmetric] add.commute)
  have "\<forall>k. Suc k0 \<le> k \<and> k < Suc k0 + left \<longrightarrow>
      accessible (m_memory m1) (src + of_nat k) \<and> accessible (m_memory m1) (dst + of_nat k)"
    using Suc.prems(2) by (simp add: mem mw_def copy_byte_def)
  from Suc.IH [OF q this] carried_trans [OF carried_trans [OF cw c1]] show ?case
    unfolding e u by (auto simp: copy_bytes_def mem mw_def r copy_byte_def)
qed

lemma block_copy_descending_quiet:
  assumes "quiet m"
    and "\<forall>k < left. accessible (m_memory m) (src + of_nat k) \<and> accessible (m_memory m) (dst + of_nat k)"
  shows "\<exists>m'. block_copy_descending left d src dst c (of_nat left) m = Inr m' \<and> carried m m' \<and>
              m_registers m' = m_registers m \<and>
              m_memory m' = copy_bytes src dst (rev [0..<left]) (m_memory m)"
  using assms
proof (induction left arbitrary: m)
  case 0
  then show ?case by (simp add: copy_bytes_def carried_refl quiet_def)
next
  case (Suc left)
  define mw where "mw = copy_byte (src + of_nat left) (dst + of_nat left) m"
  have cw: "carried m mw" using Suc.prems(1) by (simp add: mw_def carried_refl quiet_def)
  obtain m1 where i: "block_mid_operation_interrupt (c - of_nat left) mw = (kNoCause, m1)"
    and q: "quiet m1" and c1: "carried mw m1"
    and r: "m_registers m1 = m_registers mw" and mem: "m_memory m1 = m_memory mw"
    using quiet_iteration [OF quiet_carried [OF Suc.prems(1) cw]] by blast
  have p: "plan_copy (src + of_nat left) (dst + of_nat left) m = (Inr (src + of_nat left, dst + of_nat left), m)"
    using Suc.prems by (intro plan_copy_quiet) auto
  have e: "block_copy_descending (Suc left) d src dst c (of_nat (Suc left)) m =
      block_copy_descending left d src dst c (of_nat left) m1"
    using i p by (simp add: Let_def mw_def [symmetric])
  have "\<forall>k < left. accessible (m_memory m1) (src + of_nat k) \<and> accessible (m_memory m1) (dst + of_nat k)"
    using Suc.prems(2) by (simp add: mem mw_def copy_byte_def)
  from Suc.IH [OF q this] carried_trans [OF carried_trans [OF cw c1]] show ?case
    unfolding e by (auto simp: copy_bytes_def mem mw_def r copy_byte_def)
qed

text \<open>
  What the folds leave at an address. In the ascending order a source byte that the loop has already
  overwritten reads as the byte one period \<open>dst - src\<close> earlier; in the descending order no source
  byte of a forward overlap is overwritten before it is read.
\<close>

lemma index_eq:
  assumes "n < 2 ^ 64"
  shows "(dst :: u64) + of_nat n = x \<longleftrightarrow> unat (x - dst) = n"
proof
  assume "unat (x - dst) = n"
  then have "of_nat n = x - dst" by auto
  then show "dst + of_nat n = x" by simp
qed (use assms in \<open>auto simp: unat_of_nat_64\<close>)

lemma read_set_bytes:
  assumes "n \<le> 2 ^ 64" and "\<forall>k < n. accessible mem (dst + of_nat k)"
  shows "read_byte (set_bytes dst fill [0..<n] mem) x =
           (if unat (x - dst) < n then fill else read_byte mem x)"
  using assms
proof (induction n)
  case 0
  then show ?case by (simp add: set_bytes_def)
next
  case (Suc n)
  define mem' where "mem' = set_bytes dst fill [0..<n] mem"
  have s: "set_bytes dst fill [0..<Suc n] mem = write_byte mem' (dst + of_nat n) fill"
    by (simp add: set_bytes_def mem'_def)
  have "accessible mem' a = accessible mem a" for a
    unfolding mem'_def set_bytes_def by (induction n) simp_all
  with Suc.prems have a: "accessible mem' (dst + of_nat n)" by simp
  show ?case
    unfolding s read_write_byte [OF a] using Suc by (auto simp: index_eq mem'_def less_Suc_eq)
qed

lemma read_copy_ascending:
  assumes "n \<le> 2 ^ 64" and "\<forall>k < n. accessible mem (dst + of_nat k)"
  shows "read_byte (copy_bytes src dst [0..<n] mem) x =
           (if unat (x - dst) < n then read_byte mem (src + (x - dst) mod (dst - src)) else read_byte mem x)"
  using assms
proof (induction n arbitrary: x)
  case 0
  then show ?case by (simp add: copy_bytes_def)
next
  case (Suc n)
  define mem' where "mem' = copy_bytes src dst [0..<n] mem"
  define off where "off = dst - src"
  let ?n = "of_nat n :: u64"
  have e: "src + ?n - dst = ?n - off" by (simp add: off_def)
  have lt: "unat off < 2 ^ 64" using unsigned_less [of off] by simp
  have s: "copy_bytes src dst [0..<Suc n] mem =
      write_byte mem' (dst + ?n) (read_byte mem' (src + ?n))"
    by (simp add: copy_bytes_def mem'_def)
  have a: "accessible mem' (dst + ?n)" using Suc.prems by (simp add: mem'_def)
  have ih: "read_byte mem' y =
      (if unat (y - dst) < n then read_byte mem (src + (y - dst) mod off) else read_byte mem y)" for y
    using Suc by (simp add: mem'_def off_def)
  have un: "unat ?n = n" using Suc.prems(1) by (simp add: unat_of_nat_64)
  have "read_byte mem' (src + ?n) = read_byte mem (src + ?n mod off)"
  proof (cases "off = 0 \<or> ?n < off")
    case True
    then have "?n mod off = ?n"
      by (auto simp: word_unat_eq_iff unat_mod word_less_nat_alt)
    moreover have "\<not> unat (src + ?n - dst) < n"
    proof -
      have "\<not> ?n - off < ?n" using True lt by (auto simp: word_less_nat_alt unat_sub_if' un)
      then show ?thesis by (simp add: word_less_nat_alt un e)
    qed
    ultimately show ?thesis by (simp add: ih)
  next
    case False
    have "unat (?n - off) < n" using False unat_gt_0 [of off] by (simp add: unat_sub_if' un word_less_nat_alt)
    moreover have "(?n - off) mod off = ?n mod off"
      using False by (simp add: word_unat_eq_iff unat_mod unat_sub_if' un word_less_nat_alt mod_if [of n])
    ultimately show ?thesis unfolding ih e by simp
  qed
  with Suc.prems(1) show ?case
    unfolding s read_write_byte [OF a] by (auto simp: index_eq ih less_Suc_eq un off_def)
qed

lemma read_copy_descending:
  assumes "j \<le> n" and "n + unat (dst - src) \<le> 2 ^ 64" and "\<forall>k < n. accessible mem (dst + of_nat k)"
    and "src \<noteq> dst"
  shows "read_byte (copy_bytes src dst (rev [j..<n]) mem) x =
           (if j \<le> unat (x - dst) \<and> unat (x - dst) < n then read_byte mem (src + (x - dst))
            else read_byte mem x)"
  using assms(1)
proof (induction j arbitrary: x rule: inc_induct)
  case base
  then show ?case by (auto simp: copy_bytes_def)
next
  case (step j)
  define off where "off = dst - src"
  define mem' where "mem' = copy_bytes src dst (rev [Suc j..<n]) mem"
  let ?j = "of_nat j :: u64"
  have s: "copy_bytes src dst (rev [j..<n]) mem = write_byte mem' (dst + ?j) (read_byte mem' (src + ?j))"
    using step.hyps by (simp add: upt_conv_Cons copy_bytes_def mem'_def)
  have a: "accessible mem' (dst + ?j)" using assms(3) step.hyps by (simp add: mem'_def)
  have off: "0 < unat off" "n + unat off \<le> 2 ^ 64" using assms(2,4) by (auto simp: off_def unat_gt_0)
  then have un: "unat ?j = j" and lt: "j < 2 ^ 64" using step.hyps by (auto simp: unat_of_nat_64)
  have e: "src + ?j - dst = ?j - off" by (simp add: off_def)
  have "\<not> (Suc j \<le> unat (src + ?j - dst) \<and> unat (src + ?j - dst) < n)"
    unfolding e using off by (auto simp: unat_sub_if' un)
  then have "read_byte mem' (src + ?j) = read_byte mem (src + ?j)" unfolding mem'_def step.IH by (rule if_not_P)
  moreover have "Suc j \<le> unat (x - dst) \<longleftrightarrow> j \<le> unat (x - dst)" if "dst + ?j \<noteq> x"
    using that lt by (auto simp: index_eq)
  ultimately show ?case
    unfolding s read_write_byte [OF a] using step.hyps un by (auto simp: mem'_def step.IH)
qed

section \<open>Properties\<close>

text \<open>The registers after a completed transfer: the named ones as given, all others as before.\<close>

lemma read_three_writes:
  assumes "wf_registers r" and "a < 32" "b < 32" "c < 32" and "distinct [0, a, b, c]"
  shows "read_reg (write_reg (write_reg (write_reg r a x) b y) c z) k =
           (if k = a then x else if k = b then y else if k = c then z else read_reg r k)"
  using assms by (auto simp: read_write_reg)

lemma read_two_writes:
  assumes "wf_registers r" and "b < 32" "c < 32" and "distinct [0, b, c]"
  shows "read_reg (write_reg (write_reg r b y) c z) k =
           (if k = b then y else if k = c then z else read_reg r k)"
  using assms by (auto simp: read_write_reg)

lemma execute_block_copy_quiet:
  assumes "quiet m" and "d_opcode d \<noteq> op_kBlockSet" and "distinct [0, d_reg d ! 0, d_reg d ! 1, d_reg d ! 2]"
    and "d_reg d ! 0 < 32" "d_reg d ! 1 < 32" "d_reg d ! 2 < 32"
    and "src = get_register (d_reg d ! 0) m" and "dst = get_register (d_reg d ! 1) m"
    and "count = get_register (d_reg d ! 2) m"
    and "\<forall>k < unat count. accessible (m_memory m) (src + of_nat k) \<and> accessible (m_memory m) (dst + of_nat k)"
    and "execute_block d m = (r, m')"
  shows "sr_status r = Advanced \<and> m_pc m' = d_next_pc d \<and>
         m_memory m' = copy_bytes src dst
           (if copies_descending (d_opcode d) src dst count then rev [0..<unat count] else [0..<unat count])
           (m_memory m) \<and>
         (\<forall>k. get_register k m' =
            (if k = d_reg d ! 0 then src + count else if k = d_reg d ! 1 then dst + count
             else if k = d_reg d ! 2 then 0 else get_register k m))"
proof -
  have w: "wf_registers (m_registers m)" using assms(1) by (simp add: quiet_def wf_machine_def)
  let ?down = "copies_descending (d_opcode d) src dst count"
  let ?loop = "if \<not> ?down then block_copy_ascending (unat count) d src dst count 0 m
               else block_copy_descending (unat count) d src dst count count m"
  have "\<exists>m1. ?loop = Inr m1 \<and> m_registers m1 = m_registers m \<and>
      m_memory m1 = copy_bytes src dst (if ?down then rev [0..<unat count] else [0..<unat count]) (m_memory m)"
    using block_copy_ascending_quiet [OF assms(1), of 0 "unat count" src dst d count]
      block_copy_descending_quiet [OF assms(1), of "unat count" src dst d count] assms(10)
    by auto
  then obtain m1 where l: "?loop = Inr m1" and r1: "m_registers m1 = m_registers m"
    and mem: "m_memory m1 =
      copy_bytes src dst (if ?down then rev [0..<unat count] else [0..<unat count]) (m_memory m)"
    by blast
  show ?thesis
  proof (cases "count = 0")
    case True
    then have "execute_block d m = advance d m"
      using assms(2,3,9) by (simp add: execute_block_def Let_def)
    with assms(7-9,11) True show ?thesis
      by (auto simp: advance_def step_result_def copy_bytes_def copies_descending_def)
  next
    case False
    then have "execute_block d m =
        (case ?loop of Inl out \<Rightarrow> out
         | Inr m1 \<Rightarrow> advance d (set_register (d_reg d ! 2) 0 (set_register (d_reg d ! 1) (dst + count)
             (set_register (d_reg d ! 0) (src + count) m1))))"
      using assms(2,3) unfolding execute_block_def Let_def assms(7-9) by simp
    also have "\<dots> = advance d (set_register (d_reg d ! 2) 0 (set_register (d_reg d ! 1) (dst + count)
             (set_register (d_reg d ! 0) (src + count) m1)))"
      by (simp only: l sum.case)
    finally show ?thesis
      using assms(3-6,11) w by (auto simp: advance_def step_result_def mem r1 read_three_writes)
  qed
qed

text \<open>C7: A block copy is a memmove. Assume translation is off and interrupts are disabled, every
  byte of both ranges is populated, the three operand registers are distinct and none is register
  zero, and the count is at most 2 to the 63 (above that a range can overlap itself from both sides).
  Then the instruction completes, the destination range holds the bytes the source range had before,
  however the two ranges overlap, and no other byte changes. The two pointer registers have advanced
  by the count, the count register is zero and every other register is as before.\<close>

theorem block_copy_is_memmove:
  assumes "quiet m" and "d_opcode d = op_kBlockCopy" and "distinct [0, d_reg d ! 0, d_reg d ! 1, d_reg d ! 2]"
    and "d_reg d ! 0 < 32" "d_reg d ! 1 < 32" "d_reg d ! 2 < 32"
    and "src = get_register (d_reg d ! 0) m" and "dst = get_register (d_reg d ! 1) m"
    and "count = get_register (d_reg d ! 2) m" and "unat count \<le> 2 ^ 63"
    and "\<forall>k < unat count. accessible (m_memory m) (src + of_nat k) \<and> accessible (m_memory m) (dst + of_nat k)"
    and "execute_block d m = (r, m')"
  shows "sr_status r = Advanced \<and> m_pc m' = d_next_pc d \<and>
         (\<forall>x. read_byte (m_memory m') x =
            (if unat (x - dst) < unat count then read_byte (m_memory m) (src + (x - dst))
             else read_byte (m_memory m) x)) \<and>
         (\<forall>k. get_register k m' =
            (if k = d_reg d ! 0 then src + count else if k = d_reg d ! 1 then dst + count
             else if k = d_reg d ! 2 then 0 else get_register k m))"
proof -
  have ns: "d_opcode d \<noteq> op_kBlockSet" using assms(2) by simp
  note c = execute_block_copy_quiet [OF assms(1) ns assms(3-9,11,12)]
  have lt: "unat count < 2 ^ 64" using unsigned_less [of count] by simp
  have acc: "\<forall>k < unat count. accessible (m_memory m) (dst + of_nat k)" using assms(11) by blast
  have "read_byte (m_memory m') x =
      (if unat (x - dst) < unat count then read_byte (m_memory m) (src + (x - dst))
       else read_byte (m_memory m) x)" for x
  proof (cases "copies_descending (d_opcode d) src dst count")
    case True
    then have o: "dst - src \<noteq> 0" "dst - src < count" by (simp_all add: copies_descending_def Let_def)
    then have "unat count + unat (dst - src) \<le> 2 ^ 64" "src \<noteq> dst"
      using assms(10) by (auto simp: word_less_nat_alt)
    with read_copy_descending [of 0 "unat count" dst src "m_memory m" x] acc c True
    show ?thesis by simp
  next
    case False
    then have o: "dst - src = 0 \<or> count \<le> dst - src"
      using assms(2) by (auto simp: copies_descending_def Let_def)
    have "(x - dst) mod (dst - src) = x - dst" if "unat (x - dst) < unat count"
    proof -
      from that o have "dst - src = 0 \<or> unat (x - dst) < unat (dst - src)"
        by (auto simp: word_le_nat_alt)
      then show ?thesis
        using word_unat_eq_iff [of "(x - dst) mod (dst - src)" "x - dst"] by (auto simp: unat_mod)
    qed
    with read_copy_ascending [of "unat count" "m_memory m" dst src x] acc c False lt
    show ?thesis by simp
  qed
  with c show ?thesis by simp
qed

definition copy_demo :: "u8 \<Rightarrow> DecodedV2" where
  "copy_demo opcode = \<lparr>d_opcode = opcode, d_pc = 0x40, d_next_pc = 0x44, d_length = 4, d_operand_count = 3,
     d_reg = [1, 2, 3, 0], d_form = [0, 0, 0, 0], d_immediate_count = 0, d_immediate = [0, 0],
     d_immediate_bytes = [0, 0]\<rparr>"

definition block_demo :: InterpreterV2 where
  "block_demo = (new_interpreter \<lparr>mem_bytes = [1, 2, 3, 4, 5, 6, 7, 8]\<rparr> 0x40)
     \<lparr>m_registers := \<lparr>reg_file = [0, 0, 2, 4] @ replicate 28 0\<rparr>\<rparr>"

lemma quiet_block_demo: "quiet block_demo"
proof -
  have "wf_registers \<lparr>reg_file = [0, 0, 2, 4] @ replicate 28 0\<rparr>" by (simp add: wf_registers_def)
  then have "wf_machine block_demo" by (simp add: block_demo_def wf_machine_updates)
  then show ?thesis
    by (simp add: quiet_def block_demo_def new_interpreter_def reset_csr_def interrupts_enabled_def)
qed

lemma block_demo_fields:
  "get_register (Suc 0) block_demo = 0" "get_register 2 block_demo = 2" "get_register 3 block_demo = 4"
  "m_memory block_demo = \<lparr>mem_bytes = [1, 2, 3, 4, 5, 6, 7, 8]\<rparr>"
  by (simp_all add: block_demo_def read_reg_def new_interpreter_def)

lemma block_demo_accessible:
  "\<forall>k < unat (4 :: u64). accessible (m_memory block_demo) (0 + of_nat k) \<and> accessible (m_memory block_demo) (2 + of_nat k)"
proof -
  have "accessible (m_memory block_demo) (of_nat k) \<and> accessible (m_memory block_demo) (2 + of_nat k)"
    if "k = 0 \<or> k = 1 \<or> k = 2 \<or> k = 3" for k
    using that by (auto simp: block_demo_fields accessible_def)
  moreover have "k = 0 \<or> k = 1 \<or> k = 2 \<or> k = 3" if "k < 4" for k :: nat using that by linarith
  ultimately show ?thesis by simp
qed

lemma minus_one_large: "\<not> unat (- 1 :: u64) < 4"
  using word_order.extremum [of "4 :: u64"] by (simp add: word_le_nat_alt)

theorem block_copy_is_memmove_witness:
  "let m' = snd (execute_block (copy_demo op_kBlockCopy) block_demo)
   in map (read_byte (m_memory m')) [0, 1, 2, 3, 4, 5, 6, 7] = [1, 2, 1, 2, 3, 4, 7, 8] \<and>
      get_register 2 m' = 6 \<and> get_register 3 m' = 0"
proof -
  let ?d = "copy_demo op_kBlockCopy"
  note t = block_copy_is_memmove [OF quiet_block_demo, of ?d 0 2 4]
  show ?thesis
    using t [OF _ _ _ _ _ _ _ _ _ block_demo_accessible prod.collapse [symmetric]]
    by (simp add: Let_def copy_demo_def block_demo_fields minus_one_large) (simp add: read_byte_def)
qed

text \<open>C21: A forward block copy moves its bytes in ascending order. Assume translation is off and
  interrupts are disabled, every byte of both ranges is populated, and the three operand registers
  are distinct and none is register zero. Then a destination that starts inside the source range is
  filled with the repeating pattern of the bytes between the two pointers, disjoint or backward ranges
  are copied exactly, and no other byte changes. The pointer registers have advanced by the count, the
  count register is zero and every other register is as before.\<close>

theorem block_copy_forward_pattern:
  assumes "quiet m" and "d_opcode d = op_kBlockCopyForward"
    and "distinct [0, d_reg d ! 0, d_reg d ! 1, d_reg d ! 2]"
    and "d_reg d ! 0 < 32" "d_reg d ! 1 < 32" "d_reg d ! 2 < 32"
    and "src = get_register (d_reg d ! 0) m" and "dst = get_register (d_reg d ! 1) m"
    and "count = get_register (d_reg d ! 2) m"
    and "\<forall>k < unat count. accessible (m_memory m) (src + of_nat k) \<and> accessible (m_memory m) (dst + of_nat k)"
    and "execute_block d m = (r, m')"
  shows "sr_status r = Advanced \<and> m_pc m' = d_next_pc d \<and>
         (\<forall>x. read_byte (m_memory m') x =
            (if unat (x - dst) < unat count
             then read_byte (m_memory m) (src + (if dst = src then x - dst else (x - dst) mod (dst - src)))
             else read_byte (m_memory m) x)) \<and>
         (\<forall>k. get_register k m' =
            (if k = d_reg d ! 0 then src + count else if k = d_reg d ! 1 then dst + count
             else if k = d_reg d ! 2 then 0 else get_register k m))"
proof -
  have ns: "d_opcode d \<noteq> op_kBlockSet" using assms(2) by simp
  have up: "\<not> copies_descending (d_opcode d) src dst count"
    using assms(2) by (simp add: copies_descending_def Let_def)
  have lt: "unat count < 2 ^ 64" using unsigned_less [of count] by simp
  have acc: "\<forall>k < unat count. accessible (m_memory m) (dst + of_nat k)" using assms(10) by blast
  from execute_block_copy_quiet [OF assms(1) ns assms(3-11)] up lt
    read_copy_ascending [of "unat count" "m_memory m" dst src, OF _ acc]
  show ?thesis by auto
qed

theorem block_copy_forward_pattern_witness:
  "let m' = snd (execute_block (copy_demo op_kBlockCopyForward) block_demo)
   in map (read_byte (m_memory m')) [0, 1, 2, 3, 4, 5, 6, 7] = [1, 2, 1, 2, 1, 2, 7, 8] \<and>
      get_register 2 m' = 6 \<and> get_register 3 m' = 0"
proof -
  let ?d = "copy_demo op_kBlockCopyForward"
  note t = block_copy_forward_pattern [OF quiet_block_demo, of ?d 0 2 4]
  show ?thesis
    using t [OF _ _ _ _ _ _ _ _ block_demo_accessible prod.collapse [symmetric]]
    by (simp add: Let_def copy_demo_def block_demo_fields minus_one_large) (simp add: read_byte_def)
qed

text \<open>C22: A block set fills its range. Assume translation is off and interrupts are disabled, every
  byte of the range is populated, and the pointer and count registers are distinct, not register zero
  and not the fill register. Then the low byte of the fill register stands at every address of the
  range and no other byte changes. The pointer register is at the end of the range, the count register
  is zero and every other register is as before; the fill register may be register zero.\<close>

theorem block_set_fills:
  assumes "quiet m" and "d_opcode d = op_kBlockSet" and "distinct [0, d_reg d ! 1, d_reg d ! 2]"
    and "d_reg d ! 0 \<notin> {d_reg d ! 1, d_reg d ! 2}"
    and "d_reg d ! 1 < 32" "d_reg d ! 2 < 32"
    and "dst = get_register (d_reg d ! 1) m" and "count = get_register (d_reg d ! 2) m"
    and "\<forall>k < unat count. accessible (m_memory m) (dst + of_nat k)"
    and "execute_block d m = (r, m')"
  shows "sr_status r = Advanced \<and> m_pc m' = d_next_pc d \<and>
         (\<forall>x. read_byte (m_memory m') x =
            (if unat (x - dst) < unat count then ucast (get_register (d_reg d ! 0) m)
             else read_byte (m_memory m) x)) \<and>
         (\<forall>k. get_register k m' =
            (if k = d_reg d ! 1 then dst + count else if k = d_reg d ! 2 then 0 else get_register k m))"
proof -
  have w: "wf_registers (m_registers m)" using assms(1) by (simp add: quiet_def wf_machine_def)
  have lt: "unat count < 2 ^ 64" using unsigned_less [of count] by simp
  let ?fill = "ucast (get_register (d_reg d ! 0) m) :: u8"
  obtain m1 where l: "block_set_loop (unat count) d ?fill dst count 0 m = Inr m1"
    and r1: "m_registers m1 = m_registers m"
    and mem: "m_memory m1 = set_bytes dst ?fill [0..<unat count] (m_memory m)"
    using block_set_quiet [OF assms(1), of 0 "unat count" dst d ?fill count] assms(9) by auto
  show ?thesis
  proof (cases "count = 0")
    case True
    then have "execute_block d m = advance d m"
      using assms(2-4,8) by (simp add: execute_block_def Let_def)
    with assms(7,8,10) True show ?thesis by (auto simp: advance_def step_result_def)
  next
    case False
    then have "execute_block d m =
        (case block_set_loop (unat count) d ?fill dst count 0 m of Inl out \<Rightarrow> out
         | Inr m1 \<Rightarrow> advance d (set_register (d_reg d ! 2) 0 (set_register (d_reg d ! 1) (dst + count) m1)))"
      using assms(2-4) unfolding execute_block_def Let_def assms(7-8) by simp
    also have "\<dots> = advance d (set_register (d_reg d ! 2) 0 (set_register (d_reg d ! 1) (dst + count) m1))"
      by (simp only: l sum.case)
    finally show ?thesis
      using assms(3-6,9,10) w lt
      by (auto simp: advance_def step_result_def mem r1 read_two_writes read_set_bytes)
  qed
qed

theorem block_set_fills_witness:
  "let m' = snd (execute_block (copy_demo op_kBlockSet) block_demo)
   in map (read_byte (m_memory m')) [0, 1, 2, 3, 4, 5, 6, 7] = [1, 2, 0, 0, 0, 0, 7, 8] \<and>
      get_register 2 m' = 6"
proof -
  let ?d = "copy_demo op_kBlockSet"
  note t = block_set_fills [OF quiet_block_demo, of ?d 2 4]
  have a: "\<forall>k < unat (4 :: u64). accessible (m_memory block_demo) (2 + of_nat k)"
    using block_demo_accessible by blast
  show ?thesis
    using t [OF _ _ _ _ _ _ _ a prod.collapse [symmetric]]
    by (simp add: Let_def copy_demo_def block_demo_fields minus_one_large) (simp add: read_byte_def)
qed

end
