(* ===== verification/Execute.thy ===== *)
theory Execute
  imports Alu Block
begin

text \<open>
  The execute stage of \<^verbatim>\<open>src/v2/interpreter_v2.cpp\<close>. \<^verbatim>\<open>InterpreterV2::execute\<close> is a sequence of
  opcode bands, each of which returns or falls through to the next; here a band is a function that
  gives \<open>Some\<close> result or \<open>None\<close> to fall through, and \<open>execute\<close> tries them in the source's order.
  The arithmetic of a band is a function of its own from the operand values to the result, which
  the band stores in the destination register before it advances.
\<close>

type_synonym outcome = "StepResult \<times> InterpreterV2"

section \<open>Helpers\<close>

definition write_advance :: "DecodedV2 \<Rightarrow> nat \<Rightarrow> u64 \<Rightarrow> InterpreterV2 \<Rightarrow> outcome" where
  "write_advance decoded destination v m = advance decoded (set_register destination v m)"

abbreviation (input) rg :: "DecodedV2 \<Rightarrow> nat \<Rightarrow> nat" where
  "rg decoded i \<equiv> d_reg decoded ! i"

abbreviation (input) imm :: "DecodedV2 \<Rightarrow> nat \<Rightarrow> u64" where
  "imm decoded i \<equiv> d_immediate decoded ! i"

section \<open>Moves\<close>

definition move_value :: "DecodedV2 \<Rightarrow> u64 option" where
  "move_value decoded =
     (let opcode = d_opcode decoded; v = imm decoded 0
      in if opcode = op_kMoveW then Some v
         else if opcode = op_kMoveZb then Some (zero_extend v 8)
         else if opcode = op_kMoveSb then Some (sign_extend v 8)
         else if opcode = op_kMoveZq then Some (zero_extend v 16)
         else if opcode = op_kMoveSq then Some (sign_extend v 16)
         else if opcode = op_kMoveZh then Some (zero_extend v 32)
         else if opcode = op_kMoveSh then Some (sign_extend v 32)
         else if opcode = op_kPcAdd then Some (d_next_pc decoded + sign_extend v 32)
         else None)"

definition execute_moves :: "DecodedV2 \<Rightarrow> InterpreterV2 \<Rightarrow> outcome option" where
  "execute_moves decoded m =
     (if d_opcode decoded = op_kMove
      then Some (write_advance decoded (rg decoded 1) (get_register (rg decoded 0) m) m)
      else map_option (\<lambda>v. write_advance decoded (rg decoded 0) v m) (move_value decoded))"

section \<open>Integer register operations\<close>

text \<open>A result is the destination value, or the subcode of a divide error.\<close>

definition divide_signed :: "u64 \<Rightarrow> u64 \<Rightarrow> u8 + u64" where
  "divide_signed a b =
     (if b = 0 then Inl subcode_kDivideByZero
      else if a = push_bit 63 1 \<and> b = kAllOnes then Inl subcode_kQuotientOverflow
      else Inr (word_of_int (sint a sdiv sint b)))"

definition divide_signed_half :: "u32 \<Rightarrow> u32 \<Rightarrow> u8 + u64" where
  "divide_signed_half a b =
     (if b = 0 then Inl subcode_kDivideByZero
      else if a = 0x80000000 \<and> b = 0xFFFFFFFF then Inl subcode_kQuotientOverflow
      else Inr (half_result (word_of_int (sint a sdiv sint b))))"

definition divide_unsigned :: "u64 \<Rightarrow> u64 \<Rightarrow> u8 + u64" where
  "divide_unsigned a b = (if b = 0 then Inl subcode_kDivideByZero else Inr (a div b))"

definition divide_unsigned_half :: "u32 \<Rightarrow> u32 \<Rightarrow> u8 + u64" where
  "divide_unsigned_half a b = (if b = 0 then Inl subcode_kDivideByZero else Inr (half_result (a div b)))"

definition remainder_signed :: "u64 \<Rightarrow> u64 \<Rightarrow> u8 + u64" where
  "remainder_signed a b =
     (if b = 0 then Inl subcode_kDivideByZero
      else if a = push_bit 63 1 \<and> b = kAllOnes then Inr 0
      else Inr (word_of_int (sint a smod sint b)))"

definition remainder_signed_half :: "u32 \<Rightarrow> u32 \<Rightarrow> u8 + u64" where
  "remainder_signed_half a b =
     (if b = 0 then Inl subcode_kDivideByZero
      else if a = 0x80000000 \<and> b = 0xFFFFFFFF then Inr 0
      else Inr (half_result (word_of_int (sint a smod sint b))))"

definition remainder_unsigned :: "u64 \<Rightarrow> u64 \<Rightarrow> u8 + u64" where
  "remainder_unsigned a b = (if b = 0 then Inl subcode_kDivideByZero else Inr (a mod b))"

definition remainder_unsigned_half :: "u32 \<Rightarrow> u32 \<Rightarrow> u8 + u64" where
  "remainder_unsigned_half a b = (if b = 0 then Inl subcode_kDivideByZero else Inr (half_result (a mod b)))"

definition divide_value :: "u8 \<Rightarrow> u64 \<Rightarrow> u64 \<Rightarrow> (u8 + u64) option" where
  "divide_value opcode a b =
     (let a_half = (ucast (low_half a) :: u32); b_half = (ucast (low_half b) :: u32)
      in if opcode = op_kDivideSigned then Some (divide_signed a b)
         else if opcode = op_kDivideSignedH then Some (divide_signed_half a_half b_half)
         else if opcode = op_kDivideUnsigned then Some (divide_unsigned a b)
         else if opcode = op_kDivideUnsignedH then Some (divide_unsigned_half a_half b_half)
         else if opcode = op_kRemainderSigned then Some (remainder_signed a b)
         else if opcode = op_kRemainderSignedH then Some (remainder_signed_half a_half b_half)
         else if opcode = op_kRemainderUnsigned then Some (remainder_unsigned a b)
         else if opcode = op_kRemainderUnsignedH then Some (remainder_unsigned_half a_half b_half)
         else None)"

definition integer_value :: "u8 \<Rightarrow> u64 \<Rightarrow> u64 \<Rightarrow> (u8 + u64) option" where
  "integer_value opcode a b =
     (let a_half = (ucast (low_half a) :: u32); b_half = (ucast (low_half b) :: u32)
      in if opcode = op_kAdd then Some (Inr (a + b))
         else if opcode = op_kAddH then Some (Inr (half_result (a_half + b_half)))
         else if opcode = op_kSubtract then Some (Inr (a - b))
         else if opcode = op_kSubtractH then Some (Inr (half_result (a_half - b_half)))
         else if opcode = op_kMultiply then Some (Inr (a * b))
         else if opcode = op_kMultiplyH then Some (Inr (half_result (a_half * b_half)))
         else if opcode = op_kMultiplyHighSigned then Some (Inr (multiply_high_signed_value a b))
         else if opcode = op_kMultiplyHighUnsigned then Some (Inr (snd (multiply_full_unsigned a b)))
         else case divide_value opcode a b of
                Some result \<Rightarrow> Some result
              | None \<Rightarrow>
                  if opcode = op_kAnd then Some (Inr (a AND b))
                  else if opcode = op_kOr then Some (Inr (a OR b))
                  else if opcode = op_kXor then Some (Inr (a XOR b))
                  else if opcode = op_kShiftLeft then Some (Inr (push_bit (unat (b AND 63)) a))
                  else if opcode = op_kShiftLeftH then Some (Inr (half_result (push_bit (unat (b_half AND 31)) a_half)))
                  else if opcode = op_kShiftRightLogical then Some (Inr (drop_bit (unat (b AND 63)) a))
                  else if opcode = op_kShiftRightLogicalH
                    then Some (Inr (half_result (drop_bit (unat (b_half AND 31)) a_half)))
                  else if opcode = op_kShiftRightArithmetic then Some (Inr (signed_drop_bit (unat (b AND 63)) a))
                  else if opcode = op_kShiftRightArithmeticH
                    then Some (Inr (half_result (signed_drop_bit (unat (b_half AND 31)) a_half)))
                  else None)"

definition execute_integer :: "DecodedV2 \<Rightarrow> InterpreterV2 \<Rightarrow> outcome option" where
  "execute_integer decoded m =
     (let opcode = d_opcode decoded
      in if opcode \<ge> op_kAdd \<and> opcode \<le> op_kShiftRightArithmeticH then
           case integer_value opcode (get_register (rg decoded 0) m) (get_register (rg decoded 1) m) of
             Some (Inr v) \<Rightarrow> Some (write_advance decoded (rg decoded 2) v m)
           | Some (Inl subcode_number) \<Rightarrow> Some (raise_trap decoded cause_kDivideError subcode_number 0 m)
           | None \<Rightarrow> None
         else None)"

section \<open>Unary operations and carry chains\<close>

definition unary_value :: "u8 \<Rightarrow> u64 \<Rightarrow> u64 option" where
  "unary_value opcode a =
     (let a_half = (ucast (low_half a) :: u32)
      in if opcode = op_kNot then Some (NOT a)
         else if opcode = op_kNotH then Some (half_result (NOT a_half))
         else if opcode = op_kNegate then Some (0 - a)
         else if opcode = op_kNegateH then Some (half_result (0 - a_half))
         else if opcode = op_kByteReverse then Some (reverse_bytes_word a)
         else if opcode = op_kByteReverseH then Some (half_result (reverse_bytes_half a_half))
         else None)"

definition execute_unary :: "DecodedV2 \<Rightarrow> InterpreterV2 \<Rightarrow> outcome option" where
  "execute_unary decoded m =
     (let opcode = d_opcode decoded
      in if opcode \<ge> op_kNot \<and> opcode \<le> op_kByteReverseH then
           map_option (\<lambda>v. write_advance decoded (rg decoded 1) v m)
             (unary_value opcode (get_register (rg decoded 0) m))
         else None)"

definition execute_carry :: "DecodedV2 \<Rightarrow> InterpreterV2 \<Rightarrow> outcome option" where
  "execute_carry decoded m =
     (let opcode = d_opcode decoded
      in if opcode = op_kAddCarry \<or> opcode = op_kSubtractBorrow then
           let a = get_register (rg decoded 0) m; b = get_register (rg decoded 1) m;
               carry_register = rg decoded 2; destination = rg decoded 3;
               carry_in = get_register carry_register m AND 1;
               (total, carry) = (if opcode = op_kAddCarry then add_with_carry a b carry_in
                                 else subtract_with_borrow a b carry_in);
               m = set_register destination total m;
               m = set_register carry_register (if carry then 1 else 0) m
           in Some (advance decoded m)
         else None)"

section \<open>Immediate forms\<close>

definition immediate_value :: "u8 \<Rightarrow> u64 \<Rightarrow> u64 \<Rightarrow> u64 option" where
  "immediate_value opcode a v =
     (let literal = sign_extend v 32; literal_half = (ucast v :: u32);
          a_half = (ucast (low_half a) :: u32)
      in if opcode = op_kAddImm then Some (a + literal)
         else if opcode = op_kAddHImm then Some (half_result (a_half + literal_half))
         else if opcode = op_kSubtractImm then Some (a - literal)
         else if opcode = op_kSubtractHImm then Some (half_result (a_half - literal_half))
         else if opcode = op_kAndImm then Some (a AND literal)
         else if opcode = op_kOrImm then Some (a OR literal)
         else if opcode = op_kXorImm then Some (a XOR literal)
         else None)"

definition execute_immediate :: "DecodedV2 \<Rightarrow> InterpreterV2 \<Rightarrow> outcome option" where
  "execute_immediate decoded m =
     (let opcode = d_opcode decoded
      in if opcode \<ge> op_kAddImm \<and> opcode \<le> op_kXorImm then
           map_option (\<lambda>v. write_advance decoded (rg decoded 1) v m)
             (immediate_value opcode (get_register (rg decoded 0) m) (imm decoded 0))
         else None)"

definition shift_value :: "u8 \<Rightarrow> u64 \<Rightarrow> u64 \<Rightarrow> u64 option" where
  "shift_value opcode a count =
     (let a_half = (ucast (low_half a) :: u32)
      in if opcode = op_kShiftLeftImm then Some (push_bit (unat (count AND 63)) a)
         else if opcode = op_kShiftLeftHImm then Some (half_result (push_bit (unat (count AND 31)) a_half))
         else if opcode = op_kShiftRightLogicalImm then Some (drop_bit (unat (count AND 63)) a)
         else if opcode = op_kShiftRightLogicalHImm then Some (half_result (drop_bit (unat (count AND 31)) a_half))
         else if opcode = op_kShiftRightArithmeticImm then Some (signed_drop_bit (unat (count AND 63)) a)
         else if opcode = op_kShiftRightArithmeticHImm
           then Some (half_result (signed_drop_bit (unat (count AND 31)) a_half))
         else None)"

definition execute_shift_immediate :: "DecodedV2 \<Rightarrow> InterpreterV2 \<Rightarrow> outcome option" where
  "execute_shift_immediate decoded m =
     (let opcode = d_opcode decoded
      in if opcode \<ge> op_kShiftLeftImm \<and> opcode \<le> op_kShiftRightArithmeticHImm then
           map_option (\<lambda>v. write_advance decoded (rg decoded 1) v m)
             (shift_value opcode (get_register (rg decoded 0) m) (imm decoded 0))
         else None)"

section \<open>Comparisons, branches, jumps and selects\<close>

definition execute_compare :: "DecodedV2 \<Rightarrow> InterpreterV2 \<Rightarrow> outcome option" where
  "execute_compare decoded m =
     (let opcode = d_opcode decoded
      in if opcode \<ge> op_kCompareEq \<and> opcode \<le> op_kCompareGeUnsigned then
           let predicate = unat (opcode - op_kCompareEq);
               held = evaluate_predicate predicate (get_register (rg decoded 0) m) (get_register (rg decoded 1) m)
           in Some (write_advance decoded (rg decoded 2) (if held then 1 else 0) m)
         else None)"

definition execute_compare_immediate :: "DecodedV2 \<Rightarrow> InterpreterV2 \<Rightarrow> outcome option" where
  "execute_compare_immediate decoded m =
     (let opcode = d_opcode decoded
      in if opcode \<ge> op_kCompareImmBase \<and> opcode \<le> op_kCompareImmBase + 9 then
           let predicate = unat (opcode - op_kCompareImmBase);
               held = evaluate_predicate predicate (get_register (rg decoded 0) m)
                        (sign_extend (imm decoded 0) 32)
           in Some (write_advance decoded (rg decoded 1) (if held then 1 else 0) m)
         else None)"

definition execute_branch :: "DecodedV2 \<Rightarrow> InterpreterV2 \<Rightarrow> outcome option" where
  "execute_branch decoded m =
     (let opcode = d_opcode decoded
      in if opcode \<ge> op_kBranchBase \<and> opcode \<le> op_kBranchBase + 9 then
           let predicate = unat (opcode - op_kBranchBase);
               held = evaluate_predicate predicate (get_register (rg decoded 0) m) (get_register (rg decoded 1) m)
           in Some (if \<not> held then advance decoded m
                    else branch_to decoded (d_next_pc decoded + sign_extend (imm decoded 0) 32) m)
         else None)"

definition execute_jump :: "DecodedV2 \<Rightarrow> InterpreterV2 \<Rightarrow> outcome option" where
  "execute_jump decoded m =
     (let opcode = d_opcode decoded
      in if opcode = op_kJumpDisp then
           Some (branch_to decoded (d_next_pc decoded + sign_extend (imm decoded 0) 32) m)
         else if opcode = op_kJumpReg then
           Some (branch_to decoded (get_register (rg decoded 0) m) m)
         else if opcode = op_kCallDisp then
           let target = d_next_pc decoded + sign_extend (imm decoded 0) 32;
               m = set_register kLinkRegister (d_next_pc decoded) m
           in Some (branch_to decoded target m)
         else if opcode = op_kCallReg then
           let target = get_register (rg decoded 0) m;
               m = set_register kLinkRegister (d_next_pc decoded) m
           in Some (branch_to decoded target m)
         else if opcode = op_kReturn then
           Some (branch_to decoded (get_register kLinkRegister m) m)
         else if opcode = op_kSelectNz \<or> opcode = op_kSelectZ then
           let source = get_register (rg decoded 0) m; condition = get_register (rg decoded 1) m;
               holds = (if opcode = op_kSelectNz then condition \<noteq> 0 else condition = 0);
               m = (if holds then set_register (rg decoded 2) source m else m)
           in Some (advance decoded m)
         else None)"

section \<open>Loads and stores\<close>

definition access_address :: "DecodedV2 \<Rightarrow> nat \<Rightarrow> bool \<Rightarrow> InterpreterV2 \<Rightarrow> u64" where
  "access_address decoded base_register displaced m =
     (let displacement = (if displaced then sign_extend (imm decoded 0) 16 else 0)
      in get_register base_register m + displacement)"

definition execute_load :: "DecodedV2 \<Rightarrow> nat \<Rightarrow> bool \<Rightarrow> bool \<Rightarrow> InterpreterV2 \<Rightarrow> outcome" where
  "execute_load decoded width_bytes sign_extended displaced m =
     (let base_register = rg decoded 0; destination = rg decoded 1;
          address = access_address decoded base_register displaced m
      in case plan_access address width_bytes Load (level m) m of
           (Inl access_trap, m) \<Rightarrow>
             raise_trap decoded (trap_cause access_trap) (trap_subcode access_trap) (trap_aux access_trap) m
         | (Inr plan, m) \<Rightarrow>
             let raw = read_planned plan 0 width_bytes m; bits = width_bytes * 8;
                 v = (if sign_extended then sign_extend raw bits
                      else if bits \<ge> 64 then raw else zero_extend raw bits)
             in write_advance decoded destination v m)"

definition execute_store :: "DecodedV2 \<Rightarrow> nat \<Rightarrow> bool \<Rightarrow> InterpreterV2 \<Rightarrow> outcome" where
  "execute_store decoded width_bytes displaced m =
     (let source = rg decoded 0; base_register = rg decoded 1;
          address = access_address decoded base_register displaced m
      in case plan_access address width_bytes Store (level m) m of
           (Inl access_trap, m) \<Rightarrow>
             raise_trap decoded (trap_cause access_trap) (trap_subcode access_trap) (trap_aux access_trap) m
         | (Inr plan, m) \<Rightarrow> advance decoded (write_planned plan 0 width_bytes (get_register source m) m))"

text \<open>The width and signedness of each load, and the width of each store, by index in its group.\<close>

definition load_form :: "nat \<Rightarrow> (nat \<times> bool) option" where
  "load_form index =
     (if index = 0 then Some (8, False)
      else if index = 1 then Some (1, False) else if index = 2 then Some (1, True)
      else if index = 3 then Some (2, False) else if index = 4 then Some (2, True)
      else if index = 5 then Some (4, False) else if index = 6 then Some (4, True)
      else None)"

definition store_form :: "nat \<Rightarrow> nat option" where
  "store_form index =
     (if index = 0 then Some 8 else if index = 1 then Some 1 else if index = 2 then Some 2
      else if index = 3 then Some 4 else None)"

definition execute_loads :: "DecodedV2 \<Rightarrow> InterpreterV2 \<Rightarrow> outcome option" where
  "execute_loads decoded m =
     (let opcode = d_opcode decoded
      in if opcode \<ge> op_kLoad \<and> opcode \<le> op_kLoadDisp + 6 then
           let displaced = (opcode \<ge> op_kLoadDisp);
               index = unat (if displaced then opcode - op_kLoadDisp else opcode - op_kLoad)
           in map_option (\<lambda>(width, sign_extended). execute_load decoded width sign_extended displaced m)
                (load_form index)
         else None)"

definition execute_stores :: "DecodedV2 \<Rightarrow> InterpreterV2 \<Rightarrow> outcome option" where
  "execute_stores decoded m =
     (let opcode = d_opcode decoded
      in if opcode \<ge> op_kStore \<and> opcode \<le> op_kStoreDisp + 3 then
           let displaced = (opcode \<ge> op_kStoreDisp);
               index = unat (if displaced then opcode - op_kStoreDisp else opcode - op_kStore)
           in map_option (\<lambda>width. execute_store decoded width displaced m) (store_form index)
         else None)"

section \<open>Elements and bit fields\<close>

definition extract_value :: "u8 \<Rightarrow> u64 \<Rightarrow> nat \<Rightarrow> u64" where
  "extract_value opcode source element =
     (let (raw, bits) =
            (if opcode = op_kExtractZb \<or> opcode = op_kExtractSb then (ucast (byte_element source element), 8)
             else if opcode = op_kExtractZq \<or> opcode = op_kExtractSq
               then (ucast (quarter_element source element), 16)
             else (ucast (half_element source element), 32));
          signed_form = (opcode = op_kExtractSb \<or> opcode = op_kExtractSq \<or> opcode = op_kExtractSh)
      in if signed_form then sign_extend raw bits else raw)"

definition execute_extract :: "DecodedV2 \<Rightarrow> InterpreterV2 \<Rightarrow> outcome option" where
  "execute_extract decoded m =
     (let opcode = d_opcode decoded
      in if opcode \<ge> op_kExtractZb \<and> opcode \<le> op_kExtractSh then
           Some (write_advance decoded (rg decoded 1)
                   (extract_value opcode (get_register (rg decoded 0) m) (d_form decoded ! 0)) m)
         else None)"

definition insert_value :: "u8 \<Rightarrow> u64 \<Rightarrow> u64 \<Rightarrow> nat \<Rightarrow> u64" where
  "insert_value opcode target source element =
     (if opcode = op_kInsertB then insert_byte target element (ucast source)
      else if opcode = op_kInsertQ then insert_quarter target element (ucast source)
      else insert_half target element (ucast source))"

definition execute_insert :: "DecodedV2 \<Rightarrow> InterpreterV2 \<Rightarrow> outcome option" where
  "execute_insert decoded m =
     (let opcode = d_opcode decoded
      in if opcode \<ge> op_kInsertB \<and> opcode \<le> op_kInsertH then
           let destination = rg decoded 1
           in Some (write_advance decoded destination
                      (insert_value opcode (get_register destination m) (get_register (rg decoded 0) m)
                        (d_form decoded ! 1)) m)
         else None)"

definition execute_bitfield :: "DecodedV2 \<Rightarrow> InterpreterV2 \<Rightarrow> outcome option" where
  "execute_bitfield decoded m =
     (let opcode = d_opcode decoded
      in if opcode \<ge> op_kBitfieldExtract \<and> opcode \<le> op_kBitfieldInsert then
           let position = unat (imm decoded 0 AND 0xFF); width = unat (imm decoded 1 AND 0xFF)
           in if width = 0 then
                Some (raise_trap decoded cause_kIllegalOperand subcode_kInvalidImmediate (of_nat width) m)
              else if position + width > 64 then
                Some (raise_trap decoded cause_kIllegalOperand subcode_kInvalidImmediate (of_nat position) m)
              else
                let source = get_register (rg decoded 0) m; destination = rg decoded 1
                in if opcode = op_kBitfieldInsert then
                     Some (write_advance decoded destination
                             (bitfield_insert (get_register destination m) source position width) m)
                   else
                     let field = bitfield_extract source position width
                     in Some (write_advance decoded destination
                                (if opcode = op_kBitfieldExtractSigned then sign_extend field width else field) m)
         else None)"

section \<open>Block, control-register, system and port instructions\<close>

definition execute_blocks :: "DecodedV2 \<Rightarrow> InterpreterV2 \<Rightarrow> outcome option" where
  "execute_blocks decoded m =
     (if d_opcode decoded \<ge> op_kBlockCopy \<and> d_opcode decoded \<le> op_kBlockSet
      then Some (execute_block decoded m) else None)"

definition execute_csr :: "DecodedV2 \<Rightarrow> InterpreterV2 \<Rightarrow> outcome" where
  "execute_csr decoded m =
     (let opcode = d_opcode decoded; is_write = (opcode \<noteq> op_kCsrRead);
          number = (ucast (imm decoded 0) :: u16);
          v = (if is_write then get_register (rg decoded 0) m else 0);
          (outcome, csr) = access (m_csr m) number (level m) is_write v;
          m = m\<lparr>m_csr := csr\<rparr>
      in if \<not> co_ok outcome then
           raise_trap decoded (co_cause outcome) (co_subcode outcome) (co_aux outcome) m
         else
           let m = (if co_flushed_translations outcome
                    then m\<lparr>m_translator := invalidate_all (m_translator m)\<rparr> else m);
               m = (if opcode = op_kCsrRead then set_register (rg decoded 0) (co_prior outcome) m
                    else if opcode = op_kCsrSwap then set_register (rg decoded 1) (co_prior outcome) m
                    else m)
           in advance decoded m)"

definition execute_csrs :: "DecodedV2 \<Rightarrow> InterpreterV2 \<Rightarrow> outcome option" where
  "execute_csrs decoded m =
     (let opcode = d_opcode decoded
      in if opcode = op_kCsrRead \<or> opcode = op_kCsrWrite \<or> opcode = op_kCsrSwap
         then Some (execute_csr decoded m) else None)"

definition execute_privileged :: "DecodedV2 \<Rightarrow> InterpreterV2 \<Rightarrow> outcome option" where
  "execute_privileged decoded m =
     (let opcode = d_opcode decoded
      in if (opcode = op_kTrapReturn \<or> opcode = op_kWaitForInterrupt \<or>
             opcode = op_kTlbInvalidateAll \<or> opcode = op_kTlbInvalidateAddress) \<and>
            level m \<noteq> Supervisor
         then Some (raise_trap decoded cause_kPrivilegedOperation 0 (ucast opcode) m)
         else if opcode = op_kTrapReturn then Some (execute_trap_return decoded m)
         else if opcode = op_kWaitForInterrupt then Some (execute_wait_for_interrupt decoded m)
         else if opcode = op_kTlbInvalidateAll then
           Some (advance decoded (m\<lparr>m_translator := invalidate_all (m_translator m)\<rparr>))
         else if opcode = op_kTlbInvalidateAddress then
           Some (advance decoded
                   (m\<lparr>m_translator := invalidate_address (get_register (rg decoded 0) m) (m_translator m)\<rparr>))
         else None)"

definition execute_system :: "DecodedV2 \<Rightarrow> InterpreterV2 \<Rightarrow> outcome option" where
  "execute_system decoded m =
     (let opcode = d_opcode decoded
      in if opcode = op_kSysImm \<or> opcode = op_kSysReg then
           let number = (if opcode = op_kSysImm then imm decoded 0 AND 0xFF
                         else get_register (rg decoded 0) m AND 0xFF)
           in Some (raise_trap_class decoded cause_kSyscall 0 number m)
         else if opcode = op_kBreakpoint then
           Some (raise_trap_class decoded cause_kBreakpoint 0 0 m)
         else None)"

definition execute_halt :: "DecodedV2 \<Rightarrow> InterpreterV2 \<Rightarrow> outcome option" where
  "execute_halt decoded m =
     (let opcode = d_opcode decoded
      in if opcode = op_kHalt then
           if level m \<noteq> Supervisor then
             Some (raise_trap decoded cause_kPrivilegedOperation 0 (ucast opcode) m)
           else
             let m = m\<lparr>m_pc := d_next_pc decoded, m_halted := True,
                       m_csr := machine_record_halt halt_cause_kKindHaltInstruction 0 0 (m_csr m)\<rparr>
             in Some (step_result Halted opcode (d_pc decoded), m)
         else None)"

definition execute_ports :: "DecodedV2 \<Rightarrow> InterpreterV2 \<Rightarrow> outcome option" where
  "execute_ports decoded m =
     (let opcode = d_opcode decoded
      in if opcode = op_kPortIn \<or> opcode = op_kPortOut then
           if level m \<noteq> Supervisor then
             Some (raise_trap decoded cause_kPrivilegedOperation 0 (ucast opcode) m)
           else if opcode = op_kPortIn then
             let port = (ucast (get_register (rg decoded 0) m) :: u16);
                 (v, devices) = port_in (m_devices m) port
             in Some (write_advance decoded (rg decoded 1) v (m\<lparr>m_devices := devices\<rparr>))
           else
             let v = get_register (rg decoded 0) m;
                 port = (ucast (get_register (rg decoded 1) m) :: u16)
             in Some (advance decoded (m\<lparr>m_devices := port_out (m_devices m) port v\<rparr>))
         else None)"

section \<open>The execute stage\<close>

definition bands :: "(DecodedV2 \<Rightarrow> InterpreterV2 \<Rightarrow> outcome option) list" where
  "bands =
     [execute_moves, execute_integer, execute_unary, execute_carry, execute_immediate,
      execute_shift_immediate, execute_compare, execute_compare_immediate, execute_branch, execute_jump,
      execute_loads, execute_stores, execute_extract, execute_insert, execute_bitfield, execute_blocks,
      execute_csrs, execute_privileged, execute_system, execute_halt, execute_ports]"

fun dispatch :: "(DecodedV2 \<Rightarrow> InterpreterV2 \<Rightarrow> outcome option) list \<Rightarrow> DecodedV2 \<Rightarrow> InterpreterV2 \<Rightarrow> outcome" where
  "dispatch [] decoded m = (step_result Unimplemented (d_opcode decoded) (d_pc decoded), m)"
| "dispatch (band # rest) decoded m =
     (case band decoded m of Some result \<Rightarrow> result | None \<Rightarrow> dispatch rest decoded m)"

definition execute :: "DecodedV2 \<Rightarrow> InterpreterV2 \<Rightarrow> outcome" where
  "execute = dispatch bands"

section \<open>What an instruction can do\<close>

text \<open>
  Every outcome of a band has one of six forms: registers, cache and program counter
  change; planned bytes are stored; a trap is delivered from the unchanged machine; a control
  register is accessed; a supervisor instruction acts; or a block instruction runs.
\<close>

definition plain_effect :: "DecodedV2 \<Rightarrow> InterpreterV2 \<Rightarrow> outcome \<Rightarrow> bool" where
  "plain_effect d m out \<longleftrightarrow>
     (\<exists>r t pc. out = (step_result Advanced (d_opcode d) (d_pc d), m\<lparr>m_registers := r, m_translator := t, m_pc := pc\<rparr>) \<and>
        wf_registers r \<and> wf_translator t)"

definition store_effect :: "DecodedV2 \<Rightarrow> InterpreterV2 \<Rightarrow> outcome \<Rightarrow> bool" where
  "store_effect d m out \<longleftrightarrow>
     (\<exists>a w plan m1 v. plan_access a w Store (level m) m = (Inr plan, m1) \<and>
        out = advance d (write_planned plan 0 w v m1))"

definition trap_effect :: "DecodedV2 \<Rightarrow> InterpreterV2 \<Rightarrow> outcome \<Rightarrow> bool" where
  "trap_effect d m out \<longleftrightarrow>
     (\<exists>t trap. wf_translator t \<and> out = deliver trap (d_opcode d) (d_pc d) (m\<lparr>m_translator := t\<rparr>) \<and>
        (trap_pc trap = d_pc d \<or>
         trap_pc trap = d_next_pc d \<and> (trap_cause trap = cause_kSyscall \<or> trap_cause trap = cause_kBreakpoint)))"

definition csr_effect :: "DecodedV2 \<Rightarrow> InterpreterV2 \<Rightarrow> outcome \<Rightarrow> bool" where
  "csr_effect d m out \<longleftrightarrow>
     (\<exists>number is_write v r t. co_ok (fst (access (m_csr m) number (level m) is_write v)) \<and>
        wf_registers r \<and> wf_translator t \<and>
        out = advance d (m\<lparr>m_csr := snd (access (m_csr m) number (level m) is_write v),
                           m_translator := t, m_registers := r\<rparr>))"

definition supervisor_effect :: "DecodedV2 \<Rightarrow> InterpreterV2 \<Rightarrow> outcome \<Rightarrow> bool" where
  "supervisor_effect d m out \<longleftrightarrow>
     level m = Supervisor \<and>
     ((\<exists>pc c t. wf_csr c \<and> wf_translator t \<and> out = branch_to d pc (m\<lparr>m_csr := c, m_translator := t\<rparr>)) \<or>
      out = execute_wait_for_interrupt d m \<or>
      out = (step_result Halted (d_opcode d) (d_pc d),
             m\<lparr>m_pc := d_next_pc d, m_halted := True,
               m_csr := machine_record_halt halt_cause_kKindHaltInstruction 0 0 (m_csr m)\<rparr>) \<or>
      (\<exists>ds r. wf_devices ds \<and> wf_registers r \<and> out = advance d (m\<lparr>m_devices := ds, m_registers := r\<rparr>)))"

definition block_effect :: "DecodedV2 \<Rightarrow> InterpreterV2 \<Rightarrow> outcome \<Rightarrow> bool" where
  "block_effect d m out \<longleftrightarrow>
     d_opcode d \<ge> op_kBlockCopy \<and> d_opcode d \<le> op_kBlockSet \<and> block_ends d m out"

definition effect :: "DecodedV2 \<Rightarrow> InterpreterV2 \<Rightarrow> outcome \<Rightarrow> bool" where
  "effect d m out \<longleftrightarrow>
     plain_effect d m out \<or> store_effect d m out \<or> trap_effect d m out \<or> csr_effect d m out \<or>
     supervisor_effect d m out \<or> block_effect d m out"

text \<open>The ways a band can end.\<close>

lemma plain_advance:
  assumes "wf_machine m" and "wf_registers r" and "wf_translator t"
  shows "effect d m (advance d (m\<lparr>m_registers := r, m_translator := t\<rparr>))"
    and "effect d m (branch_to d pc (m\<lparr>m_registers := r, m_translator := t\<rparr>))"
  using assms by (auto simp: effect_def plain_effect_def advance_def branch_to_def)

lemma update_order:
  "m\<lparr>m_translator := t, m_registers := r\<rparr> = m\<lparr>m_registers := r, m_translator := t\<rparr>"
  by (rule InterpreterV2.equality) simp_all

lemma effect_write_advance:
  "wf_machine m \<Longrightarrow> effect d m (write_advance d n v m)"
  using plain_advance(1) [of m "write_reg (m_registers m) n v" "m_translator m" d]
  by (simp add: write_advance_def set_register_def wf_machine_parts)

lemma effect_registers:
  "wf_machine m \<Longrightarrow> wf_registers r \<Longrightarrow> effect d m (advance d (m\<lparr>m_registers := r\<rparr>))"
  "wf_machine m \<Longrightarrow> wf_registers r \<Longrightarrow> effect d m (branch_to d pc (m\<lparr>m_registers := r\<rparr>))"
  using plain_advance [of m r "m_translator m" d] by (simp_all add: wf_machine_parts)

lemma effect_advance:
  "wf_machine m \<Longrightarrow> effect d m (advance d m)" "wf_machine m \<Longrightarrow> effect d m (branch_to d pc m)"
  using effect_registers [of m "m_registers m" d] by (simp_all add: wf_machine_parts)

lemma effect_raise:
  "wf_translator t \<Longrightarrow> effect d m (raise_trap d c s a (m\<lparr>m_translator := t\<rparr>))"
  by (auto simp: effect_def trap_effect_def raise_trap_def intro!: exI)

lemma effect_raise_same: "wf_machine m \<Longrightarrow> effect d m (raise_trap d c s a m)"
  using effect_raise [of "m_translator m" d m c s a] by (simp add: wf_machine_parts)

lemma effect_raise_class:
  "wf_machine m \<Longrightarrow> c = cause_kSyscall \<or> c = cause_kBreakpoint \<Longrightarrow> effect d m (raise_trap_class d c s a m)"
proof -
  assume m: "wf_machine m" and c: "c = cause_kSyscall \<or> c = cause_kBreakpoint"
  have "trap_effect d m (raise_trap_class d c s a m)"
    unfolding trap_effect_def raise_trap_class_def
    by (rule exI [of _ "m_translator m"], rule exI, intro conjI)
      (use m c in \<open>auto simp: wf_machine_parts\<close>)
  then show ?thesis by (simp add: effect_def)
qed

lemmas effect_intros =
  effect_write_advance effect_registers effect_advance effect_raise_same effect_raise_class

lemma effect_set_register:
  "wf_machine m \<Longrightarrow> effect d m (advance d (set_register n v m))"
  "wf_machine m \<Longrightarrow> effect d m (advance d (set_register k w (set_register n v m)))"
  "wf_machine m \<Longrightarrow> effect d m (branch_to d pc (set_register n v m))"
  by (simp_all add: set_register_def effect_registers wf_machine_parts)

subsection \<open>Band by band\<close>

named_theorems band_effects \<open>each band ends in one of the six forms\<close>

lemma execute_moves_effect [band_effects]:
  "wf_machine m \<Longrightarrow> execute_moves d m = Some out \<Longrightarrow> effect d m out"
  by (auto simp: execute_moves_def effect_intros split: if_splits)

lemma execute_integer_effect [band_effects]:
  "wf_machine m \<Longrightarrow> execute_integer d m = Some out \<Longrightarrow> effect d m out"
  by (auto simp: execute_integer_def Let_def effect_intros split: if_splits option.splits sum.splits)

lemma execute_unary_effect [band_effects]:
  "wf_machine m \<Longrightarrow> execute_unary d m = Some out \<Longrightarrow> effect d m out"
  by (auto simp: execute_unary_def Let_def effect_intros split: if_splits)

lemma execute_carry_effect [band_effects]:
  "wf_machine m \<Longrightarrow> execute_carry d m = Some out \<Longrightarrow> effect d m out"
  by (auto simp: execute_carry_def Let_def effect_set_register split: if_splits prod.splits)

lemma execute_immediate_effect [band_effects]:
  "wf_machine m \<Longrightarrow> execute_immediate d m = Some out \<Longrightarrow> effect d m out"
  by (auto simp: execute_immediate_def Let_def effect_intros split: if_splits)

lemma execute_shift_immediate_effect [band_effects]:
  "wf_machine m \<Longrightarrow> execute_shift_immediate d m = Some out \<Longrightarrow> effect d m out"
  by (auto simp: execute_shift_immediate_def Let_def effect_intros split: if_splits)

lemma execute_compare_effect [band_effects]:
  "wf_machine m \<Longrightarrow> execute_compare d m = Some out \<Longrightarrow> effect d m out"
  by (auto simp only: execute_compare_def Let_def effect_intros option.inject option.distinct split: if_splits)

lemma execute_compare_immediate_effect [band_effects]:
  "wf_machine m \<Longrightarrow> execute_compare_immediate d m = Some out \<Longrightarrow> effect d m out"
  by (auto simp only: execute_compare_immediate_def Let_def effect_intros option.inject option.distinct
      split: if_splits)

lemma execute_branch_effect [band_effects]:
  "wf_machine m \<Longrightarrow> execute_branch d m = Some out \<Longrightarrow> effect d m out"
  by (auto simp only: execute_branch_def Let_def effect_intros option.inject option.distinct split: if_splits)

lemma execute_jump_effect [band_effects]:
  "wf_machine m \<Longrightarrow> execute_jump d m = Some out \<Longrightarrow> effect d m out"
  by (auto simp: execute_jump_def Let_def effect_intros effect_set_register split: if_splits)

lemma execute_extract_effect [band_effects]:
  "wf_machine m \<Longrightarrow> execute_extract d m = Some out \<Longrightarrow> effect d m out"
  by (auto simp: execute_extract_def Let_def effect_intros split: if_splits)

lemma execute_insert_effect [band_effects]:
  "wf_machine m \<Longrightarrow> execute_insert d m = Some out \<Longrightarrow> effect d m out"
  by (auto simp: execute_insert_def Let_def effect_intros split: if_splits)

lemma execute_bitfield_effect [band_effects]:
  "wf_machine m \<Longrightarrow> execute_bitfield d m = Some out \<Longrightarrow> effect d m out"
  by (auto simp only: execute_bitfield_def Let_def effect_intros option.inject option.distinct split: if_splits)

lemma execute_system_effect [band_effects]:
  "wf_machine m \<Longrightarrow> execute_system d m = Some out \<Longrightarrow> effect d m out"
  by (auto simp: execute_system_def Let_def effect_intros split: if_splits)

lemma execute_blocks_effect [band_effects]:
  "wf_machine m \<Longrightarrow> execute_blocks d m = Some out \<Longrightarrow> effect d m out"
  using execute_block_ends [of m d]
  by (auto simp: execute_blocks_def effect_def block_effect_def split: if_splits)

lemma plan_access_parts:
  assumes "wf_machine m" and "plan_access a n kind lvl m = (v, m1)"
  obtains t where "m1 = m\<lparr>m_translator := t\<rparr>" "wf_translator t"
  using plan_access_translator [OF assms(2)] wf_machine_parts(3) [OF assms(1)] by blast

lemma execute_load_effect: "wf_machine m \<Longrightarrow> effect d m (execute_load d w s disp m)"
proof -
  assume m: "wf_machine m"
  let ?a = "access_address d (rg d 0) disp m"
  obtain v m1 where p: "plan_access ?a w Load (level m) m = (v, m1)"
    by (cases "plan_access ?a w Load (level m) m")
  from plan_access_parts [OF m p] obtain t where t: "m1 = m\<lparr>m_translator := t\<rparr>" "wf_translator t" .
  have "effect d m (write_advance d n x m1)" for n x
    using plain_advance(1) [OF m _ t(2), of "write_reg (m_registers m) n x" d] m
    by (simp add: write_advance_def set_register_def t(1) wf_machine_parts update_order)
  moreover have "effect d m (raise_trap d c sc a m1)" for c sc a unfolding t(1) by (rule effect_raise [OF t(2)])
  ultimately show ?thesis
    unfolding execute_load_def Let_def p prod.case by (cases v) simp_all
qed

lemma execute_store_effect: "wf_machine m \<Longrightarrow> effect d m (execute_store d w disp m)"
proof -
  assume m: "wf_machine m"
  let ?a = "access_address d (rg d 1) disp m"
  obtain v m1 where p: "plan_access ?a w Store (level m) m = (v, m1)"
    by (cases "plan_access ?a w Store (level m) m")
  from plan_access_parts [OF m p] obtain t where t: "m1 = m\<lparr>m_translator := t\<rparr>" "wf_translator t" .
  have "effect d m (raise_trap d c sc a m1)" for c sc a unfolding t(1) by (rule effect_raise [OF t(2)])
  moreover have "effect d m (advance d (write_planned plan 0 w x m1))" if "v = Inr plan" for plan x
    unfolding effect_def store_effect_def using p that by blast
  ultimately show ?thesis
    unfolding execute_store_def Let_def p prod.case by (cases v) simp_all
qed

lemma execute_loads_effect [band_effects]:
  "wf_machine m \<Longrightarrow> execute_loads d m = Some out \<Longrightarrow> effect d m out"
  by (auto simp: execute_loads_def Let_def execute_load_effect split: if_splits)

lemma execute_stores_effect [band_effects]:
  "wf_machine m \<Longrightarrow> execute_stores d m = Some out \<Longrightarrow> effect d m out"
  by (auto simp: execute_stores_def Let_def execute_store_effect split: if_splits)

lemma execute_csrs_effect [band_effects]:
  assumes "wf_machine m" and "execute_csrs d m = Some out"
  shows "effect d m out"
proof -
  define number :: u16 where "number = ucast (imm d 0)"
  define w where "w = (d_opcode d \<noteq> op_kCsrRead)"
  define v where "v = (if w then get_register (rg d 0) m else 0)"
  obtain oc c where a: "access (m_csr m) number (level m) w v = (oc, c)"
    by (cases "access (m_csr m) number (level m) w v")
  have out: "out = execute_csr d m"
    using assms(2) by (auto simp: execute_csrs_def Let_def split: if_splits)
  show ?thesis
  proof (cases "co_ok oc")
    case True
    define t where "t = (if co_flushed_translations oc then invalidate_all (m_translator m) else m_translator m)"
    define r where "r = (if d_opcode d = op_kCsrRead then write_reg (m_registers m) (rg d 0) (co_prior oc)
        else if d_opcode d = op_kCsrSwap then write_reg (m_registers m) (rg d 1) (co_prior oc)
        else m_registers m)"
    have "wf_translator t" "wf_registers r"
      using assms(1) by (simp_all add: t_def r_def wf_machine_parts wf_invalidate_all)
    moreover have "out = advance d (m\<lparr>m_csr := c, m_translator := t, m_registers := r\<rparr>)"
      using True a unfolding out execute_csr_def Let_def number_def [symmetric] w_def [symmetric] v_def [symmetric]
      by (simp add: t_def r_def set_register_def)
    ultimately have "csr_effect d m out"
      unfolding csr_effect_def using True a by (metis fst_conv snd_conv)
    then show ?thesis by (simp add: effect_def)
  next
    case False
    then have "c = m_csr m" using a access_refused [of "m_csr m" number "level m" w v] by simp
    with False a have "out = raise_trap d (co_cause oc) (co_subcode oc) (co_aux oc) m"
      unfolding out execute_csr_def Let_def number_def [symmetric] w_def [symmetric] v_def [symmetric] by simp
    then show ?thesis by (simp add: effect_raise_same assms(1))
  qed
qed

lemma execute_trap_return_effect:
  assumes "wf_machine m" and "level m = Supervisor"
  shows "effect d m (execute_trap_return d m)"
proof -
  let ?f = "read_raw (m_csr m) csr_kTrapStack"
  obtain v m1 where p: "plan_access ?f (unat trap_frame_kBytes) Load (level m) m = (v, m1)"
    by (cases "plan_access ?f (unat trap_frame_kBytes) Load (level m) m")
  from plan_access_parts [OF assms(1) p] obtain t where t: "m1 = m\<lparr>m_translator := t\<rparr>" "wf_translator t" .
  have trap: "effect d m (raise_trap d c sc a m1)" for c sc a unfolding t(1) by (rule effect_raise [OF t(2)])
  have "effect d m (branch_to d pc (m1\<lparr>m_csr := machine_set_trap_stack (?f + trap_frame_kBytes)
      (machine_write_status st (m_csr m1))\<rparr>))" if "status_value_is_acceptable st" for pc st
  proof -
    have w: "wf_csr (machine_write_status st (m_csr m))"
      using that wf_machine_parts(2) [OF assms(1)]
      by (simp add: wf_csr_def machine_write_status_def value_is_acceptable_def)
    have "wf_csr (machine_set_trap_stack (?f + trap_frame_kBytes) (machine_write_status st (m_csr m)))"
      using wf_csr_set_trap_stack(2) [OF w] by (simp add: read_raw_named machine_write_status_def)
    moreover have "m1\<lparr>m_csr := c\<rparr> = m\<lparr>m_csr := c, m_translator := t\<rparr>" for c
      by (rule InterpreterV2.equality) (simp_all add: t(1))
    moreover have "m_csr m1 = m_csr m" by (simp add: t(1))
    ultimately have "supervisor_effect d m (branch_to d pc (m1\<lparr>m_csr :=
        machine_set_trap_stack (?f + trap_frame_kBytes) (machine_write_status st (m_csr m1))\<rparr>))"
      unfolding supervisor_effect_def using t(2) assms(2) by metis
    then show ?thesis by (simp add: effect_def)
  qed
  with trap show ?thesis
    unfolding execute_trap_return_def Let_def p prod.case by (cases v) (simp_all add: Let_def)
qed

lemma execute_privileged_effect [band_effects]:
  assumes "wf_machine m" and "execute_privileged d m = Some out"
  shows "effect d m out"
proof (cases "level m = Supervisor")
  case False
  with assms show ?thesis
    by (auto simp: execute_privileged_def Let_def effect_raise_same split: if_splits)
next
  case True
  have "effect d m (advance d (m\<lparr>m_translator := t\<rparr>))" if "wf_translator t" for t
    using plain_advance(1) [OF assms(1) wf_machine_parts(1) [OF assms(1)] that, of d] by simp
  moreover have "effect d m (execute_wait_for_interrupt d m)"
    using True by (simp add: effect_def supervisor_effect_def)
  ultimately show ?thesis
    using assms True execute_trap_return_effect [OF assms(1) True, of d]
    by (auto simp: execute_privileged_def Let_def wf_machine_parts wf_invalidate_all invalidate_address_eff(1)
        split: if_splits)
qed

lemma execute_halt_effect [band_effects]:
  assumes "wf_machine m" and "execute_halt d m = Some out"
  shows "effect d m out"
proof (cases "level m = Supervisor")
  case False
  with assms show ?thesis by (auto simp: execute_halt_def Let_def effect_raise_same split: if_splits)
next
  case True
  with assms show ?thesis
    by (auto simp: execute_halt_def Let_def effect_def supervisor_effect_def split: if_splits)
qed

lemma execute_ports_effect [band_effects]:
  assumes "wf_machine m" and "execute_ports d m = Some out"
  shows "effect d m out"
proof (cases "level m = Supervisor")
  case False
  with assms show ?thesis
    by (auto simp: execute_ports_def Let_def effect_raise_same split: if_splits)
next
  case True
  have e: "effect d m (advance d (m\<lparr>m_devices := ds, m_registers := r\<rparr>))"
    if "wf_devices ds" "wf_registers r" for ds r
    using that True by (auto simp: effect_def supervisor_effect_def)
  have "effect d m (write_advance d n (fst (port_in (m_devices m) p)) (m\<lparr>m_devices := snd (port_in (m_devices m) p)\<rparr>))"
    for n p
    using e [of "snd (port_in (m_devices m) p)" "write_reg (m_registers m) n (fst (port_in (m_devices m) p))"] assms(1)
    by (simp add: write_advance_def set_register_def wf_machine_parts wf_port_in)
  moreover have "effect d m (advance d (m\<lparr>m_devices := port_out (m_devices m) p v\<rparr>))" for p v
    using e [of "port_out (m_devices m) p v" "m_registers m"] assms(1)
    by (simp add: wf_machine_parts wf_port_out)
  ultimately show ?thesis
    using assms True by (auto simp: execute_ports_def Let_def split_beta split: if_splits)
qed

section \<open>Which band takes an opcode\<close>

text \<open>A band falls through on an opcode, never on a state: these are the opcodes each one takes.\<close>

definition handlers :: "(int \<Rightarrow> bool) list" where
  "handlers =
     [\<lambda>b. uint op_kMove \<le> b \<and> b \<le> uint op_kPcAdd,
      \<lambda>b. uint op_kAdd \<le> b \<and> b \<le> uint op_kShiftRightArithmeticH,
      \<lambda>b. uint op_kNot \<le> b \<and> b \<le> uint op_kByteReverseH,
      \<lambda>b. b = uint op_kAddCarry \<or> b = uint op_kSubtractBorrow,
      \<lambda>b. uint op_kAddImm \<le> b \<and> b \<le> uint op_kXorImm,
      \<lambda>b. uint op_kShiftLeftImm \<le> b \<and> b \<le> uint op_kShiftRightArithmeticHImm,
      \<lambda>b. uint op_kCompareEq \<le> b \<and> b \<le> uint op_kCompareGeUnsigned,
      \<lambda>b. uint op_kCompareImmBase \<le> b \<and> b \<le> uint (op_kCompareImmBase + 9),
      \<lambda>b. uint op_kBranchBase \<le> b \<and> b \<le> uint (op_kBranchBase + 9),
      \<lambda>b. uint op_kJumpDisp \<le> b \<and> b \<le> uint op_kSelectZ,
      \<lambda>b. uint op_kLoad \<le> b \<and> b \<le> uint (op_kLoadDisp + 6),
      \<lambda>b. uint op_kStore \<le> b \<and> b \<le> uint (op_kStoreDisp + 3),
      \<lambda>b. uint op_kExtractZb \<le> b \<and> b \<le> uint op_kExtractSh,
      \<lambda>b. uint op_kInsertB \<le> b \<and> b \<le> uint op_kInsertH,
      \<lambda>b. uint op_kBitfieldExtract \<le> b \<and> b \<le> uint op_kBitfieldInsert,
      \<lambda>b. uint op_kBlockCopy \<le> b \<and> b \<le> uint op_kBlockSet,
      \<lambda>b. b = uint op_kCsrRead \<or> b = uint op_kCsrWrite \<or> b = uint op_kCsrSwap,
      \<lambda>b. b = uint op_kTrapReturn \<or> b = uint op_kWaitForInterrupt \<or> b = uint op_kTlbInvalidateAll \<or>
          b = uint op_kTlbInvalidateAddress,
      \<lambda>b. b = uint op_kSysImm \<or> b = uint op_kSysReg \<or> b = uint op_kBreakpoint,
      \<lambda>b. b = uint op_kHalt,
      \<lambda>b. b = uint op_kPortIn \<or> b = uint op_kPortOut]"

text \<open>A range of opcodes is the list of its members.\<close>

lemma u8_range:
  assumes "lo \<le> (b :: u8)" and "b \<le> hi"
  shows "b \<in> set (map (\<lambda>i. of_nat i) [unat lo..<Suc (unat hi)])"
proof -
  have "unat b \<in> set [unat lo..<Suc (unat hi)]" using assms by (auto simp: word_le_nat_alt)
  then show ?thesis unfolding set_map by (rule image_eqI [rotated]) simp
qed

lemma value_defined:
  "0x10 \<le> b \<Longrightarrow> b \<le> 0x28 \<Longrightarrow> integer_value b x y \<noteq> None"
  "0x29 \<le> b \<Longrightarrow> b \<le> 0x2E \<Longrightarrow> unary_value b x \<noteq> None"
  "0x31 \<le> b \<Longrightarrow> b \<le> 0x37 \<Longrightarrow> immediate_value b x y \<noteq> None"
  "0x38 \<le> b \<Longrightarrow> b \<le> 0x3D \<Longrightarrow> shift_value b x y \<noteq> None"
  by (drule (1) u8_range; simp add: upt_rec_numeral upt_conv_Cons; elim disjE;
      simp add: integer_value_def divide_value_def unary_value_def immediate_value_def shift_value_def Let_def)+

lemma execute_moves_None: "execute_moves d m = None \<longleftrightarrow> \<not> (op_kMove \<le> d_opcode d \<and> d_opcode d \<le> op_kPcAdd)"
proof (cases "op_kMove \<le> d_opcode d \<and> d_opcode d \<le> op_kPcAdd")
  case True
  then have "d_opcode d \<in> set (map of_nat [1..<10])" using u8_range [of 1 "d_opcode d" 9] by simp
  then show ?thesis
    by (simp add: upt_rec_numeral upt_conv_Cons) (elim disjE; simp add: execute_moves_def move_value_def Let_def)
qed (auto simp: execute_moves_def move_value_def Let_def)

lemma execute_integer_None:
  "execute_integer d m = None \<longleftrightarrow> \<not> (op_kAdd \<le> d_opcode d \<and> d_opcode d \<le> op_kShiftRightArithmeticH)"
  using value_defined(1) [of "d_opcode d" "get_register (rg d 0) m" "get_register (rg d 1) m"]
  by (cases "integer_value (d_opcode d) (get_register (rg d 0) m) (get_register (rg d 1) m)")
    (auto simp: execute_integer_def Let_def split: sum.split)

lemma execute_jump_None:
  "execute_jump d m = None \<longleftrightarrow> \<not> (op_kJumpDisp \<le> d_opcode d \<and> d_opcode d \<le> op_kSelectZ)"
proof (cases "op_kJumpDisp \<le> d_opcode d \<and> d_opcode d \<le> op_kSelectZ")
  case True
  then have "d_opcode d \<in> set (map of_nat [0x70..<0x77])" using u8_range [of "0x70" "d_opcode d" "0x76"] by simp
  then show ?thesis
    by (simp add: upt_rec_numeral upt_conv_Cons) (elim disjE; simp add: execute_jump_def Let_def)
qed (auto simp: execute_jump_def Let_def)

lemma execute_loads_None:
  "execute_loads d m = None \<longleftrightarrow> \<not> (op_kLoad \<le> d_opcode d \<and> d_opcode d \<le> op_kLoadDisp + 6)"
proof (cases "op_kLoad \<le> d_opcode d \<and> d_opcode d \<le> op_kLoadDisp + 6")
  case True
  then have "d_opcode d \<in> set (map of_nat [0x80..<0x8E])" using u8_range [of "0x80" "d_opcode d" "0x8D"] by simp
  then show ?thesis
    by (simp add: upt_rec_numeral upt_conv_Cons) (elim disjE; simp add: execute_loads_def load_form_def Let_def)
qed (auto simp: execute_loads_def Let_def)

lemma execute_stores_None:
  "execute_stores d m = None \<longleftrightarrow> \<not> (op_kStore \<le> d_opcode d \<and> d_opcode d \<le> op_kStoreDisp + 3)"
proof (cases "op_kStore \<le> d_opcode d \<and> d_opcode d \<le> op_kStoreDisp + 3")
  case True
  then have "d_opcode d \<in> set (map of_nat [0x8E..<0x96])" using u8_range [of "0x8E" "d_opcode d" "0x95"] by simp
  then show ?thesis
    by (simp add: upt_rec_numeral upt_conv_Cons) (elim disjE; simp add: execute_stores_def store_form_def Let_def)
qed (auto simp: execute_stores_def Let_def)

lemma execute_value_bands_None:
  "execute_unary d m = None \<longleftrightarrow> \<not> (op_kNot \<le> d_opcode d \<and> d_opcode d \<le> op_kByteReverseH)"
  "execute_immediate d m = None \<longleftrightarrow> \<not> (op_kAddImm \<le> d_opcode d \<and> d_opcode d \<le> op_kXorImm)"
  "execute_shift_immediate d m = None \<longleftrightarrow>
     \<not> (op_kShiftLeftImm \<le> d_opcode d \<and> d_opcode d \<le> op_kShiftRightArithmeticHImm)"
  using value_defined(2-4) [of "d_opcode d"]
  by (auto simp: execute_unary_def execute_immediate_def execute_shift_immediate_def Let_def)

lemmas band_None =
  execute_moves_None execute_integer_None execute_jump_None execute_loads_None execute_stores_None
  execute_value_bands_None

lemma bands_handlers:
  "list_all2 (\<lambda>band takes. band d m = None \<longleftrightarrow> \<not> takes (uint (d_opcode d))) bands handlers"
  unfolding bands_def handlers_def list_all2_Cons list_all2_Nil word_le_def [symmetric] word_uint_eq_iff [symmetric]
  by (intro conjI band_None TrueI)
    (auto simp: execute_carry_def execute_compare_def execute_compare_immediate_def execute_branch_def
      execute_extract_def execute_insert_def execute_bitfield_def execute_blocks_def
      execute_csrs_def execute_privileged_def execute_system_def execute_halt_def execute_ports_def
      Let_def split_beta)

primrec first_index :: "(int \<Rightarrow> bool) list \<Rightarrow> int \<Rightarrow> nat option" where
  "first_index [] b = None"
| "first_index (h # hs) b = (if h b then Some 0 else map_option Suc (first_index hs b))"

lemma dispatch_index:
  assumes "list_all2 (\<lambda>band takes. band d m = None \<longleftrightarrow> \<not> takes (uint (d_opcode d))) bs hs"
  shows "dispatch bs d m =
           (case first_index hs (uint (d_opcode d)) of
              None \<Rightarrow> (step_result Unimplemented (d_opcode d) (d_pc d), m)
            | Some k \<Rightarrow> the ((bs ! k) d m))"
  using assms
proof (induction bs hs rule: list_all2_induct)
  case (Cons b bs h hs)
  then show ?case by (cases "b d m") (auto split: option.split)
qed simp

lemma execute_index:
  "execute d m =
     (case first_index handlers (uint (d_opcode d)) of
        None \<Rightarrow> (step_result Unimplemented (d_opcode d) (d_pc d), m)
      | Some k \<Rightarrow> the ((bands ! k) d m))"
  unfolding execute_def by (rule dispatch_index [OF bands_handlers])

text \<open>The assigned opcodes that no band takes.\<close>

lemma unhandled_opcodes_checked:
  "list_all (\<lambda>(k, i). oi_kind i = Assigned \<longrightarrow>
       (first_index handlers k = None \<longleftrightarrow> k = 0xBF \<or> 0xC8 \<le> k \<and> k \<le> 0xF7)) (zip [0..255] kOpcodeTable)"
  by code_simp

lemma unhandled_opcodes:
  assumes "oi_kind (opcode_info b) = Assigned"
  shows "first_index handlers (uint b) = None \<longleftrightarrow> b = op_kNop \<or> 0xC8 \<le> b \<and> b \<le> 0xF7"
proof -
  have l: "length kOpcodeTable = 256" using kOpcodeTable_checked by simp
  have n: "unat b < 256" by (rule u8_lt_256)
  then have "0 + int (unat b) \<le> 255" by linarith
  from nth_upto [OF this] have u: "[0..255] ! unat b = uint b" by simp
  have "zip [0..255] kOpcodeTable ! unat b = (uint b, opcode_info b)"
    using l n u by (simp add: opcode_info_def)
  moreover have "unat b < length (zip [0..255] kOpcodeTable)" using l n by simp
  ultimately have "(uint b, opcode_info b) \<in> set (zip [0..255] kOpcodeTable)" by (metis nth_mem)
  with unhandled_opcodes_checked assms
  have "first_index handlers (uint b) = None \<longleftrightarrow> uint b = 0xBF \<or> 0xC8 \<le> uint b \<and> uint b \<le> 0xF7"
    by (fastforce simp: list_all_iff)
  then show ?thesis by (simp add: word_le_def word_uint_eq_iff)
qed

section \<open>Every outcome\<close>

definition unimplemented :: "DecodedV2 \<Rightarrow> InterpreterV2 \<Rightarrow> outcome" where
  "unimplemented d m = (step_result Unimplemented (d_opcode d) (d_pc d), m)"

lemma dispatch_rule:
  assumes "\<And>band out. band \<in> set bs \<Longrightarrow> band d m = Some out \<Longrightarrow> Q out"
    and "Q (unimplemented d m)"
  shows "Q (dispatch bs d m)"
  using assms by (induction bs) (auto simp: unimplemented_def split: option.split)

lemma execute_effect:
  assumes "wf_machine m"
  shows "effect d m (execute d m) \<or> execute d m = unimplemented d m"
  unfolding execute_def
proof (rule dispatch_rule)
  fix band out assume "band \<in> set bands" and "band d m = Some out"
  with assms have "effect d m out" unfolding bands_def by (auto intro: band_effects)
  then show "effect d m out \<or> out = unimplemented d m" ..
qed simp

end
