(* ===== verification/Effects.thy ===== *)
theory Effects
  imports Execute
begin

text \<open>
  What the execute stage guarantees: it keeps the machine's invariant, its traps are precise, user
  code stays confined, a stored value is loaded back, division is exact, and every assigned opcode
  but the disclosed ones is executed.
\<close>

section \<open>The invariant\<close>

lemma wf_record_halt: "wf_csr c \<Longrightarrow> wf_csr (machine_record_halt k a b c)"
  by (simp add: wf_csr_def machine_record_halt_def)

lemma wf_effect:
  assumes "wf_machine m" and "effect d m out"
  shows "wf_machine (snd out)"
proof -
  have "wf_machine (snd out)" if "plain_effect d m out"
    using that assms(1) by (auto simp: plain_effect_def wf_machine_updates)
  moreover have "wf_machine (snd out)" if "store_effect d m out"
    using that wf_plan_access [OF _ assms(1)] by (auto simp: store_effect_def advance_def)
  moreover have "wf_machine (snd out)" if "trap_effect d m out"
    using that assms(1) by (auto simp: trap_effect_def wf_deliver wf_machine_updates)
  moreover have "wf_machine (snd out)" if "csr_effect d m out"
    using that assms(1) by (auto simp: csr_effect_def advance_def wf_machine_updates wf_access wf_machine_parts)
  moreover have "wf_machine (snd out)" if "supervisor_effect d m out"
    using that assms(1) wait_result [OF assms(1) prod.collapse [symmetric], of d]
    by (auto simp: supervisor_effect_def advance_def branch_to_def wf_machine_updates wf_record_halt wf_machine_parts)
  moreover have "wf_machine (snd out)" if "block_effect d m out"
    using that by (auto simp: block_effect_def block_ends_def block_done_def block_exit_def advance_def wf_deliver
        dest: carried_wf)
  ultimately show ?thesis using assms(2) by (auto simp: effect_def)
qed

lemma wf_execute [wf_intros]: "wf_machine m \<Longrightarrow> wf_machine (snd (execute d m))"
  using execute_effect [of m d] wf_effect [of m d "execute d m"] by (auto simp: unimplemented_def)

section \<open>Trapping\<close>

lemma trapped_effect:
  assumes "wf_machine m" and "execute d m = out" and "sr_status (fst out) = Trapped"
  shows "trap_effect d m out \<or> block_exit d m out \<and> block_effect d m out"
proof -
  have "sr_status (fst (execute_wait_for_interrupt d m)) \<noteq> Trapped"
    using wait_result [OF assms(1) prod.collapse [symmetric], of d] by (auto split: if_splits)
  with execute_effect [OF assms(1), of d] assms(2,3) show ?thesis
    by (auto simp: unimplemented_def effect_def plain_effect_def store_effect_def csr_effect_def supervisor_effect_def
        block_effect_def block_ends_def block_done_def advance_def branch_to_def step_result_def)
qed

section \<open>User level\<close>

text \<open>The control registers that user code cannot influence: all but the floating-point control
  register and the pending bits, which the devices drive.\<close>

definition guarded_csr :: "CsrFileV2 \<Rightarrow> CsrFileV2" where
  "guarded_csr c = c\<lparr>c_fcsr := 0, c_interrupt_pending := []\<rparr>"

lemma guarded_but_pending: "but_pending c = but_pending c' \<Longrightarrow> guarded_csr c = guarded_csr c'"
proof -
  assume "but_pending c = but_pending c'"
  then have "(but_pending c)\<lparr>c_fcsr := 0\<rparr> = (but_pending c')\<lparr>c_fcsr := 0\<rparr>" by simp
  moreover have "guarded_csr x = (but_pending x)\<lparr>c_fcsr := 0\<rparr>" for x
    by (rule CsrFileV2.equality) (simp_all add: guarded_csr_def but_pending_def)
  ultimately show ?thesis by simp
qed

lemma guarded_level: "guarded_csr c = guarded_csr c' \<Longrightarrow> privilege c = privilege c'"
  unfolding guarded_csr_def privilege_def by (cases c; cases c') simp

lemma user_access_guarded:
  "co_ok (fst (access c number User w v)) \<Longrightarrow> guarded_csr (snd (access c number User w v)) = guarded_csr c"
  by (subst user_access_effect, assumption) (simp add: guarded_csr_def)

lemma user_effect:
  assumes "wf_machine m" and "level m = User" and "execute d m = out" and "sr_status (fst out) \<noteq> Trapped"
  shows "(sr_status (fst out) = Advanced \<or> sr_status (fst out) = Unimplemented) \<and>
         guarded_csr (m_csr (snd out)) = guarded_csr (m_csr m) \<and>
         m_halted (snd out) = m_halted m \<and> ds_console (m_devices (snd out)) = ds_console (m_devices m)"
proof -
  have "\<not> trap_effect d m out" using assms(4) by (auto simp: trap_effect_def)
  moreover have "\<not> supervisor_effect d m out" using assms(2) by (simp add: supervisor_effect_def)
  moreover have ?thesis if "plain_effect d m out"
    using that by (auto simp: plain_effect_def step_result_def)
  moreover have ?thesis if s: "store_effect d m out"
  proof -
    from s obtain a w plan m1 v where "plan_access a w Store (level m) m = (Inr plan, m1)"
      and o: "out = advance d (write_planned plan 0 w v m1)"
      by (auto simp: store_effect_def)
    from plan_access_same [OF this(1)] o show ?thesis by (simp add: advance_def step_result_def)
  qed
  moreover have ?thesis if "csr_effect d m out"
    using that user_access_guarded assms(2) by (auto simp: csr_effect_def advance_def step_result_def)
  moreover have ?thesis if b: "block_effect d m out"
  proof -
    have "\<not> block_exit d m out" using assms(4) by (auto simp: block_exit_def)
    with b obtain m1 where "out = advance d m1" "carried m m1"
      by (auto simp: block_effect_def block_ends_def block_done_def)
    then show ?thesis
      using guarded_but_pending [of "m_csr m1" "m_csr m"] by (simp add: carried_def advance_def step_result_def)
  qed
  moreover have ?thesis if "out = unimplemented d m"
    using that by (simp add: unimplemented_def step_result_def)
  ultimately show ?thesis using execute_effect [OF assms(1), of d] assms(3) by (auto simp: effect_def)
qed

text \<open>A delivery either raises the level to supervisor and enters the handler the vector table
  names, or halts without touching the level.\<close>

lemma deliver_level:
  assumes "wf_machine m" and "deliver trap opc ipc m = (r, m')"
  shows "if sr_disposition r = Delivered
         then level m' = Supervisor \<and> m_pc m' = sr_handler r \<and> m_halted m' = m_halted m
         else level m' = level m \<and> m_halted m' \<and> m_memory m' = m_memory m"
  using assms(2)
proof (cases rule: deliver_split)
  case (halted t kind)
  then show ?thesis by (auto simp: delivery_halt_def machine_record_halt_def privilege_def)
next
  case (delivered vplan plan m1 m2)
  note s1 = plan_access_same [OF delivered(1)] and s2 = plan_access_same [OF delivered(4)]
  have w: "wf_csr (machine_set_trap_stack (c_trap_stack (m_csr m) - trap_frame_kBytes) (m_csr m))"
    by (intro wf_csr_set_trap_stack wf_machine_parts(2) assms(1))
  from s1 s2 delivered(5,6) privilege_enter_supervisor [OF w] show ?thesis by (simp add: delivery_entry_def)
qed

section \<open>Where block instructions store at user level\<close>

text \<open>
  A byte that user code may store to: some virtual address maps to it with store permission. The
  page tables are protected when bytes of that kind do not matter to a walk from the root: whatever
  user code stores, every walk ends as before.
\<close>

definition storable :: "InterpreterV2 \<Rightarrow> u64 \<Rightarrow> bool" where
  "storable m p \<longleftrightarrow> (\<exists>a. translate_spec (m_memory m) (c_paging_root (m_csr m)) User Store a = Inr p)"

definition tables_protected :: "InterpreterV2 \<Rightarrow> bool" where
  "tables_protected m \<longleftrightarrow>
     (\<forall>memory. mem_size memory = mem_size (m_memory m) \<and>
        (\<forall>q. read_byte memory q = read_byte (m_memory m) q \<or> storable m q) \<longrightarrow>
        tables_kept m (m\<lparr>m_memory := memory\<rparr>))"

text \<open>The machine after some stores of user code.\<close>

definition user_written :: "InterpreterV2 \<Rightarrow> InterpreterV2 \<Rightarrow> bool" where
  "user_written m m' \<longleftrightarrow> carried m m' \<and> tlb_ok m' \<and>
     (\<forall>q. read_byte (m_memory m') q = read_byte (m_memory m) q \<or> storable m q)"

lemma user_written_refl: "wf_machine m \<Longrightarrow> tlb_ok m \<Longrightarrow> user_written m m"
  by (simp add: user_written_def carried_refl)

lemma carried_csr:
  assumes "carried m m'"
  shows "c_paging_root (m_csr m') = c_paging_root (m_csr m)" and "level m' = level m"
    and "wf_machine m'" and "mem_size (m_memory m') = mem_size (m_memory m)"
  using assms but_pending_fields(1,4) [of "m_csr m'" "m_csr m"] by (auto simp: carried_def privilege_def)

lemma user_written_kept:
  assumes "tables_protected m" and "user_written m m'"
  shows "tables_kept m m'"
  using assms carried_csr(4) [of m m'] by (auto simp: tables_protected_def user_written_def tables_kept_def)

lemma user_written_plan:
  assumes "tables_protected m" and "user_written m m1" and "plan_byte a kind m1 = (v, m2)"
  shows "user_written m m2"
    and "level m = User \<Longrightarrow> kind = Store \<Longrightarrow> v = Inr p \<Longrightarrow> storable m p \<and> accessible (m_memory m2) p"
proof -
  have c: "carried m m1" and t: "tlb_ok m1" using assms(2) by (simp_all add: user_written_def)
  note w = carried_csr [OF c]
  obtain plan where pl: "plan_access a 1 kind (level m1) m1 = (plan, m2)"
    and v: "v = (case plan of Inl x \<Rightarrow> Inl x | Inr ps \<Rightarrow> Inr (ps ! 0))"
    using assms(3) by (auto simp: plan_byte_def split: prod.splits sum.splits)
  note s = plan_access_same [OF pl]
  show "user_written m m2"
    using assms(2) carried_trans [OF c plan_byte_carried(1) [OF w(3) assms(3)]]
      plan_access_spec(1) [OF w(3) t pl] s by (simp add: user_written_def)
  show "storable m p \<and> accessible (m_memory m2) p"
    if st: "level m = User" "kind = Store" and vp: "v = Inr p"
  proof -
    obtain ps where ps: "plan = Inr ps" "p = ps ! 0" using v vp by (cases plan) auto
    note n = plan_access_nth [OF w(3) t pl [unfolded ps(1)]]
    have "translate_spec (m_memory m1) (c_paging_root (m_csr m)) User Store a = Inr p"
      using n(2) [of 0] w(1,2) st by (simp add: ps(2))
    then have "storable m p"
      unfolding storable_def tables_kept_spec [OF user_written_kept [OF assms(1,2)]] by blast
    moreover have "accessible (m_memory m2) p" using n(1,3) s by (simp add: ps(2))
    ultimately show ?thesis ..
  qed
qed

lemma user_written_store:
  assumes "tables_protected m" and "user_written m m1" and "storable m p" and "accessible (m_memory m1) p"
  shows "user_written m (m1\<lparr>m_memory := write_byte (m_memory m1) p v\<rparr>)"
proof -
  let ?m2 = "m1\<lparr>m_memory := write_byte (m_memory m1) p v\<rparr>"
  have c: "carried m m1" and t: "tlb_ok m1" and k1: "tables_kept m m1"
    and o: "\<forall>q. read_byte (m_memory m1) q = read_byte (m_memory m) q \<or> storable m q"
    using assms(2) user_written_kept [OF assms(1,2)] by (simp_all add: user_written_def)
  have r: "\<forall>q. read_byte (m_memory ?m2) q = read_byte (m_memory m) q \<or> storable m q"
    using o assms(3) by (auto simp: read_write_byte [OF assms(4)])
  have k2: "tables_kept m ?m2"
    using assms(1) r carried_csr(4) [OF c] by (auto simp: tables_protected_def tables_kept_def)
  have "tables_kept m1 ?m2"
    using k1 k2 carried_csr(1) [OF c] by (auto simp: tables_kept_def)
  then have "tlb_ok ?m2" by (rule tables_kept_tlb_ok [OF t refl refl]) simp_all
  with c r show ?thesis by (simp add: user_written_def)
qed

lemma user_written_check:
  assumes "user_written m m1" and "block_mid_operation_interrupt k m1 = (n, m2)"
  shows "user_written m m2"
proof -
  have c: "carried m m1" and t: "tlb_ok m1" using assms(1) by (simp_all add: user_written_def)
  note i = mid_interrupt_carried [OF carried_csr(3) [OF c] assms(2)]
  have "tlb_ok m2" using t i carried_csr(1) [OF i(1)] by (simp add: tlb_ok_def)
  with assms(1) carried_trans [OF c i(1)] i(3) show ?thesis by (simp add: user_written_def)
qed

lemma user_written_copy:
  assumes "tables_protected m" and "level m = User" and "user_written m m1"
    and "plan_copy a b m1 = (Inr (p, q), m2)"
  shows "user_written m (copy_byte p q m2)"
proof -
  obtain p' n1 where 1: "plan_byte a Load m1 = (Inr p', n1)" and 2: "plan_byte b Store n1 = (Inr q, m2)"
    using assms(4) by (auto simp: plan_copy_def split: prod.splits sum.splits)
  note u = user_written_plan(1) [OF assms(1,3) 1]
  from user_written_plan [OF assms(1) u 2] assms(2) show ?thesis
    unfolding copy_byte_def by (intro user_written_store [OF assms(1)]) auto
qed

lemma block_set_user_written:
  assumes "tables_protected m" and "level m = User"
  shows "user_written m m1 \<Longrightarrow> block_set_loop left d fill dst c i m1 = Inr m' \<Longrightarrow> user_written m m'"
proof (induction left arbitrary: i m1)
  case (Suc left)
  obtain p m2 n m3 where p: "plan_byte (dst + i) Store m1 = (Inr p, m2)"
    and k: "block_mid_operation_interrupt (i + 1) (m2\<lparr>m_memory := write_byte (m_memory m2) p fill\<rparr>) = (n, m3)"
    and l: "block_set_loop left d fill dst c (i + 1) m3 = Inr m'"
    using Suc.prems(2) by (auto simp: Let_def split: prod.splits sum.splits if_splits)
  note u = user_written_plan [OF assms(1) Suc.prems(1) p]
  from u(2) [OF assms(2) refl refl] u(1)
  have "user_written m (m2\<lparr>m_memory := write_byte (m_memory m2) p fill\<rparr>)"
    by (intro user_written_store [OF assms(1)]) auto
  from Suc.IH [OF user_written_check [OF this k] l] show ?case .
qed simp

lemma block_copy_ascending_user_written:
  assumes "tables_protected m" and "level m = User"
  shows "user_written m m1 \<Longrightarrow> block_copy_ascending left d src dst c i m1 = Inr m' \<Longrightarrow> user_written m m'"
proof (induction left arbitrary: i m1)
  case (Suc left)
  obtain p q m2 n m3 where p: "plan_copy (src + i) (dst + i) m1 = (Inr (p, q), m2)"
    and k: "block_mid_operation_interrupt (i + 1) (copy_byte p q m2) = (n, m3)"
    and l: "block_copy_ascending left d src dst c (i + 1) m3 = Inr m'"
    using Suc.prems(2) by (auto simp: Let_def split: prod.splits sum.splits if_splits)
  note u = user_written_copy [OF assms Suc.prems(1) p]
  from Suc.IH [OF user_written_check [OF u k] l] show ?case .
qed simp

lemma block_copy_descending_user_written:
  assumes "tables_protected m" and "level m = User"
  shows "user_written m m1 \<Longrightarrow> block_copy_descending left d src dst c i m1 = Inr m' \<Longrightarrow> user_written m m'"
proof (induction left arbitrary: i m1)
  case (Suc left)
  obtain p q m2 n m3 where p: "plan_copy (src + (i - 1)) (dst + (i - 1)) m1 = (Inr (p, q), m2)"
    and k: "block_mid_operation_interrupt (c - (i - 1)) (copy_byte p q m2) = (n, m3)"
    and l: "block_copy_descending left d src dst c (i - 1) m3 = Inr m'"
    using Suc.prems(2) by (auto simp: Let_def split: prod.splits sum.splits if_splits)
  note u = user_written_copy [OF assms Suc.prems(1) p]
  from Suc.IH [OF user_written_check [OF u k] l] show ?case .
qed simp

text \<open>An outcome that traps, or whose memory only user stores have changed.\<close>

definition user_ends :: "InterpreterV2 \<Rightarrow> outcome \<Rightarrow> bool" where
  "user_ends m out \<longleftrightarrow>
     sr_status (fst out) = Trapped \<or> (\<exists>m1. user_written m m1 \<and> m_memory (snd out) = m_memory m1)"

lemma user_ends_if: "user_ends m x \<Longrightarrow> user_ends m y \<Longrightarrow> user_ends m (if b then x else y)"
  by simp

lemma user_ends_loop:
  assumes "loop_outcome d m loop" and "\<And>m1. loop = Inr m1 \<Longrightarrow> user_written m m1"
    and "\<And>m1. m_memory (snd (f m1)) = m_memory m1"
  shows "user_ends m (case loop of Inl out \<Rightarrow> out | Inr m1 \<Rightarrow> f m1)"
  using assms by (cases loop) (auto simp: user_ends_def loop_outcome_def block_exit_def)

lemma execute_block_user_ends:
  assumes "wf_machine m" and "tlb_ok m" and "tables_protected m" and "level m = User"
  shows "user_ends m (execute_block d m)"
proof -
  note u = user_written_refl [OF assms(1,2)]
  have raises: "user_ends m (raise_trap d c s a m)" for c s a by (simp add: user_ends_def raise_trap_def)
  have done0: "user_ends m (advance d m)" using u by (auto simp: user_ends_def advance_def)
  note loops = block_set_user_written [OF assms(3,4) u] block_copy_ascending_user_written [OF assms(3,4) u]
    block_copy_descending_user_written [OF assms(3,4) u]
  show ?thesis
    unfolding execute_block_def Let_def
    by (intro user_ends_if raises done0 user_ends_loop [where d = d] loop_outcome_if block_set_outcome
        block_copy_ascending_outcome block_copy_descending_outcome assms(1))
      (auto simp: advance_def split: if_splits intro: loops)
qed

lemma execute_block_group:
  assumes "op_kBlockCopy \<le> d_opcode d" and "d_opcode d \<le> op_kBlockSet"
  shows "execute d m = execute_block d m"
proof -
  have "d_opcode d = 0xB0 \<or> d_opcode d = 0xB1 \<or> d_opcode d = 0xB2"
    using assms by (auto simp: word_le_nat_alt word_unat_eq_iff)
  moreover have "first_index handlers (uint (0xB0 :: u8)) = Some 15" "first_index handlers (uint (0xB1 :: u8)) = Some 15"
    "first_index handlers (uint (0xB2 :: u8)) = Some 15"
    by code_simp+
  ultimately have "execute d m = the ((bands ! 15) d m)" by (auto simp: execute_index)
  with assms show ?thesis by (simp add: bands_def execute_blocks_def)
qed

section \<open>Properties\<close>

text \<open>C11: Executing any decoded instruction keeps the machine well formed: thirty-two registers,
  control registers with legal values only, a translation cache of its capacity and devices in
  legal states, whether the instruction completes, traps, halts or suspends.\<close>

theorem execute_keeps_invariant:
  assumes "wf_machine m"
  shows "wf_machine (snd (execute d m))"
  using assms by (rule wf_execute)

theorem execute_keeps_invariant_witness:
  "wf_machine (snd (execute (copy_demo op_kHalt) block_demo))"
proof -
  have "wf_machine block_demo" using quiet_block_demo by (simp add: quiet_def)
  then show ?thesis by (rule execute_keeps_invariant)
qed

text \<open>C5: Traps are precise. An instruction outside the block-memory group that traps has
  written no register, no memory byte and no device and has not moved the program counter: its
  outcome is the delivery of its trap from the machine as it was, up to translations cached on the
  way. The trap names the instruction itself, or the next one for the two trap instructions.\<close>

theorem traps_are_precise:
  assumes "wf_machine m" and "execute d m = (r, m')" and "sr_status r = Trapped"
    and "\<not> (op_kBlockCopy \<le> d_opcode d \<and> d_opcode d \<le> op_kBlockSet)"
  shows "\<exists>t. (r, m') = deliver (sr_trap r) (d_opcode d) (d_pc d) (m\<lparr>m_translator := t\<rparr>) \<and>
             (trap_pc (sr_trap r) = d_pc d \<or>
              trap_pc (sr_trap r) = d_next_pc d \<and>
              trap_cause (sr_trap r) \<in> {cause_kSyscall, cause_kBreakpoint})"
proof -
  from assms have "trap_effect d m (r, m')"
    using trapped_effect [of m d "(r, m')"] by (auto simp: block_effect_def)
  then obtain t trap where o: "(r, m') = deliver trap (d_opcode d) (d_pc d) (m\<lparr>m_translator := t\<rparr>)"
    and p: "trap_pc trap = d_pc d \<or>
      trap_pc trap = d_next_pc d \<and> (trap_cause trap = cause_kSyscall \<or> trap_cause trap = cause_kBreakpoint)"
    by (auto simp: trap_effect_def)
  have "sr_trap r = trap" using deliver_keeps [OF o [symmetric]] by simp
  with o p show ?thesis by auto
qed

definition divide_demo :: DecodedV2 where
  "divide_demo = (copy_demo op_kDivideSigned)\<lparr>d_reg := [2, 1, 3, 0]\<rparr>"

lemma divide_demo_traps:
  "execute divide_demo block_demo = raise_trap divide_demo cause_kDivideError subcode_kDivideByZero 0 block_demo"
proof -
  have o: "d_opcode divide_demo = op_kDivideSigned" "d_reg divide_demo = [2, 1, 3, 0]"
    by (simp_all add: divide_demo_def copy_demo_def)
  have "execute_moves divide_demo block_demo = None"
    by (simp add: execute_moves_def move_value_def o Let_def)
  moreover have "execute_integer divide_demo block_demo =
      Some (raise_trap divide_demo cause_kDivideError subcode_kDivideByZero 0 block_demo)"
    by (simp add: execute_integer_def integer_value_def divide_value_def divide_signed_def o Let_def
        block_demo_fields)
  ultimately show ?thesis by (simp add: execute_def bands_def)
qed

theorem traps_are_precise_witness:
  "\<exists>t. execute divide_demo block_demo =
       deliver \<lparr>trap_cause = cause_kDivideError, trap_subcode = subcode_kDivideByZero, trap_aux = 0,
                trap_pc = 0x40\<rparr> op_kDivideSigned 0x40 (block_demo\<lparr>m_translator := t\<rparr>)"
proof -
  have w: "wf_machine block_demo" using quiet_block_demo by (simp add: quiet_def)
  have d: "d_opcode divide_demo = op_kDivideSigned" "d_pc divide_demo = 0x40"
    by (simp_all add: divide_demo_def copy_demo_def)
  have s: "sr_status (fst (execute divide_demo block_demo)) = Trapped"
    and t: "sr_trap (fst (execute divide_demo block_demo)) =
      \<lparr>trap_cause = cause_kDivideError, trap_subcode = subcode_kDivideByZero, trap_aux = 0, trap_pc = 0x40\<rparr>"
    by (simp_all add: divide_demo_traps raise_trap_def d)
  have b: "\<not> (op_kBlockCopy \<le> d_opcode divide_demo \<and> d_opcode divide_demo \<le> op_kBlockSet)"
    by (simp add: d)
  from traps_are_precise [OF w prod.collapse [symmetric] s b] show ?thesis by (auto simp: t d)
qed

text \<open>C4: User code is confined. An instruction executed at user level either completes, or is one
  of the disclosed unimplemented ones, or traps. Unless it traps, the level stays user, no control
  register but the floating-point one and the device-driven pending bits has changed, the machine
  has not halted and no console port was touched. The level can rise only by a delivered trap, and
  then the program counter is the handler that the supervisor's vector table names.\<close>

theorem user_code_confined:
  assumes "wf_machine m" and "level m = User" and "execute d m = (r, m')"
  shows "(if sr_status r = Trapped
          then sr_disposition r = Delivered \<and> level m' = Supervisor \<and> m_pc m' = sr_handler r \<or>
               sr_disposition r \<noteq> Delivered \<and> level m' = User \<and> m_halted m'
          else (sr_status r = Advanced \<or> sr_status r = Unimplemented) \<and> level m' = User \<and>
               (m_csr m')\<lparr>c_fcsr := 0, c_interrupt_pending := []\<rparr> =
                 (m_csr m)\<lparr>c_fcsr := 0, c_interrupt_pending := []\<rparr> \<and>
               m_halted m' = m_halted m \<and> ds_console (m_devices m') = ds_console (m_devices m))"
proof -
  show ?thesis
  proof (cases "sr_status r = Trapped")
    case False
    with user_effect [OF assms] guarded_level [of "m_csr m'" "m_csr m"] assms(2) show ?thesis
      by (simp add: guarded_csr_def)
  next
    case True
    then have "trap_effect d m (r, m') \<or> block_exit d m (r, m')"
      using trapped_effect [OF assms(1,3)] by auto
    then obtain trap opc m1 where o: "deliver trap opc (d_pc d) m1 = (r, m')"
      and w: "wf_machine m1" and l: "level m1 = level m"
    proof
      assume "trap_effect d m (r, m')"
      with that assms(1) show thesis by (auto simp: trap_effect_def wf_machine_updates)
    next
      assume "block_exit d m (r, m')"
      then obtain trap opc m1 where "(r, m') = deliver trap opc (d_pc d) m1" "carried m m1"
        by (auto simp: block_exit_def)
      with that [of trap opc m1] guarded_level [OF guarded_but_pending, of "m_csr m1" "m_csr m"]
      show thesis by (simp add: carried_def)
    qed
    with deliver_level [OF w o] True assms(2) show ?thesis by (auto split: if_splits)
  qed
qed

lemma tiny_level: "level tiny_machine = User"
  by (simp add: privilege_def privilege_of_bits_def tiny_fields)

theorem user_code_confined_witness:
  "level (snd (execute (copy_demo op_kAdd) tiny_machine)) = User \<and>
   sr_status (fst (execute (copy_demo op_kHalt) tiny_machine)) = Trapped \<and>
   (let out = execute (copy_demo op_kHalt) tiny_machine
    in level (snd out) = Supervisor \<longrightarrow> m_pc (snd out) = sr_handler (fst out))"
proof -
  have o: "d_opcode (copy_demo x) = x" for x by (simp add: copy_demo_def)
  have "first_index handlers (uint op_kAdd) = Some 1" "first_index handlers (uint op_kHalt) = Some 19"
    by code_simp+
  then have "execute (copy_demo op_kAdd) tiny_machine = the (execute_integer (copy_demo op_kAdd) tiny_machine)"
    and "execute (copy_demo op_kHalt) tiny_machine = the (execute_halt (copy_demo op_kHalt) tiny_machine)"
    by (simp_all add: execute_index o bands_def)
  then have "sr_status (fst (execute (copy_demo op_kAdd) tiny_machine)) = Advanced"
    and "sr_status (fst (execute (copy_demo op_kHalt) tiny_machine)) = Trapped"
    by (simp_all add: execute_integer_def execute_halt_def integer_value_def o Let_def write_advance_def
        advance_def step_result_def tiny_level raise_trap_def)
  with user_code_confined [OF wf_tiny_machine tiny_level prod.collapse [symmetric], of "copy_demo op_kAdd"]
    user_code_confined [OF wf_tiny_machine tiny_level prod.collapse [symmetric], of "copy_demo op_kHalt"]
  show ?thesis by (auto simp: Let_def)
qed

text \<open>C9: User code writes only where the page tables let it. While the translation cache agrees
  with the tables, a byte that differs after a completed instruction at user level, block-memory
  instructions included, is one that some virtual address maps to with store permission at user
  level. For the block-memory group, which translates again for every byte, the tables must be
  protected: no byte that user code may store to takes part in a walk from the root.\<close>

theorem user_stores_permitted:
  assumes "wf_machine m" and "tlb_ok m" and "level m = User" and "execute d m = (r, m')"
    and "sr_status r \<noteq> Trapped"
    and "op_kBlockCopy \<le> d_opcode d \<and> d_opcode d \<le> op_kBlockSet \<longrightarrow> tables_protected m"
    and "read_byte (m_memory m') p \<noteq> read_byte (m_memory m) p"
  shows "\<exists>a. translate_spec (m_memory m) (c_paging_root (m_csr m)) User Store a = Inr p"
proof (cases "op_kBlockCopy \<le> d_opcode d \<and> d_opcode d \<le> op_kBlockSet")
  case True
  then have "execute_block d m = (r, m')" using execute_block_group [of d m] assms(4) by simp
  with execute_block_user_ends [OF assms(1,2) _ assms(3), of d] assms(5-7) True show ?thesis
    by (auto simp: user_ends_def user_written_def storable_def)
next
  case nb: False
  have "effect d m (r, m')"
    using execute_effect [OF assms(1), of d] assms(4,7) by (auto simp: unimplemented_def)
  moreover have "\<not> trap_effect d m (r, m')"
  proof
    assume "trap_effect d m (r, m')"
    then obtain t trap where "(r, m') = deliver trap (d_opcode d) (d_pc d) (m\<lparr>m_translator := t\<rparr>)"
      by (auto simp: trap_effect_def)
    with deliver_keeps [OF this [symmetric]] assms(5) show False by simp
  qed
  moreover have "\<not> plain_effect d m (r, m')" "\<not> csr_effect d m (r, m')" "\<not> supervisor_effect d m (r, m')"
    "\<not> block_effect d m (r, m')"
    using assms(3,7) nb
    by (auto simp: plain_effect_def csr_effect_def supervisor_effect_def block_effect_def advance_def)
  ultimately have "store_effect d m (r, m')" by (simp add: effect_def)
  then obtain a w plan m1 v where pl: "plan_access a w Store (level m) m = (Inr plan, m1)"
    and m': "m' = (write_planned plan 0 w v m1)\<lparr>m_pc := d_next_pc d\<rparr>"
    by (auto simp: store_effect_def advance_def)
  have mem: "m_memory m1 = m_memory m" using plan_access_same [OF pl] by simp
  note n = plan_access_nth [OF assms(1,2) pl]
  have "\<exists>i < w. plan ! i = p"
  proof (rule ccontr)
    assume "\<not> (\<exists>i < w. plan ! i = p)"
    then have "read_byte (m_memory m') p = read_byte (m_memory m1) p"
      unfolding m' write_planned_def using n(1,3)
      by (simp add: mem) (rule phys.rd_fold_miss, auto)
    with assms(7) mem show False by simp
  qed
  then obtain i where i: "i < w" "plan ! i = p" by blast
  with n(2) [of i] assms(3) show ?thesis by auto
qed

text \<open>A machine at user level with one readable, writable user page that maps memory onto itself.\<close>

definition paged_demo :: InterpreterV2 where
  "paged_demo = (new_interpreter \<lparr>mem_bytes = [0x17, 0, 0, 0, 0, 0, 0, 0, 1, 2, 3, 4]\<rparr> 0x40)
     \<lparr>m_csr := reset_csr\<lparr>c_paging_root := 1, c_status := 4\<rparr>,
      m_registers := \<lparr>reg_file = [0, 0x1FF, 9] @ replicate 29 0\<rparr>\<rparr>"

definition store_demo :: DecodedV2 where
  "store_demo = (copy_demo op_kStoreB)\<lparr>d_reg := [1, 2, 0, 0]\<rparr>"

lemma paged_demo_fields:
  "c_paging_root (m_csr paged_demo) = 1" "level paged_demo = User" "m_translator paged_demo = new_translator"
  "m_memory paged_demo = \<lparr>mem_bytes = [0x17, 0, 0, 0, 0, 0, 0, 0, 1, 2, 3, 4]\<rparr>"
  "get_register (Suc 0) paged_demo = 0x1FF" "get_register 2 paged_demo = 9"
  by (simp_all add: paged_demo_def new_interpreter_def privilege_def privilege_of_bits_def read_reg_def)

lemma wf_paged_demo: "wf_machine paged_demo" "tlb_ok paged_demo"
proof -
  have "wf_csr (reset_csr\<lparr>c_paging_root := 1, c_status := 4\<rparr>)" by code_simp
  moreover have "wf_registers \<lparr>reg_file = [0, 0x1FF, 9] @ replicate 29 0\<rparr>" by (simp add: wf_registers_def)
  ultimately show "wf_machine paged_demo" by (simp add: paged_demo_def wf_machine_updates)
  have "coherent new_translator x 1" for x by (simp add: coherent_def new_translator_def covers_def)
  then show "tlb_ok paged_demo" by (simp add: tlb_ok_def paged_demo_fields)
qed

lemma store_demo_runs:
  "sr_status (fst (execute store_demo paged_demo)) = Advanced"
  "read_byte (m_memory (snd (execute store_demo paged_demo))) 9 = 0xFF"
proof -
  have o: "d_opcode store_demo = op_kStoreB" "d_reg store_demo = [1, 2, 0, 0]"
    by (simp_all add: store_demo_def copy_demo_def)
  have "first_index handlers (uint op_kStoreB) = Some 11" by code_simp
  then have "execute store_demo paged_demo = the (execute_stores store_demo paged_demo)"
    by (simp add: execute_index o bands_def)
  also have "\<dots> = execute_store store_demo 1 False paged_demo"
    by (simp add: execute_stores_def store_form_def o)
  finally have e: "execute store_demo paged_demo = execute_store store_demo 1 False paged_demo" .
  obtain v m1 where p: "plan_access 9 1 Store User paged_demo = (v, m1)"
    by (cases "plan_access 9 1 Store User paged_demo")
  have "fst (plan_access 9 1 Store User paged_demo) = Inr [9]" by code_simp
  with p have v: "v = Inr [9]" by simp
  from plan_access_same [OF p]
  show "sr_status (fst (execute store_demo paged_demo)) = Advanced"
    "read_byte (m_memory (snd (execute store_demo paged_demo))) 9 = 0xFF"
    unfolding e using p
    by (simp_all add: execute_store_def access_address_def o paged_demo_fields v advance_def step_result_def
        write_planned_def) (simp add: read_byte_def write_byte_def)
qed

text \<open>The machine of the block demonstrations at user level, its copy of two bytes onto memory.\<close>

lemma user_block_demo:
  defines "m \<equiv> block_demo\<lparr>m_csr := reset_csr\<lparr>c_status := 0\<rparr>\<rparr>"
  shows "wf_machine m" and "tlb_ok m" and "level m = User" and "tables_protected m"
    and "sr_status (fst (execute (copy_demo op_kBlockCopy) m)) = Advanced"
    and "read_byte (m_memory (snd (execute (copy_demo op_kBlockCopy) m))) 2 = 1"
proof -
  let ?d = "copy_demo op_kBlockCopy"
  have "wf_csr (reset_csr\<lparr>c_status := 0\<rparr>)" by code_simp
  then show w: "wf_machine m" using quiet_block_demo by (simp add: m_def quiet_def wf_machine_updates)
  show "tlb_ok m" "level m = User" "tables_protected m"
    by (simp_all add: m_def tlb_ok_def reset_csr_def privilege_def privilege_of_bits_def tables_protected_def
        tables_kept_def)
  have q: "quiet m" using w by (simp add: quiet_def m_def reset_csr_def interrupts_enabled_def)
  have f: "get_register (Suc 0) m = 0" "get_register 2 m = 2" "get_register 3 m = 4"
    "m_memory m = m_memory block_demo"
    using block_demo_fields by (simp_all add: m_def)
  have e: "execute ?d m = execute_block ?d m" by (rule execute_block_group) (simp_all add: copy_demo_def)
  have c: "copies_descending op_kBlockCopy 0 2 4" by (simp add: copies_descending_def Let_def)
  note t = execute_block_copy_quiet [OF q, of ?d 0 2 4, OF _ _ _ _ _ _ _ _ _ prod.collapse [symmetric]]
  have r: "sr_status (fst (execute_block ?d m)) = Advanced \<and>
      m_memory (snd (execute_block ?d m)) = copy_bytes 0 2 (rev [0..<4]) (m_memory m)"
    using t block_demo_accessible c by (simp add: copy_demo_def f)
  then show "sr_status (fst (execute ?d m)) = Advanced" by (simp add: e)
  have "read_byte (copy_bytes 0 2 (rev [0..<4]) \<lparr>mem_bytes = [1, 2, 3, 4, 5, 6, 7, 8]\<rparr>) 2 = 1" by code_simp
  with r show "read_byte (m_memory (snd (execute ?d m))) 2 = 1" by (simp add: e f block_demo_fields)
qed

theorem user_stores_permitted_witness:
  "(\<exists>a. translate_spec (m_memory paged_demo) 1 User Store a = Inr 9) \<and>
   (\<exists>a. translate_spec (m_memory block_demo) 0 User Store a = Inr 2)"
proof
  have o: "d_opcode store_demo = op_kStoreB" by (simp add: store_demo_def copy_demo_def)
  have r: "read_byte (m_memory (snd (execute store_demo paged_demo))) 9 \<noteq> read_byte (m_memory paged_demo) 9"
    by (simp add: store_demo_runs paged_demo_fields) (simp add: read_byte_def)
  have s: "sr_status (fst (execute store_demo paged_demo)) \<noteq> Trapped" by (simp add: store_demo_runs)
  have b: "op_kBlockCopy \<le> d_opcode store_demo \<and> d_opcode store_demo \<le> op_kBlockSet \<longrightarrow>
      tables_protected paged_demo" by (simp add: o)
  from user_stores_permitted [OF wf_paged_demo paged_demo_fields(2) prod.collapse [symmetric] s b r]
  show "\<exists>a. translate_spec (m_memory paged_demo) 1 User Store a = Inr 9" by (simp add: paged_demo_fields)
  let ?m = "block_demo\<lparr>m_csr := reset_csr\<lparr>c_status := 0\<rparr>\<rparr>" and ?d = "copy_demo op_kBlockCopy"
  note u = user_block_demo
  have s2: "sr_status (fst (execute ?d ?m)) \<noteq> Trapped" by (simp add: u(5))
  have r2: "read_byte (m_memory (snd (execute ?d ?m))) 2 \<noteq> read_byte (m_memory ?m) 2"
    unfolding u(6) by (simp add: block_demo_fields read_byte_def)
  have b2: "op_kBlockCopy \<le> d_opcode ?d \<and> d_opcode ?d \<le> op_kBlockSet \<longrightarrow> tables_protected ?m"
    using u(4) by simp
  from user_stores_permitted [OF u(1-3) prod.collapse [symmetric] s2 b2 r2]
  show "\<exists>a. translate_spec (m_memory block_demo) 0 User Store a = Inr 2" by (simp add: reset_csr_def)
qed

text \<open>C12: A stored value is loaded back. After a store completes, a load of the same width from
  the same address gives the stored register's low bytes, extended as the load says, provided the
  bytes of the access are at distinct physical addresses and the store did not change the page
  tables; both hold whenever translation is off.\<close>

theorem stored_value_is_loaded:
  assumes "wf_machine m" and "tlb_ok m" and "w \<in> {1, 2, 4, 8}"
    and "execute_store d w disp m = (r1, m1)" and "sr_status r1 = Advanced"
    and "tables_kept m m1"
    and "inj_on (\<lambda>i. translate_spec (m_memory m) (c_paging_root (m_csr m)) (level m) Store
                     (access_address d (d_reg d ! 1) disp m + of_nat i)) {..<w}"
    and "access_address e (d_reg e ! 0) disp' m1 = access_address d (d_reg d ! 1) disp m"
    and "0 < d_reg e ! 1" and "d_reg e ! 1 < 32"
    and "execute_load e w extended disp' m1 = (r2, m2)"
  shows "sr_status r2 = Advanced \<and>
         get_register (d_reg e ! 1) m2 =
           (if extended then sign_extend (get_register (d_reg d ! 0) m) (w * 8)
            else zero_extend (get_register (d_reg d ! 0) m) (w * 8))"
proof -
  define a where "a = access_address d (d_reg d ! 1) disp m"
  define x where "x = get_register (d_reg d ! 0) m"
  have w8: "0 < w" "w \<le> 8" using assms(3) by auto
  obtain v n where p: "plan_access a w Store (level m) m = (v, n)" by (cases "plan_access a w Store (level m) m")
  note sn = plan_access_same [OF p]
  have st: "execute_store d w disp m =
      (case v of Inl t \<Rightarrow> raise_trap d (trap_cause t) (trap_subcode t) (trap_aux t) n
       | Inr plan \<Rightarrow> advance d (write_planned plan 0 w x n))"
    unfolding execute_store_def Let_def a_def [symmetric] p using sn by (cases v) (simp_all add: x_def)
  have "sr_status (fst (execute_store d w disp m)) = Advanced" using assms(4,5) by simp
  then obtain plan where v: "v = Inr plan" unfolding st by (cases v) (simp_all add: raise_trap_def)
  note pp = p [unfolded v]
  have m1: "m1 = (write_planned plan 0 w x n)\<lparr>m_pc := d_next_pc d\<rparr>"
    using st assms(4) v by (simp add: advance_def)
  note acc = plan_access_nth(3) [OF assms(1,2) pp] and len = plan_access_nth(1) [OF assms(1,2) pp]
  have dist: "distinct plan" by (rule plan_distinct [OF assms(1,2) pp]) (use assms(7) in \<open>simp add: a_def\<close>)
  have wf1: "wf_machine m1" using wf_plan_access [OF p assms(1)] by (simp add: m1)
  have f1: "m_csr m1 = m_csr m" "m_registers m1 = m_registers m" "m_translator m1 = m_translator n"
    using sn by (simp_all add: m1)
  have tlb1: "tlb_ok m1"
    by (rule tables_kept_tlb_ok [OF plan_access_spec(1) [OF assms(1,2) p] _ _ assms(6)]) (use sn f1 in simp_all)
  obtain v2 n2 where q: "plan_access a w Load (level m1) m1 = (v2, n2)"
    by (cases "plan_access a w Load (level m1) m1")
  have "v2 = Inr plan"
    using replan_load [OF assms(1,2) pp wf1 tlb1 assms(6)] q f1 sn by (simp add: m1)
  moreover have "read_planned plan 0 w n2 = take_bit (w * 8) x"
  proof -
    have "read_planned plan 0 w n2 = read_planned plan 0 w (write_planned plan 0 w x n)"
      using plan_access_same [OF q] by (simp add: read_planned_def m1)
    then show ?thesis
      using read_write_planned_same [OF dist, of 0 w n x] w8 len acc sn by (simp add: mult.commute)
  qed
  ultimately have "execute_load e w extended disp' m1 = write_advance e (d_reg e ! 1)
      (if extended then sign_extend (take_bit (w * 8) x) (w * 8)
       else if w * 8 \<ge> 64 then take_bit (w * 8) x else zero_extend (take_bit (w * 8) x) (w * 8)) n2"
    unfolding execute_load_def Let_def assms(8) a_def [symmetric] q by simp
  moreover have "sign_extend (take_bit (w * 8) x) (w * 8) = sign_extend x (w * 8)"
    using w8 by (simp add: sign_extend_signed_take_bit)
      (intro bit_word_eqI, auto simp: bit_simps min_def)
  moreover have "(if w * 8 \<ge> 64 then take_bit (w * 8) x else zero_extend (take_bit (w * 8) x) (w * 8)) =
      zero_extend x (w * 8)"
    by (simp add: zero_extend_take_bit)
  ultimately show ?thesis
    using assms(9-11) wf_machine_parts(1) [OF wf1] plan_access_same [OF q]
    by (auto simp: write_advance_def advance_def step_result_def x_def read_write_reg)
qed

definition half_store :: DecodedV2 where
  "half_store = (copy_demo op_kStoreQ)\<lparr>d_reg := [3, 2, 0, 0]\<rparr>"

definition half_load :: DecodedV2 where
  "half_load = (copy_demo op_kLoadSq)\<lparr>d_reg := [2, 5, 0, 0]\<rparr>"

theorem stored_value_is_loaded_witness:
  "let m1 = snd (execute_store half_store 2 False block_demo);
       m2 = snd (execute_load half_load 2 True False m1)
   in get_register 5 m2 = sign_extend 4 16"
proof -
  let ?m1 = "snd (execute_store half_store 2 False block_demo)"
  have w: "wf_machine block_demo" using quiet_block_demo by (simp add: quiet_def)
  have b: "c_paging_root (m_csr block_demo) AND paging_root_kModeMask = paging_root_kModeBare"
    using quiet_block_demo by (simp add: quiet_def)
  have t: "tlb_ok block_demo" and k: "tables_kept block_demo ?m1"
    using b by (simp_all add: tlb_ok_def tables_kept_def)
  have r: "d_reg half_store = [3, 2, 0, 0]" "d_reg half_load = [2, 5, 0, 0]"
    by (simp_all add: half_store_def half_load_def)
  have a: "access_address half_store 2 False block_demo = 2" by (simp add: access_address_def block_demo_fields)
  have l: "level block_demo = Supervisor" by code_simp
  have "fst (plan_access 2 2 Store Supervisor block_demo) = Inr [2, 3]" by code_simp
  then obtain n where p: "plan_access 2 2 Store Supervisor block_demo = (Inr [2, 3], n)"
    by (metis prod.collapse)
  then have s: "sr_status (fst (execute_store half_store 2 False block_demo)) = Advanced"
    and rg: "m_registers ?m1 = m_registers block_demo"
    using plan_access_same [OF p]
    by (simp_all add: execute_store_def r a l advance_def step_result_def Let_def)
  have i: "inj_on (\<lambda>i. translate_spec (m_memory block_demo) (c_paging_root (m_csr block_demo)) (level block_demo) Store
       (access_address half_store (d_reg half_store ! 1) False block_demo + of_nat i)) {..<2}"
    using b by (simp add: translate_spec_def inj_on_def of_nat_inj_64)
  have e: "access_address half_load (d_reg half_load ! 0) False ?m1 =
      access_address half_store (d_reg half_store ! 1) False block_demo"
    by (simp add: access_address_def r rg)
  have "2 \<in> {1, 2, 4, 8 :: nat}" "0 < d_reg half_load ! 1" "d_reg half_load ! 1 < 32" by (simp_all add: r)
  from stored_value_is_loaded [OF w t this(1) prod.collapse [symmetric] s k i e this(2,3)
      prod.collapse [symmetric], where extended = True]
  show ?thesis by (simp add: r Let_def block_demo_fields)
qed

section \<open>Division\<close>

lemma sint_word_of_int_small:
  "- (2 ^ 63) \<le> k \<Longrightarrow> k < 2 ^ 63 \<Longrightarrow> sint (word_of_int k :: u64) = k"
  by (simp add: signed_of_int signed_take_bit_int_eq_self)

lemma sint_range_64: "- (2 ^ 63) \<le> sint (a :: u64)" "sint (a :: u64) < 2 ^ 63"
  using sint_greater_eq [of a] sint_less [of a] by simp_all

lemma minimum_sint: "a = push_bit 63 (1 :: u64) \<longleftrightarrow> sint a = - (2 ^ 63)"
proof
  assume "sint a = - (2 ^ 63)"
  then have "word_of_int (sint a) = (word_of_int (- (2 ^ 63)) :: u64)" by simp
  then show "a = push_bit 63 1" by (simp add: push_bit_of_1)
qed (simp add: push_bit_of_1)

lemma all_ones_sint: "b = (kAllOnes :: u64) \<longleftrightarrow> sint b = - 1"
proof
  assume "sint b = - 1"
  then have "word_of_int (sint b) = (word_of_int (- 1) :: u64)" by simp
  then show "b = NOT 0" by simp
qed simp

lemma signed_division_exact:
  fixes a b :: u64
  assumes "b \<noteq> 0" and "\<not> (sint a = - (2 ^ 63) \<and> sint b = - 1)"
  shows "sint (word_of_int (sint a sdiv sint b) :: u64) = sint a sdiv sint b"
    and "sint (word_of_int (sint a smod sint b) :: u64) = sint a smod sint b"
    and "\<bar>sint a smod sint b\<bar> < \<bar>sint b\<bar>"
    and "sint a smod sint b = 0 \<or> (sint a smod sint b < 0 \<longleftrightarrow> sint a < 0)"
proof -
  let ?x = "sint a" and ?y = "sint b"
  have y: "?y \<noteq> 0"
  proof
    assume "?y = 0"
    then have "word_of_int (sint b) = (word_of_int 0 :: u64)" by simp
    with assms(1) show False by simp
  qed
  have q: "- \<bar>?x\<bar> \<le> ?x sdiv ?y" "?x sdiv ?y \<le> \<bar>?x\<bar>" using sdiv_int_range [of ?x ?y] by auto
  have "?x sdiv ?y \<noteq> 2 ^ 63"
  proof
    assume h: "?x sdiv ?y = 2 ^ 63"
    with q(2) sint_range_64 [of a] have x: "?x = - (2 ^ 63)" by linarith
    with h have "?x sdiv ?y = - ?x" by simp
    with x assms(2) show False using int_sdiv_negated_is_minus1 [of ?x ?y] by simp
  qed
  with q sint_range_64 [of a] show "sint (word_of_int (?x sdiv ?y) :: u64) = ?x sdiv ?y"
    by (intro sint_word_of_int_small) linarith+
  show r: "\<bar>?x smod ?y\<bar> < \<bar>?y\<bar>" using smod_int_range [OF y, of ?x] by auto
  with sint_range_64 [of b] show "sint (word_of_int (?x smod ?y) :: u64) = ?x smod ?y"
    by (intro sint_word_of_int_small) linarith+
  have "0 \<le> \<bar>?x\<bar> mod \<bar>?y\<bar>" using y by simp
  then show "?x smod ?y = 0 \<or> (?x smod ?y < 0 \<longleftrightarrow> ?x < 0)"
    by (cases "?x" "0 :: int" rule: linorder_cases) (auto simp: smod_int_alt_def)
qed

text \<open>C19: Division is exact. Unsigned quotient and remainder satisfy the division identity with the
  remainder below the divisor; signed division truncates toward zero, its remainder takes the
  dividend's sign and is smaller in magnitude than the divisor. Division traps exactly on a zero
  divisor and on the one quotient that does not fit, and the remainder of that pair is zero.\<close>

theorem division_exact:
  "(case (divide_unsigned a b, remainder_unsigned a b) of
      (Inr q, Inr r) \<Rightarrow> b \<noteq> 0 \<and> unat a = unat q * unat b + unat r \<and> unat r < unat b
    | (Inl c, Inl c') \<Rightarrow> b = 0 \<and> c = subcode_kDivideByZero \<and> c' = subcode_kDivideByZero
    | _ \<Rightarrow> False) \<and>
   (case (divide_signed a b, remainder_signed a b) of
      (Inr q, Inr r) \<Rightarrow> b \<noteq> 0 \<and> sint a = sint q * sint b + sint r \<and> \<bar>sint r\<bar> < \<bar>sint b\<bar> \<and>
                       (sint r = 0 \<or> (sint r < 0 \<longleftrightarrow> sint a < 0))
    | (Inl c, Inr r) \<Rightarrow> c = subcode_kQuotientOverflow \<and> r = 0 \<and> sint a = - (2 ^ 63) \<and> sint b = - 1
    | (Inl c, Inl c') \<Rightarrow> b = 0 \<and> c = subcode_kDivideByZero \<and> c' = subcode_kDivideByZero
    | _ \<Rightarrow> False)"
proof (intro conjI)
  show "case (divide_unsigned a b, remainder_unsigned a b) of
      (Inr q, Inr r) \<Rightarrow> b \<noteq> 0 \<and> unat a = unat q * unat b + unat r \<and> unat r < unat b
    | (Inl c, Inl c') \<Rightarrow> b = 0 \<and> c = subcode_kDivideByZero \<and> c' = subcode_kDivideByZero
    | _ \<Rightarrow> False"
    by (simp add: divide_unsigned_def remainder_unsigned_def unat_div unat_mod unat_gt_0)
next
  show "case (divide_signed a b, remainder_signed a b) of
      (Inr q, Inr r) \<Rightarrow> b \<noteq> 0 \<and> sint a = sint q * sint b + sint r \<and> \<bar>sint r\<bar> < \<bar>sint b\<bar> \<and>
                       (sint r = 0 \<or> (sint r < 0 \<longleftrightarrow> sint a < 0))
    | (Inl c, Inr r) \<Rightarrow> c = subcode_kQuotientOverflow \<and> r = 0 \<and> sint a = - (2 ^ 63) \<and> sint b = - 1
    | (Inl c, Inl c') \<Rightarrow> b = 0 \<and> c = subcode_kDivideByZero \<and> c' = subcode_kDivideByZero
    | _ \<Rightarrow> False"
  proof (cases "b = 0 \<or> sint a = - (2 ^ 63) \<and> sint b = - 1")
    case True
    then show ?thesis
      unfolding divide_signed_def remainder_signed_def minimum_sint all_ones_sint by auto
  next
    case False
    then have d: "divide_signed a b = Inr (word_of_int (sint a sdiv sint b))"
      "remainder_signed a b = Inr (word_of_int (sint a smod sint b))"
      unfolding divide_signed_def remainder_signed_def minimum_sint all_ones_sint by auto
    from False have n: "b \<noteq> 0" "\<not> (sint a = - (2 ^ 63) \<and> sint b = - 1)" by blast+
    show ?thesis
      unfolding d prod.case sum.case signed_division_exact(1,2) [OF n] sdiv_mult_smod_eq
      using n(1) signed_division_exact(3,4) [OF n] by blast
  qed
qed

lemma dispatch_handled:
  assumes "list_all2 (\<lambda>band takes. band d m = None \<longleftrightarrow> \<not> takes (uint (d_opcode d))) bs hs"
    and "first_index hs (uint (d_opcode d)) = Some k"
  shows "\<exists>band \<in> set bs. band d m = Some (dispatch bs d m)"
  using assms
proof (induction bs hs arbitrary: k rule: list_all2_induct)
  case (Cons b bs h hs)
  then show ?case by (cases "b d m") auto
qed simp

lemma handled_status:
  assumes "wf_machine m" and "first_index handlers (uint (d_opcode d)) = Some k"
  shows "sr_status (fst (execute d m)) \<noteq> Unimplemented"
proof -
  from dispatch_handled [OF bands_handlers assms(2), of m]
  have "effect d m (execute d m)" unfolding execute_def bands_def by (auto intro: band_effects assms(1))
  moreover have "sr_status (fst (execute_wait_for_interrupt d m)) \<noteq> Unimplemented"
    using wait_result [OF assms(1) prod.collapse [symmetric], of d] by (auto split: if_splits)
  ultimately show ?thesis
    by (auto simp: effect_def plain_effect_def store_effect_def trap_effect_def csr_effect_def supervisor_effect_def
        block_effect_def block_ends_def block_done_def block_exit_def advance_def branch_to_def step_result_def)
qed

text \<open>The exact set the execute stage reports as unimplemented: \<open>nop\<close>, which the instruction
  reference defines as doing nothing, and the floating-point band \<open>$C8\<close> to \<open>$F7\<close>.\<close>

theorem unimplemented_opcodes:
  assumes "wf_machine m" and "wf_decoded d"
  shows "(sr_status (fst (execute d m)) = Unimplemented \<longleftrightarrow>
            d_opcode d = op_kNop \<or> 0xC8 \<le> d_opcode d \<and> d_opcode d \<le> 0xF7) \<and>
         (sr_status (fst (execute d m)) = Unimplemented \<longrightarrow> snd (execute d m) = m)"
proof -
  have k: "oi_kind (opcode_info (d_opcode d)) = Assigned" using assms(2) by (simp add: wf_decoded_def Let_def)
  show ?thesis
  proof (cases "first_index handlers (uint (d_opcode d))")
    case None
    with unhandled_opcodes [OF k] show ?thesis by (simp add: execute_index step_result_def)
  next
    case (Some n)
    with handled_status [OF assms(1) Some] unhandled_opcodes [OF k] show ?thesis by simp
  qed
qed

theorem unimplemented_opcodes_witness:
  "sr_status (fst (execute (copy_demo op_kNop\<lparr>d_next_pc := 0x41, d_length := 1, d_operand_count := 0\<rparr>) block_demo)) =
     Unimplemented"
proof -
  let ?d = "copy_demo op_kNop\<lparr>d_next_pc := 0x41, d_length := 1, d_operand_count := 0\<rparr>"
  have w: "wf_machine block_demo" using quiet_block_demo by (simp add: quiet_def)
  have "wf_decoded ?d" by code_simp
  from unimplemented_opcodes [OF w this] show ?thesis by (simp add: copy_demo_def)
qed



end
