(* ===== verification/Step.thy ===== *)
theory Step
  imports Effects
begin

text \<open>
  One step of the machine and the run loop, \<^verbatim>\<open>InterpreterV2::step\<close> and \<^verbatim>\<open>InterpreterV2::run\<close> of
  \<^verbatim>\<open>src/v2/interpreter_v2.cpp\<close>, the machines reachable by steps and host calls, and what holds of
  all of them.
\<close>

section \<open>The step\<close>

definition fetch_source :: "InterpreterV2 \<Rightarrow> FetchSourceV2" where
  "fetch_source m =
     \<lparr>fs_memory = m_memory m, fs_translator = Some (m_translator m),
      fs_paging_root_value = read_raw (m_csr m) csr_kPagingRoot, fs_level = level m\<rparr>"

text \<open>The fetch source refers to the machine's own translator, so decoding leaves its cached
  translations there.\<close>

definition decode_at_pc :: "InterpreterV2 \<Rightarrow> (TrapV2 + DecodedV2) \<times> InterpreterV2" where
  "decode_at_pc m =
     (case decode_v2 (fetch_source m) (m_pc m) of
        (decoded, source) \<Rightarrow> (decoded, m\<lparr>m_translator := the (fs_translator source)\<rparr>))"

definition step :: "InterpreterV2 \<Rightarrow> outcome" where
  "step m =
     (if m_halted m then (step_result Halted 0 (m_pc m), m)
      else
        let m = sample_device_interrupts m
        in case decode_at_pc m of
             (Inl trap, m) \<Rightarrow> deliver trap 0 (trap_pc trap) m
           | (Inr decoded, m) \<Rightarrow>
               let interrupt = deliverable_interrupt m
               in if interrupt \<noteq> kNoCause then deliver_interrupt interrupt (m_pc m) m
                  else
                    let m = m\<lparr>m_steps_taken := m_steps_taken m + 1\<rparr>
                    in case execute decoded m of
                         (result, m) \<Rightarrow>
                           (result, m\<lparr>m_devices := advance_time kNanosecondsPerInstruction (m_devices m)\<rparr>))"

text \<open>The run loop has no bound when \<open>max_steps\<close> is zero: then it may not return.\<close>

partial_function (option) run_loop :: "u64 \<Rightarrow> u64 \<Rightarrow> InterpreterV2 \<Rightarrow> outcome option" where
  "run_loop max_steps taken m =
     (case step m of
        (result, m) \<Rightarrow>
          if sr_status result \<noteq> Advanced then Some (result, m)
          else let taken = taken + 1
               in if max_steps \<noteq> 0 \<and> taken \<ge> max_steps then Some (result, m)
                  else run_loop max_steps taken m)"

definition run :: "u64 \<Rightarrow> InterpreterV2 \<Rightarrow> outcome option" where
  "run max_steps m = run_loop max_steps 0 m"

section \<open>Decoding at the program counter\<close>

text \<open>Decoding keeps whatever each byte fetch keeps.\<close>

lemma decode_operands_keeps:
  assumes "\<And>s a. P s \<Longrightarrow> P (snd (g s a))"
  shows "P s \<Longrightarrow> P (snd (decode_operands g pc slots i n cursor d s))"
proof (induction n arbitrary: i cursor d s)
  case (Suc n)
  obtain r s' where l: "g s cursor = (r, s')" by (cases "g s cursor")
  with assms [OF Suc.prems, of cursor] have "P s'" by simp
  with l Suc.IH [of s'] show ?case by (auto simp: Let_def split: sum.split)
qed simp

lemma decode_immediate_keeps:
  assumes "\<And>s a. P s \<Longrightarrow> P (snd (g s a))"
  shows "P s \<Longrightarrow> P (snd (decode_immediate g pc b n cursor v s))"
proof (induction n arbitrary: b cursor v s)
  case (Suc n)
  obtain r s' where l: "g s cursor = (r, s')" by (cases "g s cursor")
  with assms [OF Suc.prems, of cursor] have "P s'" by simp
  with l Suc.IH [of s'] show ?case by (auto split: sum.split)
qed simp

lemma decode_immediates_keeps:
  assumes "\<And>s a. P s \<Longrightarrow> P (snd (g s a))"
  shows "P s \<Longrightarrow> P (snd (decode_immediates g pc widths i n cursor d s))"
proof (induction n arbitrary: i cursor d s)
  case (Suc n)
  obtain r s' where l: "decode_immediate g pc 0 (widths ! i) cursor 0 s = (r, s')"
    by (cases "decode_immediate g pc 0 (widths ! i) cursor 0 s")
  with decode_immediate_keeps [of P g, OF assms Suc.prems, where pc = pc and b = 0 and n = "widths ! i" and cursor = cursor and v = 0] have "P s'" by simp
  with l Suc.IH [of s'] show ?case by (auto simp: Let_def split: sum.split)
qed simp

lemma decode_with_keeps:
  assumes "\<And>s a. P s \<Longrightarrow> P (snd (g s a))" and "P s"
  shows "P (snd (decode_with g s pc))"
proof -
  obtain r s' where l: "g s pc = (r, s')" by (cases "g s pc")
  with assms(1) [OF assms(2), of pc] have s': "P s'" by simp
  show ?thesis
  proof (cases r)
    case (Inl t)
    with l s' show ?thesis by (simp add: decode_with_def)
  next
    case (Inr b)
    let ?i = "opcode_info b"
    let ?s = "shape_info (oi_shape ?i)"
    let ?d = "\<lparr>d_opcode = b, d_pc = pc, d_next_pc = pc + of_nat (oi_length ?i), d_length = oi_length ?i,
      d_operand_count = si_operands ?s, d_reg = replicate 4 0, d_form = replicate 4 0,
      d_immediate_count = si_immediates ?s, d_immediate = replicate 2 0, d_immediate_bytes = replicate 2 0\<rparr>"
    obtain q s'' where o1: "decode_operands g pc (oi_slots ?i) 0 (si_operands ?s) (pc + 1) ?d s' = (q, s'')"
      by (cases "decode_operands g pc (oi_slots ?i) 0 (si_operands ?s) (pc + 1) ?d s'")
    with decode_operands_keeps [of P g, OF assms(1) s', where pc = pc and slots = "oi_slots ?i" and i = 0
        and n = "si_operands ?s" and cursor = "pc + 1" and d = ?d]
    have s'': "P s''" by simp
    then show ?thesis
      using l s' o1 Inr decode_immediates_keeps [of P g, OF assms(1) s'']
      by (simp add: decode_with_def Let_def split: sum.split)
  qed
qed

definition cached_source :: "FetchSourceV2 \<Rightarrow> bool" where
  "cached_source s \<longleftrightarrow> (\<exists>t. fs_translator s = Some t \<and> wf_translator t)"

lemma cached_source_fetch: "cached_source s \<Longrightarrow> cached_source (snd (fetch_byte s a))"
proof -
  assume "cached_source s"
  then obtain t where t: "fs_translator s = Some t" "wf_translator t" by (auto simp: cached_source_def)
  obtain r t' where e: "translate t (fs_memory s) (fs_paging_root_value s) (fs_level s) Fetch a = (r, t')"
    by (cases "translate t (fs_memory s) (fs_paging_root_value s) (fs_level s) Fetch a")
  with wf_translate [OF t(2), of "fs_memory s" "fs_paging_root_value s" "fs_level s" Fetch a]
  have "wf_translator t'" by simp
  with t e show ?thesis by (auto simp: cached_source_def fetch_byte_def split: sum.split)
qed

lemma decode_at_pc_parts:
  assumes "wf_machine m" and "decode_at_pc m = (v, m1)"
  obtains t where "m1 = m\<lparr>m_translator := t\<rparr>" "wf_translator t"
    and "case v of Inl trap \<Rightarrow> trap_pc trap = m_pc m | Inr d \<Rightarrow> wf_decoded d \<and> d_pc d = m_pc m"
proof -
  obtain s where d: "decode_v2 (fetch_source m) (m_pc m) = (v, s)"
    and m1: "m1 = m\<lparr>m_translator := the (fs_translator s)\<rparr>"
    using assms(2) by (auto simp: decode_at_pc_def split: prod.splits)
  have "cached_source (fetch_source m)"
    using assms(1) by (simp add: cached_source_def fetch_source_def wf_machine_parts)
  from decode_with_keeps [of cached_source fetch_byte, OF cached_source_fetch this, where pc = "m_pc m"] d
  have "cached_source s" by (simp add: decode_v2_def)
  moreover have "case v of Inl trap \<Rightarrow> trap_pc trap = m_pc m | Inr d \<Rightarrow> wf_decoded d \<and> d_pc d = m_pc m"
    using decode_with_inv [of fetch_byte "fetch_source m" "m_pc m" v s] d by (simp add: decode_v2_def)
  ultimately show thesis using that m1 by (auto simp: cached_source_def)
qed

section \<open>How a step ends\<close>

definition ticked :: "outcome \<Rightarrow> outcome" where
  "ticked out = (fst out, (snd out)\<lparr>m_devices := advance_time kNanosecondsPerInstruction (m_devices (snd out))\<rparr>)"

lemma step_cases:
  assumes "wf_machine m" and "\<not> m_halted m"
  obtains
    (fetch) t trap where "wf_translator t" "trap_pc trap = m_pc m"
      "step m = deliver trap 0 (m_pc m) ((sample_device_interrupts m)\<lparr>m_translator := t\<rparr>)"
  | (interrupt) t n where "wf_translator t" "n = deliverable_interrupt (sample_device_interrupts m)" "n \<noteq> kNoCause"
      "step m = deliver_interrupt n (m_pc m) ((sample_device_interrupts m)\<lparr>m_translator := t\<rparr>)"
  | (execute) t d where "wf_translator t" "wf_decoded d" "d_pc d = m_pc m"
      "deliverable_interrupt (sample_device_interrupts m) = kNoCause"
      "step m = ticked (execute d ((sample_device_interrupts m)\<lparr>m_translator := t,
                                     m_steps_taken := m_steps_taken m + 1\<rparr>))"
proof -
  let ?s = "sample_device_interrupts m"
  obtain v m1 where d: "decode_at_pc ?s = (v, m1)" by (cases "decode_at_pc ?s")
  from decode_at_pc_parts [OF wf_sample [OF assms(1)] d] obtain t
    where m1: "m1 = ?s\<lparr>m_translator := t\<rparr>" "wf_translator t"
      and v: "case v of Inl trap \<Rightarrow> trap_pc trap = m_pc ?s | Inr d \<Rightarrow> wf_decoded d \<and> d_pc d = m_pc ?s" .
  have di: "deliverable_interrupt m1 = deliverable_interrupt ?s"
    by (simp add: m1(1) deliverable_interrupt_def)
  show thesis
  proof (cases v)
    case (Inl trap)
    with d m1 v show thesis by (intro fetch [of t trap]) (simp_all add: step_def assms(2) Let_def)
  next
    case (Inr dec)
    note vd = v [unfolded Inr sum.case]
    show thesis
    proof (cases "deliverable_interrupt ?s = kNoCause")
      case True
      then have "step m = ticked (execute dec (?s\<lparr>m_translator := t, m_steps_taken := m_steps_taken m + 1\<rparr>))"
        using d Inr di by (simp add: step_def assms(2) Let_def m1(1) ticked_def split_beta)
      with True vd m1(2) show thesis by (intro execute [of t dec]) simp_all
    next
      case False
      then have "step m = deliver_interrupt (deliverable_interrupt ?s) (m_pc m) (?s\<lparr>m_translator := t\<rparr>)"
        using d Inr di by (simp add: step_def assms(2) Let_def m1(1))
      with False m1(2) show thesis by (intro interrupt) simp_all
    qed
  qed
qed

lemma wf_ticked [simp]: "wf_machine (snd out) \<Longrightarrow> wf_machine (snd (ticked out))"
  by (simp add: ticked_def wf_machine_def)

lemma wf_deliver_interrupt [wf_intros]: "wf_machine m \<Longrightarrow> wf_machine (snd (deliver_interrupt n pc m))"
  unfolding deliver_interrupt_def Let_def
  by (intro wf_deliver) (simp add: wf_machine_def)

lemma wf_step [wf_intros]:
  assumes "wf_machine m"
  shows "wf_machine (snd (step m))"
proof (cases "m_halted m")
  case True
  with assms show ?thesis by (simp add: step_def)
next
  case False
  from assms False show ?thesis
  proof (cases rule: step_cases)
    case (fetch t trap)
    with assms show ?thesis by (simp add: wf_deliver wf_machine_updates)
  next
    case (interrupt t n)
    with assms show ?thesis by (simp add: wf_deliver_interrupt wf_machine_updates)
  next
    case (execute t d)
    with assms show ?thesis by (simp add: wf_execute wf_machine_updates)
  qed
qed

section \<open>Running\<close>

abbreviation after :: "nat \<Rightarrow> InterpreterV2 \<Rightarrow> InterpreterV2" where
  "after n m \<equiv> ((\<lambda>m. snd (step m)) ^^ n) m"

abbreviation goes_on :: "InterpreterV2 \<Rightarrow> bool" where
  "goes_on m \<equiv> sr_status (fst (step m)) = Advanced"

text \<open>A run that has \<open>n\<close> steps left before its bound returns the first step that does not
  advance, or the last one.\<close>

lemma run_loop_unfold:
  "run_loop mx taken m =
     (if \<not> goes_on m then Some (step m)
      else if mx \<noteq> 0 \<and> taken + 1 \<ge> mx then Some (step m)
      else run_loop mx (taken + 1) (snd (step m)))"
  by (subst run_loop.simps) (simp add: Let_def split_beta)

lemma run_loop_bounded:
  assumes "unat taken + Suc n = unat mx"
  shows "\<exists>k \<le> n. run_loop mx taken m = Some (step (after k m)) \<and> (\<forall>j < k. goes_on (after j m)) \<and>
                 (k = n \<or> \<not> goes_on (after k m))"
  using assms
proof (induction n arbitrary: taken m)
  case 0
  then have "mx \<noteq> 0" and "taken + 1 \<ge> mx"
    using unsigned_less [of mx] by (auto simp: word_le_nat_alt unat_plus_if' split: if_splits)
  then show ?case by (subst run_loop_unfold) auto
next
  case (Suc n)
  have lt: "unat mx < 2 ^ 64" using unsigned_less [of mx] by simp
  with Suc.prems have t: "unat (taken + 1) = unat taken + 1" by (simp add: unat_plus_if')
  show ?case
  proof (cases "goes_on m")
    case False
    then have "run_loop mx taken m = Some (step (after 0 m))" by (subst run_loop_unfold) simp
    with False show ?thesis by (intro exI [of _ 0]) simp
  next
    case True
    have "\<not> taken + 1 \<ge> mx" using Suc.prems by (simp add: word_le_nat_alt t)
    with True have e: "run_loop mx taken m = run_loop mx (taken + 1) (snd (step m))"
      by (subst run_loop_unfold) simp
    from Suc.IH [of "taken + 1" "snd (step m)"] Suc.prems t obtain k where k: "k \<le> n"
      "run_loop mx (taken + 1) (snd (step m)) = Some (step (after k (snd (step m))))"
      "\<forall>j < k. goes_on (after j (snd (step m)))" "k = n \<or> \<not> goes_on (after k (snd (step m)))" by auto
    have a: "after (Suc j) m = after j (snd (step m))" for j by (simp only: funpow_Suc_right comp_def)
    show ?thesis
    proof (intro exI [of _ "Suc k"] conjI)
      show "\<forall>j < Suc k. goes_on (after j m)"
      proof (intro allI impI)
        fix j assume "j < Suc k"
        with True k(3) a show "goes_on (after j m)" by (cases j) auto
      qed
    qed (use k e a in simp_all)
  qed
qed

lemma run_loop_unbounded:
  assumes "\<forall>j < k. goes_on (after j m)" and "\<not> goes_on (after k m)"
  shows "run_loop 0 taken m = Some (step (after k m))"
  using assms
proof (induction k arbitrary: taken m)
  case 0
  then show ?case by (subst run_loop_unfold) simp
next
  case (Suc k)
  have a: "after (Suc j) m = after j (snd (step m))" for j by (simp only: funpow_Suc_right comp_def)
  have g: "goes_on m" using Suc.prems(1) by auto
  have "\<forall>j < k. goes_on (after j (snd (step m)))" using Suc.prems(1) a by (metis Suc_mono)
  with Suc.IH [of "snd (step m)" "taken + 1"] Suc.prems(2) g show ?case
    unfolding a by (subst run_loop_unfold) simp
qed

definition first_stop :: "InterpreterV2 \<Rightarrow> outcome \<Rightarrow> bool" where
  "first_stop m out \<longleftrightarrow>
     (\<exists>k. out = step (after k m) \<and> (\<forall>j < k. goes_on (after j m)) \<and> \<not> goes_on (after k m))"

lemma first_stop_now: "\<not> goes_on m \<Longrightarrow> first_stop m (step m)"
  unfolding first_stop_def by (intro exI [of _ 0]) simp

lemma first_stop_later:
  assumes "goes_on m" and "first_stop (snd (step m)) out"
  shows "first_stop m out"
proof -
  have a: "after (Suc j) m = after j (snd (step m))" for j by (simp only: funpow_Suc_right comp_def)
  from assms(2) obtain k where k: "out = step (after k (snd (step m)))"
    "\<forall>j < k. goes_on (after j (snd (step m)))" "\<not> goes_on (after k (snd (step m)))"
    by (auto simp: first_stop_def)
  have "goes_on (after j m)" if "j < Suc k" for j
    using that assms(1) k(2) a by (cases j) auto
  with k(1,3) show ?thesis unfolding first_stop_def a [symmetric] by blast
qed

lemma run_loop_returns:
  assumes "run_loop 0 taken m = Some out"
  shows "first_stop m out"
proof -
  have "mx = 0 \<longrightarrow> first_stop m out" if "run_loop mx taken m = Some out" for mx taken m out
  proof (rule run_loop.raw_induct [where P = "\<lambda>mx taken m out. mx = 0 \<longrightarrow> first_stop m out", OF _ that])
    fix loop and mx taken :: u64 and m out
    assume IH: "\<And>mx taken m out. loop mx taken m = Some out \<Longrightarrow> mx = 0 \<longrightarrow> first_stop m out"
      and body: "(case step m of (result, m) \<Rightarrow>
          if sr_status result \<noteq> Advanced then Some (result, m)
          else let taken = taken + 1
               in if mx \<noteq> 0 \<and> mx \<le> taken then Some (result, m) else loop mx taken m) = Some out"
    show "mx = 0 \<longrightarrow> first_stop m out"
    proof
      assume mx: "mx = 0"
      show "first_stop m out"
      proof (cases "goes_on m")
        case False
        with body have "out = step m" by (auto simp: split_beta)
        with False show ?thesis by (simp add: first_stop_now)
      next
        case True
        with body mx have "loop mx (taken + 1) (snd (step m)) = Some out" by (simp add: split_beta Let_def)
        with IH mx True show ?thesis by (blast intro: first_stop_later)
      qed
    qed
  qed
  with assms show ?thesis by blast
qed

section \<open>Reachable machines\<close>

text \<open>
  What the host can do between steps: move the program counter or resume at an address, choose one of
  the two architectural levels, deliver a trap, sample the devices, set the registers that only a host
  sets, write general registers and memory, resize memory, load an image, use the devices' ports and
  host-side entry points, let time pass, and invalidate cached translations. The steps the machine
  takes on its own account (the functions named \<open>machine_\<close>) are part of stepping and not listed.
\<close>

definition with_console :: "(ConsoleDeviceV2 \<Rightarrow> ConsoleDeviceV2) \<Rightarrow> InterpreterV2 \<Rightarrow> InterpreterV2" where
  "with_console f m = m\<lparr>m_devices := (m_devices m)\<lparr>ds_console := f (ds_console (m_devices m))\<rparr>\<rparr>"

definition with_timer :: "(TimerDeviceV2 \<Rightarrow> TimerDeviceV2) \<Rightarrow> InterpreterV2 \<Rightarrow> InterpreterV2" where
  "with_timer f m = m\<lparr>m_devices := (m_devices m)\<lparr>ds_timer := f (ds_timer (m_devices m))\<rparr>\<rparr>"

definition with_csr :: "(CsrFileV2 \<Rightarrow> CsrFileV2) \<Rightarrow> InterpreterV2 \<Rightarrow> InterpreterV2" where
  "with_csr f m = m\<lparr>m_csr := f (m_csr m)\<rparr>"

inductive host_call :: "InterpreterV2 \<Rightarrow> InterpreterV2 \<Rightarrow> bool" where
  resume: "host_call m (host_resume_at address m)"
| set_pc: "host_call m (m\<lparr>m_pc := address\<rparr>)"
| set_level: "lvl = User \<or> lvl = Supervisor \<Longrightarrow> host_call m (host_set_privilege lvl m)"
| trap: "host_call m (snd (host_deliver_trap t m))"
| sample: "host_call m (sample_device_interrupts m)"
| feature_bitmap: "host_call m (with_csr (host_set_feature_bitmap v) m)"
| boot_info: "host_call m (with_csr (host_set_boot_info v) m)"
| halt_cause: "host_call m (with_csr (host_set_halt_cause v) m)"
| interrupt_pending: "array < 4 \<Longrightarrow> host_call m (with_csr (host_set_interrupt_pending array v) m)"
| register: "n < 32 \<Longrightarrow> host_call m (set_register n v m)"
| byte: "accessible (m_memory m) address \<Longrightarrow> host_call m (m\<lparr>m_memory := write_byte (m_memory m) address b\<rparr>)"
| set_size: "host_call m (m\<lparr>m_memory := host_set_size (m_memory m) sz\<rparr>)"
| load: "load_image (m_memory m) address img = Some mem \<Longrightarrow> host_call m (m\<lparr>m_memory := mem\<rparr>)"
| push: "host_call m (with_console (\<lambda>c. host_push_input c b) m)"
| output_ready: "host_call m (with_console (\<lambda>c. host_set_output_ready c f) m)"
| exhausted: "host_call m (with_console (\<lambda>c. host_set_input_exhausted c f) m)"
| console_bit: "host_call m (with_console (\<lambda>c. host_raise_acknowledgeable_bit c k) m)"
| timer_bit: "host_call m (with_timer (\<lambda>t. host_raise_acknowledgeable_bit t k) m)"
| read_port: "host_call m (m\<lparr>m_devices := snd (port_in (m_devices m) port)\<rparr>)"
| write_port: "host_call m (m\<lparr>m_devices := port_out (m_devices m) port v\<rparr>)"
| pass_time: "host_call m (m\<lparr>m_devices := advance_time ns (m_devices m)\<rparr>)"
| forget_all: "host_call m (m\<lparr>m_translator := Translate.invalidate_all (m_translator m)\<rparr>)"
| forget_address: "host_call m (m\<lparr>m_translator := invalidate_address va (m_translator m)\<rparr>)"

inductive reachable :: "InterpreterV2 \<Rightarrow> bool" where
  start: "reachable (new_interpreter memory reset_pc)"
| host: "reachable m \<Longrightarrow> host_call m m' \<Longrightarrow> reachable m'"
| stepped: "reachable m \<Longrightarrow> reachable (snd (step m))"

lemma wf_host_level:
  assumes "wf_csr c" and "lvl = User \<or> lvl = Supervisor"
  shows "wf_csr (csr_host_set_privilege lvl c)"
proof -
  have "c_status c \<in> set [0, 1, 4, 5]" using wf_csr_status [OF assms(1)] by (simp only: status_values)
  then have "(c_status c AND NOT status_word_kPrivilegeMask) OR of_nat (level_number lvl) \<in> set [0, 1, 4, 5]"
    using assms(2) by auto
  then have "status_value_is_acceptable ((c_status c AND NOT status_word_kPrivilegeMask) OR of_nat (level_number lvl))"
    by (simp only: status_values)
  with assms(1) show ?thesis by (simp add: csr_host_set_privilege_def wf_csr_def value_is_acceptable_def)
qed

lemma wf_host_csr:
  assumes "wf_csr c"
  shows "wf_csr (host_set_feature_bitmap v c)" "wf_csr (host_set_boot_info v c)" "wf_csr (host_set_halt_cause v c)"
    "wf_csr (host_set_interrupt_pending array v c)"
  using assms
  by (simp_all add: wf_csr_def host_set_feature_bitmap_def host_set_boot_info_def host_set_halt_cause_def
      host_set_interrupt_pending_def)

lemma wf_host_devices:
  "wf_console c \<Longrightarrow> wf_console (host_push_input c b)" "wf_console (host_set_output_ready c f) = wf_console c"
  "wf_console (host_set_input_exhausted c f) = wf_console c"
  "wf_console (host_raise_acknowledgeable_bit c k) = wf_console c"
  "wf_timer (host_raise_acknowledgeable_bit t k) = wf_timer t"
  by (simp_all add: wf_console_def wf_timer_def counting_enabled_def host_push_input_def host_set_output_ready_def
      host_set_input_exhausted_def host_raise_acknowledgeable_bit_def)

lemma wf_host_call: "host_call m m' \<Longrightarrow> wf_machine m \<Longrightarrow> wf_machine m'"
proof (induction rule: host_call.induct)
  case (set_level lvl m)
  then show ?case
    by (simp add: host_set_privilege_def wf_machine_updates wf_host_level wf_machine_parts)
next
  case (trap m t)
  then show ?case by (simp add: host_deliver_trap_def wf_deliver)
next
  case (sample m)
  then show ?case by simp
next
  case (forget_address m va)
  then show ?case by (simp add: wf_machine_def invalidate_address_eff(1))
qed (simp_all add: host_resume_at_def with_csr_def with_console_def with_timer_def wf_machine_def wf_host_csr
    wf_port_in wf_port_out, simp_all add: wf_devices_def wf_host_devices)

text \<open>At a boundary the machine decodes what uncached decoding finds, and its cache stays good.\<close>

lemma boundary_decodes:
  assumes "wf_machine m" and "tlb_ok m"
  obtains t where "wf_translator t" "tlb_ok ((sample_device_interrupts m)\<lparr>m_translator := t\<rparr>)"
    "decode_at_pc (sample_device_interrupts m) =
       (decode_spec (m_memory m) (c_paging_root (m_csr m)) (level m) (m_pc m),
        (sample_device_interrupts m)\<lparr>m_translator := t\<rparr>)"
proof -
  let ?s = "sample_device_interrupts m" and ?root = "c_paging_root (m_csr m)"
  have bp: "but_pending (m_csr ?s) = but_pending (m_csr m)"
    using sample_lines_props(2) [OF wf_machine_parts(2) [OF assms(1)]] by (simp add: sample_device_interrupts_def)
  note f = but_pending_fields(1,4) [OF bp]
  have lvl: "level ?s = level m" by (simp add: privilege_def f)
  have inv: "fetch_inv (m_memory m) ?root (level m) (fetch_source ?s)"
    using assms(1,2) by (auto simp: fetch_inv_def fetch_source_def read_raw_named f lvl wf_machine_parts tlb_ok_def)
  obtain v src where d: "decode_v2 (fetch_source ?s) (m_pc m) = (v, src)"
    by (cases "decode_v2 (fetch_source ?s) (m_pc m)")
  have v: "v = decode_spec (m_memory m) ?root (level m) (m_pc m)"
    and inv': "fetch_inv (m_memory m) ?root (level m) src"
    using fetching.decode_with_spec [OF inv, of "m_pc m"] d by (simp_all add: decode_v2_def decode_spec_def)
  have dp: "decode_at_pc ?s = (v, ?s\<lparr>m_translator := the (fs_translator src)\<rparr>)"
    using d by (simp add: decode_at_pc_def)
  from decode_at_pc_parts [OF wf_sample [OF assms(1)] dp] obtain t
    where t: "?s\<lparr>m_translator := the (fs_translator src)\<rparr> = ?s\<lparr>m_translator := t\<rparr>" "wf_translator t" .
  have tt: "t = the (fs_translator src)" using arg_cong [OF t(1), of m_translator] by simp
  have "tlb_ok (?s\<lparr>m_translator := t\<rparr>)"
    using inv' by (cases "fs_translator src") (auto simp: tt fetch_inv_def tlb_ok_def f)
  with that t dp v show thesis by simp
qed

lemma interrupt_kept_by_cache [simp]:
  "deliverable_interrupt (m\<lparr>m_translator := t\<rparr>) = deliverable_interrupt m"
  by (simp add: deliverable_interrupt_def)

lemma enabled_but_pending:
  assumes "but_pending c = but_pending c'" and "n < kCauseCount"
  shows "enabled c n = enabled c' n"
proof -
  have "n div 64 = 0 \<or> n div 64 = 1 \<or> n div 64 = 2 \<or> n div 64 = 3" using assms(2) by auto
  then have "read_raw c (csr_kInterruptEnable0 + of_nat (n div 64)) =
      read_raw c' (csr_kInterruptEnable0 + of_nat (n div 64))"
    using but_pending_fields(5) [OF assms(1)] by (elim disjE) (simp_all add: read_raw_def)
  then show ?thesis by (simp add: enabled_bit)
qed

lemma lowest_pending_found:
  assumes "k < kCauseCount" and "pending c k" and "enabled c k"
  shows "lowest_pending_and_enabled c < kCauseCount" "pending c (lowest_pending_and_enabled c)"
    "enabled c (lowest_pending_and_enabled c)" "lowest_pending_and_enabled c \<le> k"
proof -
  define r where "r = lowest_pending_and_enabled c"
  have l: "r = kNoCause \<or> r < 256 \<and> pending c r \<and> enabled c r"
    "\<And>n. n < 256 \<Longrightarrow> n < r \<Longrightarrow> \<not> (pending c n \<and> enabled c n)"
    using scan_arrays_least [of 4 c] by (auto simp: r_def lowest_pending_and_enabled_def Let_def)
  have "r \<le> k" using l(2) [of k] assms by (meson not_less)
  with l(1) assms(1) show "r < kCauseCount" "pending c r" "enabled c r" "r \<le> k" by auto
qed

section \<open>Properties\<close>

text \<open>C10: Every machine that steps and host calls can reach from a fresh one is well formed, and a
  decoded instruction it executes is well formed too: the register numbers that index the register
  file are below thirty-two at every step.\<close>

theorem reachable_well_formed:
  assumes "reachable m"
  shows "wf_machine m \<and> (case fst (decode_at_pc m) of Inl trap \<Rightarrow> trap_pc trap = m_pc m | Inr d \<Rightarrow> wf_decoded d)"
proof -
  have w: "wf_machine m"
    using assms by (induction rule: reachable.induct) (auto intro: wf_host_call wf_step)
  obtain v m1 where d: "decode_at_pc m = (v, m1)" by (cases "decode_at_pc m")
  from decode_at_pc_parts [OF w d] obtain t
    where "case v of Inl trap \<Rightarrow> trap_pc trap = m_pc m | Inr d \<Rightarrow> wf_decoded d \<and> d_pc d = m_pc m" by blast
  with w d show ?thesis by (cases v) auto
qed

theorem reachable_well_formed_witness:
  "wf_machine (snd (step (host_resume_at 4 (new_interpreter (new_memory 16) 0))))"
  using reachable_well_formed [OF reachable.stepped [OF reachable.host [OF reachable.start host_call.resume]]] by blast

text \<open>C15: Running returns what stepping does. With a bound, the run always returns: it is the
  outcome of the first step that does not advance, or of the last step the bound allows. Without a
  bound it returns exactly when some step does not advance, with the outcome of the first such
  step.\<close>

theorem run_is_iterated_step:
  "(if mx = 0 then
      (\<forall>out. run mx m = Some out \<longleftrightarrow>
         (\<exists>k. out = step (after k m) \<and> (\<forall>j < k. goes_on (after j m)) \<and> \<not> goes_on (after k m)))
    else
      (\<exists>k < unat mx. run mx m = Some (step (after k m)) \<and> (\<forall>j < k. goes_on (after j m)) \<and>
         (Suc k = unat mx \<or> \<not> goes_on (after k m))))"
proof (cases "mx = 0")
  case True
  then show ?thesis
    using run_loop_returns [of 0 m] run_loop_unbounded [of _ m 0]
    by (auto simp: run_def first_stop_def)
next
  case False
  then have "0 < unat mx" by (simp add: unat_gt_0)
  then obtain n where n: "Suc n = unat mx" using gr0_implies_Suc by metis
  from run_loop_bounded [of 0 n mx m] n obtain k where "k \<le> n" "run_loop mx 0 m = Some (step (after k m))"
    "\<forall>j < k. goes_on (after j m)" "k = n \<or> \<not> goes_on (after k m)" by auto
  with n False show ?thesis unfolding run_def by (simp only: if_False) (intro exI [of _ k], auto)
qed

theorem run_is_iterated_step_witness:
  "\<exists>k < 3. run 3 (new_interpreter (new_memory 16) 0) = Some (step (after k (new_interpreter (new_memory 16) 0)))"
  using run_is_iterated_step [of 3 "new_interpreter (new_memory 16) 0"] by auto

text \<open>A halted machine stays as it is: a step reports the halt and changes nothing, and so
  does a run of any length.\<close>

theorem halted_is_final:
  assumes "m_halted m"
  shows "step m = (step_result Halted 0 (m_pc m), m) \<and> run mx m = Some (step_result Halted 0 (m_pc m), m)"
proof -
  have s: "step m = (step_result Halted 0 (m_pc m), m)" using assms by (simp add: step_def)
  then have "run mx m = Some (step m)"
    unfolding run_def by (subst run_loop_unfold) (simp add: step_result_def)
  with s show ?thesis by simp
qed

theorem halted_is_final_witness:
  "snd (step ((new_interpreter (new_memory 4) 0)\<lparr>m_halted := True\<rparr>)) =
     (new_interpreter (new_memory 4) 0)\<lparr>m_halted := True\<rparr>"
  using halted_is_final [of "(new_interpreter (new_memory 4) 0)\<lparr>m_halted := True\<rparr>"] by simp

lemma step_decoded:
  assumes "\<not> m_halted m" and "deliverable_interrupt (sample_device_interrupts m) = kNoCause"
    and "decode_at_pc (sample_device_interrupts m) = (Inr d, (sample_device_interrupts m)\<lparr>m_translator := t\<rparr>)"
  shows "step m = ticked (execute d ((sample_device_interrupts m)\<lparr>m_translator := t, m_steps_taken := m_steps_taken m + 1\<rparr>))"
  using assms by (simp add: step_def Let_def ticked_def split_beta)

text \<open>C3: A step executes the instruction that is in memory. While the translation cache agrees
  with the page tables, a machine that is not halted and has no deliverable interrupt executes
  exactly the instruction that uncached decoding finds at the program counter and then advances the
  device clock by one instruction's time, or delivers the trap that uncached decoding raises there,
  in which case the clock does not advance.\<close>

theorem step_executes_memory:
  assumes "wf_machine m" and "tlb_ok m" and "\<not> m_halted m"
    and "deliverable_interrupt (sample_device_interrupts m) = kNoCause"
  shows "\<exists>t. wf_translator t \<and>
     (let m1 = (sample_device_interrupts m)\<lparr>m_translator := t\<rparr> in
      tlb_ok m1 \<and>
      step m = (case decode_spec (m_memory m) (c_paging_root (m_csr m)) (level m) (m_pc m) of
                  Inl trap \<Rightarrow> deliver trap 0 (m_pc m) m1
                | Inr d \<Rightarrow> ticked (execute d (m1\<lparr>m_steps_taken := m_steps_taken m + 1\<rparr>))))"
proof -
  let ?s = "sample_device_interrupts m"
  from boundary_decodes [OF assms(1,2)] obtain t where t: "wf_translator t" "tlb_ok (?s\<lparr>m_translator := t\<rparr>)"
    and dp: "decode_at_pc ?s = (decode_spec (m_memory m) (c_paging_root (m_csr m)) (level m) (m_pc m),
      ?s\<lparr>m_translator := t\<rparr>)" .
  have pc: "trap_pc trap = m_pc m"
    if "decode_spec (m_memory m) (c_paging_root (m_csr m)) (level m) (m_pc m) = Inl trap" for trap
    by (rule decode_at_pc_parts [OF wf_sample [OF assms(1)] dp]) (simp add: that)
  have "step m = (case decode_spec (m_memory m) (c_paging_root (m_csr m)) (level m) (m_pc m) of
      Inl trap \<Rightarrow> deliver trap 0 (m_pc m) (?s\<lparr>m_translator := t\<rparr>)
    | Inr d \<Rightarrow> ticked (execute d (?s\<lparr>m_translator := t, m_steps_taken := m_steps_taken m + 1\<rparr>)))"
  proof (cases "decode_spec (m_memory m) (c_paging_root (m_csr m)) (level m) (m_pc m)")
    case (Inl trap)
    with dp pc [OF Inl] assms(3) show ?thesis by (simp add: step_def Let_def)
  next
    case (Inr d)
    with dp step_decoded [OF assms(3,4)] show ?thesis by simp
  qed
  with t show ?thesis by (intro exI [of _ t]) (simp add: Let_def)
qed

definition halt_decoded :: DecodedV2 where
  "halt_decoded = \<lparr>d_opcode = op_kHalt, d_pc = 0, d_next_pc = 1, d_length = 1, d_operand_count = 0,
     d_reg = [0, 0, 0, 0], d_form = [0, 0, 0, 0], d_immediate_count = 0, d_immediate = [0, 0],
     d_immediate_bytes = [0, 0]\<rparr>"

definition halting_machine :: InterpreterV2 where
  "halting_machine = new_interpreter \<lparr>mem_bytes = [op_kHalt]\<rparr> 0"

lemma halting_image: "decode_spec \<lparr>mem_bytes = [op_kHalt]\<rparr> 0 Supervisor 0 = Inr halt_decoded"
  by code_simp

lemma halting_machine_fields:
  "m_memory halting_machine = \<lparr>mem_bytes = [op_kHalt]\<rparr>" "c_paging_root (m_csr halting_machine) = 0"
  "m_pc halting_machine = 0" "\<not> m_halted halting_machine" "wf_machine halting_machine" "tlb_ok halting_machine"
  by (simp_all add: halting_machine_def) (simp_all add: new_interpreter_def reset_csr_def tlb_ok_def)

lemma halting_machine_levels:
  "level halting_machine = Supervisor" "level (sample_device_interrupts halting_machine) = Supervisor"
  "deliverable_interrupt (sample_device_interrupts halting_machine) = kNoCause"
  by code_simp+

lemma execute_halt_decoded:
  assumes "level n = Supervisor"
  shows "sr_status (fst (execute halt_decoded n)) = Halted \<and> m_halted (snd (execute halt_decoded n))"
proof -
  have "first_index handlers (uint op_kHalt) = Some 19" by code_simp
  with assms show ?thesis
    by (simp add: execute_index bands_def execute_halt_def Let_def halt_decoded_def step_result_def)
qed

theorem step_executes_memory_witness:
  "m_halted (snd (step halting_machine)) \<and> sr_status (fst (step halting_machine)) = Halted"
proof -
  note h = halting_machine_fields and l = halting_machine_levels
  let ?s = "sample_device_interrupts halting_machine"
  from step_executes_memory [OF h(5,6,4) l(3)] obtain t where
    "step halting_machine =
       ticked (execute halt_decoded (?s\<lparr>m_translator := t, m_steps_taken := m_steps_taken halting_machine + 1\<rparr>))"
    by (auto simp: h(1-3) l halting_image Let_def)
  moreover have "level (?s\<lparr>m_translator := t, m_steps_taken := m_steps_taken halting_machine + 1\<rparr>) = Supervisor"
    using l(2) by simp
  ultimately show ?thesis using execute_halt_decoded by (simp add: ticked_def)
qed

text \<open>C13: A deliverable interrupt is taken at the boundary. When interrupts are enabled and, after
  the device lines are sampled, some enabled cause is pending, and the next instruction can be
  fetched, the step delivers the lowest such cause instead of executing: the saved program counter
  is the instruction not yet run, no register changes, and the instruction does not count as taken.\<close>

theorem interrupt_taken_at_boundary:
  assumes "wf_machine m" and "tlb_ok m" and "\<not> m_halted m" and "interrupts_enabled (m_csr m)"
    and "k < kCauseCount" and "pending (m_csr (sample_device_interrupts m)) k" and "enabled (m_csr m) k"
    and "decode_spec (m_memory m) (c_paging_root (m_csr m)) (level m) (m_pc m) = Inr d"
    and "step m = (r, m')"
  shows "sr_status r = Trapped \<and> trap_pc (sr_trap r) = m_pc m \<and>
         pending (m_csr (sample_device_interrupts m)) (unat (trap_cause (sr_trap r))) \<and>
         enabled (m_csr m) (unat (trap_cause (sr_trap r))) \<and> unat (trap_cause (sr_trap r)) \<le> k \<and>
         m_registers m' = m_registers m \<and> m_steps_taken m' = m_steps_taken m"
proof -
  let ?s = "sample_device_interrupts m"
  from boundary_decodes [OF assms(1,2)] obtain t
    where dp: "decode_at_pc ?s = (Inr d, ?s\<lparr>m_translator := t\<rparr>)" unfolding assms(8) .
  have bp: "but_pending (m_csr ?s) = but_pending (m_csr m)"
    using sample_lines_props(2) [OF wf_machine_parts(2) [OF assms(1)]] by (simp add: sample_device_interrupts_def)
  note f = but_pending_fields [OF bp]
  note en = enabled_but_pending [OF bp]
  define n where "n = lowest_pending_and_enabled (m_csr ?s)"
  have n: "n < kCauseCount" "pending (m_csr ?s) n" "enabled (m_csr ?s) n" "n \<le> k"
    unfolding n_def by (rule lowest_pending_found [OF assms(5,6)], simp add: en assms(5,7))+
  have di: "deliverable_interrupt ?s = n"
    using assms(4) f(1) by (simp add: deliverable_interrupt_def interrupts_enabled_def n_def)
  have "step m = deliver_interrupt n (m_pc m) (?s\<lparr>m_translator := t\<rparr>)"
    using dp di n(1) assms(3) by (simp add: step_def Let_def)
  with assms(9) have o: "deliver \<lparr>trap_cause = of_nat n, trap_subcode = 0, trap_aux = 0, trap_pc = m_pc m\<rparr> 0 (m_pc m)
      (?s\<lparr>m_translator := t, m_csr := machine_clear_pending n (m_csr ?s)\<rparr>) = (r, m')"
    by (simp add: deliver_interrupt_def Let_def)
  have u: "unat (of_nat n :: u8) = n" using n(1) by (simp add: unat_of_nat)
  from deliver_keeps [OF o] n en u show ?thesis by simp
qed

definition interrupted_csr :: CsrFileV2 where
  "interrupted_csr = machine_raise_pending 40 (store_csr (store_csr (m_csr halting_machine) csr_kInterruptEnable0 (2 ^ 40))
     csr_kStatus (c_status (m_csr halting_machine) OR status_word_kInterruptEnableBit))"

definition interrupted_machine :: InterpreterV2 where
  "interrupted_machine = halting_machine\<lparr>m_csr := interrupted_csr\<rparr>"

lemma interrupted_csr_facts:
  "wf_csr interrupted_csr" "c_paging_root interrupted_csr = 0" "interrupts_enabled interrupted_csr"
  "privilege interrupted_csr = Supervisor" "enabled interrupted_csr 40"
  "pending (m_csr (sample_device_interrupts interrupted_machine)) 40"
  by code_simp+

lemma interrupted_machine_fields:
  "m_memory interrupted_machine = \<lparr>mem_bytes = [op_kHalt]\<rparr>" "m_pc interrupted_machine = 0"
  "\<not> m_halted interrupted_machine" "m_csr interrupted_machine = interrupted_csr"
  "wf_machine interrupted_machine" "tlb_ok interrupted_machine"
  using halting_machine_fields interrupted_csr_facts(1,2)
  by (simp_all add: interrupted_machine_def wf_machine_def tlb_ok_def)

theorem interrupt_taken_at_boundary_witness:
  "trap_pc (sr_trap (fst (step interrupted_machine))) = 0 \<and>
   m_registers (snd (step interrupted_machine)) = m_registers interrupted_machine"
proof -
  note h = interrupted_machine_fields and c = interrupted_csr_facts
  show ?thesis
    using interrupt_taken_at_boundary [OF h(5,6,3) _ _ c(6) _ _ prod.collapse [symmetric], of halt_decoded]
    by (simp add: h c halting_image)
qed

end
