(* ===== verification/Expressions.thy ===== *)
theory Expressions
  imports Maize_Prelude
begin

text \<open>
  The assembler's reserved words, its field-fit rule and its expression language,
  \<^verbatim>\<open>src/v2/mzasm_lexer.cpp\<close> with the types of \<^verbatim>\<open>src/v2/mzasm.h\<close>.

  The parser object's text and position are the text that is left to read, and a failing parse is
  the message it reports: the source reports the first failure only and stops there.  The loops
  over operators of one precedence level and the recursion through parentheses and unary operators
  carry a fuel; the length of the text is always enough, since every round reads a character.
\<close>

section \<open>Characters\<close>

text \<open>The classes of the C library in its default locale, over character codes.\<close>

abbreviation code :: "char \<Rightarrow> nat" where
  "code c \<equiv> of_char c"

definition isdigit :: "char \<Rightarrow> bool" where
  "isdigit c \<longleftrightarrow> 48 \<le> code c \<and> code c \<le> 57"

definition isalpha :: "char \<Rightarrow> bool" where
  "isalpha c \<longleftrightarrow> 65 \<le> code c \<and> code c \<le> 90 \<or> 97 \<le> code c \<and> code c \<le> 122"

definition isalnum :: "char \<Rightarrow> bool" where
  "isalnum c \<longleftrightarrow> isalpha c \<or> isdigit c"

abbreviation (input) quote :: char where
  "quote \<equiv> CHR 0x27"

abbreviation (input) double_quote :: char where
  "double_quote \<equiv> CHR 0x22"

abbreviation (input) backslash :: char where
  "backslash \<equiv> CHR 0x5C"

definition quoted :: "string \<Rightarrow> string" where
  "quoted s = [quote] @ s @ [quote]"

text \<open>Decimal text of a number, as the standard library prints it.\<close>

fun to_string :: "nat \<Rightarrow> string" where
  "to_string n = (if n < 10 then [char_of (48 + n)] else to_string (n div 10) @ [char_of (48 + n mod 10)])"

declare to_string.simps [simp del]

section \<open>Diagnostics\<close>

datatype SourceLoc = SourceLoc (sl_file: string) (sl_line: nat) (included_from: "SourceLoc option")

record Diagnostic =
  dg_where :: SourceLoc
  dg_message :: string

type_synonym Diagnostics = "Diagnostic list"

definition report :: "SourceLoc \<Rightarrow> string \<Rightarrow> Diagnostics \<Rightarrow> Diagnostics" where
  "report loc message entries = entries @ [\<lparr>dg_where = loc, dg_message = message\<rparr>]"

text \<open>One line for a diagnostic and one for every enclosing inclusion.\<close>

fun format_parents :: "SourceLoc option \<Rightarrow> string" where
  "format_parents None = []"
| "format_parents (Some (SourceLoc f line up)) =
     ''mzasm: '' @ f @ '':'' @ to_string line @ '': note: included from here'' @ [CHR 0x0A] @ format_parents up"

definition format_diagnostics :: "Diagnostics \<Rightarrow> string" where
  "format_diagnostics entries =
     concat (map (\<lambda>d. ''mzasm: '' @ sl_file (dg_where d) @ '':'' @ to_string (sl_line (dg_where d)) @
                       '': error: '' @ dg_message d @ [CHR 0x0A] @ format_parents (included_from (dg_where d)))
                 entries)"

section \<open>Reserved words\<close>

definition kRegisterAliases :: "(string \<times> u8) list" where
  "kRegisterAliases =
    [(''zero'', 0), (''tp'', 1), (''a0'', 2), (''a1'', 3), (''a2'', 4), (''a3'', 5), (''a4'', 6),
     (''a5'', 7), (''a6'', 8), (''a7'', 9), (''t0'', 10), (''t1'', 11), (''t2'', 12), (''t3'', 13),
     (''t4'', 14), (''t5'', 15), (''t6'', 16), (''t7'', 17), (''t8'', 18), (''t9'', 19), (''s0'', 20),
     (''s1'', 21), (''s2'', 22), (''s3'', 23), (''s4'', 24), (''s5'', 25), (''s6'', 26), (''s7'', 27),
     (''s8'', 28), (''fp'', 29), (''sp'', 30), (''ra'', 31)]"

definition kDirectiveNames :: "string list" where
  "kDirectiveNames =
    [''section'', ''origin'', ''align'', ''data_byte'', ''data_quarter_word'', ''data_half_word'',
     ''data_word'', ''data_string'', ''data_string_zero'', ''data_fill'', ''reserve'', ''constant'',
     ''global'', ''extern'', ''include'']"

text \<open>The bounded accumulation: it stops the moment the number passes the highest register.\<close>

fun register_number :: "nat \<Rightarrow> string \<Rightarrow> nat option" where
  "register_number n [] = Some n"
| "register_number n (digit # digits) =
     (let n = n * 10 + (code digit - 48) in if n > 31 then None else register_number n digits)"

definition is_register_name :: "string \<Rightarrow> u8 option" where
  "is_register_name text =
     (let digits = tl text;
          numbered =
            (if length text \<ge> 2 \<and> hd text = CHR ''r'' \<and> list_all isdigit digits \<and>
                (length digits = 1 \<or> hd digits \<noteq> CHR ''0'')
             then register_number 0 digits else None)
      in case numbered of
           Some n \<Rightarrow> Some (of_nat n)
         | None \<Rightarrow> map_of kRegisterAliases text)"

definition all_reserved_words :: "string list" where
  "all_reserved_words =
     map (\<lambda>i. ''r'' @ to_string i) [0..<32] @ map fst kRegisterAliases @ [''here''] @ kDirectiveNames"

definition is_reserved_word :: "string \<Rightarrow> bool" where
  "is_reserved_word text \<longleftrightarrow>
     is_register_name text \<noteq> None \<or> text = ''here'' \<or> text \<in> set kDirectiveNames"

section \<open>Field fit\<close>

definition fits :: "u64 \<Rightarrow> nat \<Rightarrow> bool" where
  "fits v width_bits =
     (if width_bits \<ge> 64 then True
      else
        let unsigned_max = push_bit width_bits 1 - 1
        in if v \<le> unsigned_max then True
           else let signed_min = NOT unsigned_max OR push_bit (width_bits - 1) 1
                in v \<ge> signed_min)"

section \<open>Expression values\<close>

record ExprValue =
  ev_constant :: u64
  ev_symbol :: string

definition is_relocatable :: "ExprValue \<Rightarrow> bool" where
  "is_relocatable v \<longleftrightarrow> ev_symbol v \<noteq> []"

abbreviation constant_value :: "u64 \<Rightarrow> ExprValue" where
  "constant_value c \<equiv> \<lparr>ev_constant = c, ev_symbol = []\<rparr>"

record SymbolQuery =
  sq_known :: bool
  sq_defined :: bool
  sq_is_constant :: bool
  sq_value :: u64
  sq_section :: u8

definition unknown_symbol :: SymbolQuery where
  "unknown_symbol = \<lparr>sq_known = False, sq_defined = False, sq_is_constant = False, sq_value = 0, sq_section = 0\<rparr>"

record LookupBinding =
  lb_lookup :: "(string \<Rightarrow> SymbolQuery) option"
  lb_here :: u64

text \<open>A parser returns the message of its failure, or a value and the text that is left.\<close>

type_synonym parser = "string \<Rightarrow> string + ExprValue \<times> string"

section \<open>Literals\<close>

definition hex_digit :: "char \<Rightarrow> nat option" where
  "hex_digit c =
     (if 48 \<le> code c \<and> code c \<le> 57 then Some (code c - 48)
      else if 97 \<le> code c \<and> code c \<le> 102 then Some (code c - 97 + 10)
      else if 65 \<le> code c \<and> code c \<le> 70 then Some (code c - 65 + 10)
      else None)"

text \<open>The eight escapes; the text starts at the backslash.\<close>

definition decode_escape :: "string \<Rightarrow> (u8 \<times> string) option" where
  "decode_escape text =
     (case text of
        b # c # rest \<Rightarrow>
          if b \<noteq> backslash then None
          else if c = backslash then Some (0x5C, rest)
          else if c = double_quote then Some (0x22, rest)
          else if c = quote then Some (0x27, rest)
          else if c = CHR ''n'' then Some (0x0A, rest)
          else if c = CHR ''r'' then Some (0x0D, rest)
          else if c = CHR ''t'' then Some (0x09, rest)
          else if c = CHR ''0'' then Some (0, rest)
          else if c = CHR ''x'' then
            (case rest of
               h # l # rest \<Rightarrow>
                 (case (hex_digit h, hex_digit l) of
                    (Some high, Some low) \<Rightarrow> Some (of_nat (high * 16 + low), rest)
                  | _ \<Rightarrow> None)
             | _ \<Rightarrow> None)
          else None
      | _ \<Rightarrow> None)"

text \<open>A character literal, its text starting after the opening quote.\<close>

definition parse_character :: parser where
  "parse_character text =
     (let scanned =
        (case text of
           [] \<Rightarrow> Inl ''unterminated character literal''
         | c # rest \<Rightarrow>
             if c = backslash then
               (case decode_escape text of
                  None \<Rightarrow> Inl ''unrecognized escape in character literal''
                | Some r \<Rightarrow> Inr r)
             else Inr (of_nat (code c), rest))
      in case scanned of
           Inl e \<Rightarrow> Inl e
         | Inr (v, rest) \<Rightarrow>
             if rest = [] \<or> hd rest \<noteq> quote then Inl ''a character literal holds exactly one character''
             else Inr (constant_value (ucast v), tl rest))"

text \<open>
  The digit scanner: digits grouped by commas and back-ticks, each between two digits.  It
  returns whether the last thing read was a separator, the digits and the text that is left.
\<close>

fun scan_digits :: "nat \<Rightarrow> bool \<Rightarrow> string \<Rightarrow> string \<Rightarrow> string + bool \<times> string \<times> string" where
  "scan_digits base previous_was_separator digits [] = Inr (previous_was_separator, digits, [])"
| "scan_digits base previous_was_separator digits (c # rest) =
     (if c = CHR '','' \<or> c = CHR 0x60 then
        if previous_was_separator then Inl ''a digit separator must sit between two digits''
        else scan_digits base True digits rest
      else
        case hex_digit c of
          None \<Rightarrow> Inr (previous_was_separator, digits, c # rest)
        | Some digit_value \<Rightarrow>
            if digit_value \<ge> base then Inr (previous_was_separator, digits, c # rest)
            else scan_digits base False (digits @ [c]) rest)"

definition digits_value :: "nat \<Rightarrow> string \<Rightarrow> u64" where
  "digits_value base digits = fold (\<lambda>c v. v * of_nat base + of_nat (the (hex_digit c))) digits 0"

definition marker_base :: "char \<Rightarrow> nat \<times> string" where
  "marker_base marker =
     (if marker = CHR ''$'' then (16, ''hexadecimal'')
      else if marker = CHR ''%'' then (2, ''binary'')
      else (10, ''decimal''))"

text \<open>A number, its marker already read.\<close>

definition parse_number :: "char \<Rightarrow> parser" where
  "parse_number marker text =
     (let (base, base_name) = marker_base marker;
          (negative, text) =
            (case text of
               c # rest \<Rightarrow> if c = CHR ''-'' \<or> c = CHR ''+'' then (c = CHR ''-'', rest) else (False, text)
             | [] \<Rightarrow> (False, text))
      in case scan_digits base True [] text of
           Inl e \<Rightarrow> Inl e
         | Inr (previous_was_separator, digits, rest) \<Rightarrow>
             if digits = [] then Inl (''a '' @ base_name @ '' literal needs at least one digit'')
             else if previous_was_separator then Inl ''a digit separator must sit between two digits''
             else let v = digits_value base digits
                  in Inr (constant_value (if negative then 0 - v else v), rest))"

section \<open>Operators\<close>

definition require_constant :: "ExprValue \<Rightarrow> string \<Rightarrow> string option" where
  "require_constant v operation =
     (if is_relocatable v then
        Some (''a symbol cannot be an operand of '' @ operation @
              '' (only a symbol alone, a symbol plus or minus a constant, and one symbol '' @
              ''minus another in the same section are relocatable)'')
      else None)"

text \<open>An operator that takes constants only, on its left operand first.\<close>

definition on_constants ::
  "string \<Rightarrow> (u64 \<Rightarrow> u64 \<Rightarrow> string + u64) \<Rightarrow> ExprValue \<Rightarrow> ExprValue \<Rightarrow> string + ExprValue" where
  "on_constants name f out rhs =
     (case require_constant out name of
        Some e \<Rightarrow> Inl e
      | None \<Rightarrow>
          (case require_constant rhs name of
             Some e \<Rightarrow> Inl e
           | None \<Rightarrow>
               (case f (ev_constant out) (ev_constant rhs) of
                  Inl e \<Rightarrow> Inl e
                | Inr c \<Rightarrow> Inr (out\<lparr>ev_constant := c\<rparr>))))"

definition shift_constants :: "string \<Rightarrow> u64 \<Rightarrow> u64 \<Rightarrow> string + u64" where
  "shift_constants name a b =
     (let amount = unat (b AND 63)
      in Inr (if name = ''<<'' then push_bit amount a else signed_drop_bit amount a))"

definition multiply_constants :: "string \<Rightarrow> u64 \<Rightarrow> u64 \<Rightarrow> string + u64" where
  "multiply_constants name a b =
     (if name = ''/'' then
        if b = 0 then Inl ''division by zero in expression''
        else let signed_min = push_bit 63 1
             in if a = signed_min \<and> b = NOT 0 then Inr signed_min
                else Inr (of_int (sint a sdiv sint b))
      else Inr (a * b))"

definition fold_symbol_difference :: "LookupBinding \<Rightarrow> ExprValue \<Rightarrow> ExprValue \<Rightarrow> string + ExprValue" where
  "fold_symbol_difference b out rhs =
     (case lb_lookup b of
        None \<Rightarrow> Inl ''two symbols cannot be subtracted here''
      | Some lookup \<Rightarrow>
          let left = lookup (ev_symbol out);
              right = lookup (ev_symbol rhs)
          in if \<not> sq_defined left \<or> \<not> sq_defined right then
               Inl ''one symbol minus another is relocatable only when this module defines both''
             else if sq_section left \<noteq> sq_section right then
               Inl ''one symbol minus another is relocatable only when both live in the same section''
             else
               let difference = sq_value left - sq_value right
               in Inr \<lparr>ev_constant = ev_constant out - ev_constant rhs + difference, ev_symbol = []\<rparr>)"

definition combine_additive :: "LookupBinding \<Rightarrow> bool \<Rightarrow> ExprValue \<Rightarrow> ExprValue \<Rightarrow> string + ExprValue" where
  "combine_additive b subtract out rhs =
     (if \<not> is_relocatable rhs then
        Inr (out\<lparr>ev_constant := if subtract then ev_constant out - ev_constant rhs
                               else ev_constant out + ev_constant rhs\<rparr>)
      else if \<not> is_relocatable out then
        if subtract then Inl ''a constant minus a symbol is not a relocatable form''
        else Inr \<lparr>ev_constant = ev_constant out + ev_constant rhs, ev_symbol = ev_symbol rhs\<rparr>
      else if \<not> subtract then Inl ''two symbols cannot be added''
      else fold_symbol_difference b out rhs)"

section \<open>Precedence levels\<close>

text \<open>
  One level: an operand of the next level, then operators of this level and further operands
  while there are any.  The fuel of the loop is the length of the text left.
\<close>

fun binary_loop ::
  "string list \<Rightarrow> (string \<Rightarrow> ExprValue \<Rightarrow> ExprValue \<Rightarrow> string + ExprValue) \<Rightarrow> parser \<Rightarrow> nat \<Rightarrow> ExprValue \<Rightarrow> parser" where
  "binary_loop operators combine operand 0 out text = Inr (out, text)"
| "binary_loop operators combine operand (Suc n) out text =
     (case find (\<lambda>o'. take (length o') text = o') operators of
        None \<Rightarrow> Inr (out, text)
      | Some name \<Rightarrow>
          (case operand (drop (length name) text) of
             Inl e \<Rightarrow> Inl e
           | Inr (rhs, text) \<Rightarrow>
               (case combine name out rhs of
                  Inl e \<Rightarrow> Inl e
                | Inr out \<Rightarrow> binary_loop operators combine operand n out text)))"

definition binary_level ::
  "string list \<Rightarrow> (string \<Rightarrow> ExprValue \<Rightarrow> ExprValue \<Rightarrow> string + ExprValue) \<Rightarrow> parser \<Rightarrow> parser" where
  "binary_level operators combine operand text =
     (case operand text of
        Inl e \<Rightarrow> Inl e
      | Inr (out, text) \<Rightarrow> binary_loop operators combine operand (length text) out text)"

definition parse_multiplicative :: "parser \<Rightarrow> parser" where
  "parse_multiplicative parse_unary =
     binary_level [''*'', ''/''] (\<lambda>name. on_constants name (multiply_constants name)) parse_unary"

definition parse_additive :: "LookupBinding \<Rightarrow> parser \<Rightarrow> parser" where
  "parse_additive b parse_unary =
     binary_level [''+'', ''-''] (\<lambda>name. combine_additive b (name = ''-'')) (parse_multiplicative parse_unary)"

definition parse_shift :: "LookupBinding \<Rightarrow> parser \<Rightarrow> parser" where
  "parse_shift b parse_unary =
     binary_level [''<<'', ''>>''] (\<lambda>name. on_constants name (shift_constants name)) (parse_additive b parse_unary)"

definition parse_and :: "LookupBinding \<Rightarrow> parser \<Rightarrow> parser" where
  "parse_and b parse_unary =
     binary_level [''&''] (\<lambda>name. on_constants name (\<lambda>x y. Inr (x AND y))) (parse_shift b parse_unary)"

definition parse_xor :: "LookupBinding \<Rightarrow> parser \<Rightarrow> parser" where
  "parse_xor b parse_unary =
     binary_level [''^''] (\<lambda>name. on_constants name (\<lambda>x y. Inr (x XOR y))) (parse_and b parse_unary)"

definition parse_or :: "LookupBinding \<Rightarrow> parser \<Rightarrow> parser" where
  "parse_or b parse_unary =
     binary_level [''|''] (\<lambda>name. on_constants name (\<lambda>x y. Inr (x OR y))) (parse_xor b parse_unary)"

section \<open>Leaves and unary operators\<close>

definition parse_symbol :: "LookupBinding \<Rightarrow> string \<Rightarrow> string + ExprValue" where
  "parse_symbol b name =
     (if name = ''here'' then Inr (constant_value (lb_here b))
      else if is_register_name name \<noteq> None then
        Inl (quoted name @ '' is a register name and cannot appear in an expression'')
      else
        let query = (case lb_lookup b of None \<Rightarrow> unknown_symbol | Some lookup \<Rightarrow> lookup name)
        in if sq_known query \<and> sq_is_constant query then Inr (constant_value (sq_value query))
           else if \<not> sq_known query then
             Inl (''undefined symbol '' @ quoted name @
                  '' (define it, or declare it extern if another module defines it)'')
           else Inr \<lparr>ev_constant = 0, ev_symbol = name\<rparr>)"

definition parse_primary :: "LookupBinding \<Rightarrow> parser \<Rightarrow> parser" where
  "parse_primary b expression text =
     (case text of
        [] \<Rightarrow> Inl ''an expression is missing''
      | c # rest \<Rightarrow>
          if c = CHR ''('' then
            (case expression rest of
               Inl e \<Rightarrow> Inl e
             | Inr (out, rest) \<Rightarrow>
                 if rest = [] \<or> hd rest \<noteq> CHR '')'' then
                   Inl (''a '' @ quoted ''('' @ '' in this expression has no matching '' @ quoted '')'')
                 else Inr (out, tl rest))
          else if c = CHR ''#'' \<or> c = CHR ''$'' \<or> c = CHR ''%'' then parse_number c rest
          else if c = quote then parse_character rest
          else if isdigit c then
            Inl (''a numeric literal names its base: write #'' @ text @ '' for decimal, $'' @ text @
                 '' for hexadecimal, or %'' @ text @ '' for binary'')
          else if isalpha c \<or> c = CHR ''_'' then
            let name = takeWhile (\<lambda>x. isalnum x \<or> x = CHR ''_'') text;
                rest = dropWhile (\<lambda>x. isalnum x \<or> x = CHR ''_'') text
            in (case parse_symbol b name of Inl e \<Rightarrow> Inl e | Inr v \<Rightarrow> Inr (v, rest))
          else Inl (quoted [c] @ '' does not begin an expression''))"

primrec parse_unary :: "LookupBinding \<Rightarrow> nat \<Rightarrow> parser" where
  "parse_unary b 0 = (\<lambda>text. Inl ''an expression is missing'')"
| "parse_unary b (Suc n) =
     (\<lambda>text.
        if text \<noteq> [] \<and> hd text = CHR ''-'' then
          (case parse_unary b n (tl text) of
             Inl e \<Rightarrow> Inl e
           | Inr (out, rest) \<Rightarrow>
               (case require_constant out ''unary -'' of
                  Some e \<Rightarrow> Inl e
                | None \<Rightarrow> Inr (out\<lparr>ev_constant := 0 - ev_constant out\<rparr>, rest)))
        else if text \<noteq> [] \<and> hd text = CHR ''~'' then
          (case parse_unary b n (tl text) of
             Inl e \<Rightarrow> Inl e
           | Inr (out, rest) \<Rightarrow>
               (case require_constant out ''unary ~'' of
                  Some e \<Rightarrow> Inl e
                | None \<Rightarrow> Inr (out\<lparr>ev_constant := NOT (ev_constant out)\<rparr>, rest)))
        else parse_primary b (parse_or b (parse_unary b n)) text)"

definition parse_expression :: "LookupBinding \<Rightarrow> string \<Rightarrow> string + ExprValue" where
  "parse_expression b text =
     (case parse_or b (parse_unary b (length text)) text of
        Inl e \<Rightarrow> Inl e
      | Inr (out, rest) \<Rightarrow>
          if rest \<noteq> [] then Inl (''unexpected '' @ quoted rest @ '' in expression'') else Inr out)"

section \<open>Operand parsers\<close>

text \<open>
  What a precedence level relies on: a parser of operands never leaves more text than it was given.
  Then the fuel of the level's loop is always enough, and the level is an operand parser in turn.
\<close>

locale operand_parser =
  fixes operand :: parser
  assumes shrinks: "operand inp = Inr (v, rest) \<Longrightarrow> length rest \<le> length inp"
begin

lemma loop_shrinks:
  "binary_loop operators combine operand n out inp = Inr (v, rest) \<Longrightarrow> length rest \<le> length inp"
proof (induction n arbitrary: out inp)
  case (Suc n)
  then show ?case
    by (auto split: option.splits sum.splits prod.splits dest!: shrinks Suc.IH)
qed simp

lemma level_shrinks:
  "binary_level operators combine operand inp = Inr (v, rest) \<Longrightarrow> length rest \<le> length inp"
  by (fastforce simp: binary_level_def split: sum.splits prod.splits dest: loop_shrinks shrinks)

lemma loop_fuel:
  assumes "[] \<notin> set operators" and "length inp \<le> n"
  shows "binary_loop operators combine operand n out inp =
         binary_loop operators combine operand (length inp) out inp"
  using assms(2)
proof (induction n arbitrary: out inp rule: less_induct)
  case (less n)
  show ?case
  proof (cases "find (\<lambda>o'. take (length o') inp = o') operators")
    case None
    then show ?thesis by (cases n; cases "length inp") simp_all
  next
    case (Some name)
    then have "name \<noteq> []" "take (length name) inp = name"
      using assms(1) by (auto simp: find_Some_iff) (metis nth_mem)
    then obtain m where m: "length inp = Suc m" by (cases inp) auto
    then obtain n' where n: "n = Suc n'" "m \<le> n'" using less.prems by (cases n) auto
    have "length (drop (length name) inp) \<le> m" using m \<open>name \<noteq> []\<close> by (cases name) auto
    then have sh: "length rest \<le> m" if "operand (drop (length name) inp) = Inr (rhs, rest)" for rhs rest
      using shrinks [OF that] by simp
    have "binary_loop operators combine operand n' out' rest = binary_loop operators combine operand m out' rest"
      if "operand (drop (length name) inp) = Inr (rhs, rest)" for out' rhs rest
      using less.IH [of n' rest out'] less.IH [of m rest out'] sh [OF that] n m less.prems by simp
    with Some m n show ?thesis by (simp split: sum.splits)
  qed
qed

text \<open>Two operand parsers that agree on short texts give levels that agree on short texts.\<close>

lemma level_agrees:
  assumes "\<And>t. length t \<le> k \<Longrightarrow> operand t = operand' t" and "length inp \<le> k"
  shows "binary_level operators combine operand inp = binary_level operators combine operand' inp"
proof -
  have loop: "binary_loop operators combine operand n out t = binary_loop operators combine operand' n out t"
    if "length t \<le> k" for n out t
    using that
  proof (induction n arbitrary: out t)
    case (Suc n)
    have "length rest \<le> k" if "operand (drop m t) = Inr (rhs, rest)" for m rhs rest
      using shrinks [OF that] Suc.prems by simp
    moreover have "operand (drop m t) = operand' (drop m t)" for m
      using assms(1) Suc.prems by simp
    ultimately show ?case
      using Suc.IH by (auto split: option.splits sum.splits)
  qed simp
  show ?thesis
    using assms loop shrinks [of inp] by (auto simp: binary_level_def split: sum.splits)
qed

end

lemma scan_digits_shrinks: "scan_digits base sep digits inp = Inr (s, d, rest) \<Longrightarrow> length rest \<le> length inp"
  by (induction base sep digits inp rule: scan_digits.induct)
    (fastforce split: if_splits option.splits)+

lemma parse_number_shrinks: "parse_number m inp = Inr (v, rest) \<Longrightarrow> length rest \<le> length inp"
  by (fastforce simp: parse_number_def Let_def split: prod.splits sum.splits if_splits list.splits
      dest: scan_digits_shrinks)

lemma decode_escape_shrinks: "decode_escape inp = Some (v, rest) \<Longrightarrow> length rest < length inp"
  by (auto simp: decode_escape_def split: list.splits if_splits option.splits)

lemma parse_character_shrinks: "parse_character inp = Inr (v, rest) \<Longrightarrow> length rest \<le> length inp"
  by (fastforce simp: parse_character_def Let_def split: list.splits sum.splits if_splits option.splits
      dest: decode_escape_shrinks)

lemma parse_primary_parts:
  assumes "parse_primary b expression inp = Inr (v, rest)"
  obtains (grouped) rest' where "expression (tl inp) = Inr (v, rest')" "rest = tl rest'"
  | (number) "parse_number (hd inp) (tl inp) = Inr (v, rest)"
  | (character) "parse_character (tl inp) = Inr (v, rest)"
  | (symbol) "rest = dropWhile (\<lambda>x. isalnum x \<or> x = CHR ''_'') inp"
proof (cases inp)
  case Nil
  with assms show ?thesis by (simp add: parse_primary_def)
next
  case (Cons c cs)
  note p = assms [unfolded parse_primary_def Cons list.case Let_def]
  show ?thesis
  proof (cases "c = CHR ''(''")
    case True
    with p Cons grouped show ?thesis by (auto split: sum.split_asm if_split_asm)
  next
    case False
    then show ?thesis
      using p Cons number character symbol
      by (cases "c = CHR ''#'' \<or> c = CHR ''$'' \<or> c = CHR ''%''"; cases "c = quote"; cases "isdigit c";
          cases "isalpha c \<or> c = CHR ''_''"; cases "parse_symbol b (takeWhile (\<lambda>x. isalnum x \<or> x = CHR ''_'') inp)")
        simp_all
  qed
qed

lemma parse_primary_shrinks:
  assumes "operand_parser expression" and "parse_primary b expression inp = Inr (v, rest)"
  shows "length rest \<le> length inp"
  using assms(2)
proof (cases rule: parse_primary_parts)
  case (grouped rest')
  then show ?thesis using operand_parser.shrinks [OF assms(1) grouped(1)] by simp
next
  case number
  then show ?thesis using parse_number_shrinks [OF number] by simp
next
  case character
  then show ?thesis using parse_character_shrinks [OF character] by simp
next
  case symbol
  then show ?thesis by (simp add: length_dropWhile_le)
qed

lemma operand_parser_level: "operand_parser operand \<Longrightarrow> operand_parser (binary_level operators combine operand)"
  by unfold_locales (rule operand_parser.level_shrinks)

lemma operand_parser_levels:
  assumes "operand_parser u"
  shows "operand_parser (parse_multiplicative u)" "operand_parser (parse_additive b u)"
    "operand_parser (parse_shift b u)" "operand_parser (parse_and b u)" "operand_parser (parse_xor b u)"
    "operand_parser (parse_or b u)"
  unfolding parse_or_def parse_xor_def parse_and_def parse_shift_def parse_additive_def parse_multiplicative_def
  by (intro operand_parser_level assms)+

lemma operand_parser_unary: "operand_parser (parse_unary b n)"
proof (induction n)
  case 0
  show ?case by unfold_locales simp
next
  case (Suc n)
  show ?case
  proof
    fix t v rest
    assume a: "parse_unary b (Suc n) t = Inr (v, rest)"
    show "length rest \<le> length t"
    proof (cases "t \<noteq> [] \<and> (hd t = CHR ''-'' \<or> hd t = CHR ''~'')")
      case True
      then have "length rest \<le> length (tl t)"
        using a by (auto split: if_splits sum.splits option.splits dest!: operand_parser.shrinks [OF Suc])
      then show ?thesis by simp
    next
      case False
      with a have "parse_primary b (parse_or b (parse_unary b n)) t = Inr (v, rest)" by auto
      then show ?thesis by (rule parse_primary_shrinks [OF operand_parser_levels(6) [OF Suc]])
    qed
  qed
qed

interpretation unary: operand_parser "parse_unary b n" for b n
  by (rule operand_parser_unary)

interpretation multiplicative: operand_parser "parse_multiplicative (parse_unary b n)" for b n
  by (rule operand_parser_levels(1) [OF operand_parser_unary])

interpretation additive: operand_parser "parse_additive b (parse_unary b n)" for b n
  by (rule operand_parser_levels(2) [OF operand_parser_unary])

interpretation shift: operand_parser "parse_shift b (parse_unary b n)" for b n
  by (rule operand_parser_levels(3) [OF operand_parser_unary])

interpretation band: operand_parser "parse_and b (parse_unary b n)" for b n
  by (rule operand_parser_levels(4) [OF operand_parser_unary])

interpretation bxor: operand_parser "parse_xor b (parse_unary b n)" for b n
  by (rule operand_parser_levels(5) [OF operand_parser_unary])

interpretation bor: operand_parser "parse_or b (parse_unary b n)" for b n
  by (rule operand_parser_levels(6) [OF operand_parser_unary])

text \<open>The fuel of the unary recursion is enough as soon as it is the length of the text.\<close>

lemma parse_or_agrees:
  assumes "\<And>t. length t \<le> k \<Longrightarrow> parse_unary b n t = parse_unary b m t" and "length t \<le> k"
  shows "parse_or b (parse_unary b n) t = parse_or b (parse_unary b m) t"
proof -
  have mul: "parse_multiplicative (parse_unary b n) t = parse_multiplicative (parse_unary b m) t"
    if "length t \<le> k" for t
    unfolding parse_multiplicative_def by (rule unary.level_agrees [OF assms(1) that])
  have add: "parse_additive b (parse_unary b n) t = parse_additive b (parse_unary b m) t"
    if "length t \<le> k" for t
    unfolding parse_additive_def by (rule multiplicative.level_agrees [OF mul that])
  have shf: "parse_shift b (parse_unary b n) t = parse_shift b (parse_unary b m) t"
    if "length t \<le> k" for t
    unfolding parse_shift_def by (rule additive.level_agrees [OF add that])
  have conj: "parse_and b (parse_unary b n) t = parse_and b (parse_unary b m) t"
    if "length t \<le> k" for t
    unfolding parse_and_def by (rule shift.level_agrees [OF shf that])
  have xor: "parse_xor b (parse_unary b n) t = parse_xor b (parse_unary b m) t"
    if "length t \<le> k" for t
    unfolding parse_xor_def by (rule band.level_agrees [OF conj that])
  show ?thesis
    unfolding parse_or_def by (rule bxor.level_agrees [OF xor assms(2)])
qed

lemma parse_unary_agrees:
  "length t \<le> n \<Longrightarrow> length t \<le> m \<Longrightarrow> parse_unary b n t = parse_unary b m t"
proof (induction n arbitrary: m t)
  case 0
  then show ?case by (cases m) (simp_all add: parse_primary_def)
next
  case (Suc n)
  show ?case
  proof (cases m)
    case 0
    with Suc.prems show ?thesis by (simp add: parse_primary_def)
  next
    case (Suc m')
    have *: "parse_unary b n t' = parse_unary b m' t'" if "length t' \<le> min n m'" for t'
      using Suc.IH [of t' m'] that by simp
    show ?thesis
    proof (cases t)
      case Nil
      with \<open>m = Suc m'\<close> show ?thesis by (simp add: parse_primary_def)
    next
      case (Cons c rest)
      with Suc.prems \<open>m = Suc m'\<close> have l: "length rest \<le> min n m'" by simp
      with \<open>m = Suc m'\<close> Cons * [OF l] parse_or_agrees [of "min n m'" b n m' rest, OF *]
      show ?thesis by (simp add: parse_primary_def)
    qed
  qed
qed

section \<open>Register names\<close>

text \<open>Digits without a leading zero that name a register are the decimal text of its number.\<close>

lemma register_digits:
  assumes "list_all isdigit ds" and "ds \<noteq> []" and "length ds = 1 \<or> hd ds \<noteq> CHR ''0''"
    and "register_number 0 ds = Some k"
  shows "ds = to_string k \<and> k < 32"
proof (cases ds)
  case (Cons d1 ds1)
  have c1: "code d1 - 48 \<le> 9" "48 \<le> code d1" using assms(1) Cons by (auto simp: isdigit_def)
  show ?thesis
  proof (cases ds1)
    case Nil
    with Cons assms(4) c1 show ?thesis
      by (auto simp: to_string.simps [of k] Let_def split: if_splits)
  next
    case d2: (Cons d2 ds2)
    have nz: "code d1 \<noteq> 48"
    proof
      assume "code d1 = 48"
      then have "d1 = char_of (48::nat)" by (metis char_of_char)
      moreover have "char_of (48::nat) = CHR ''0''" by code_simp
      ultimately show False using assms(3) Cons d2 by simp
    qed
    have c2: "code d2 - 48 \<le> 9" "48 \<le> code d2" using assms(1) Cons d2 by (auto simp: isdigit_def)
    show ?thesis
    proof (cases ds2)
      case Nil
      define a b where "a = code d1 - 48" and "b = code d2 - 48"
      have k: "k = a * 10 + b" "k < 32" using assms(4) Cons d2 Nil by (auto simp: Let_def a_def b_def split: if_splits)
      have ab: "a \<noteq> 0" "a < 10" "b < 10" "char_of (48 + a) = d1" "char_of (48 + b) = d2"
        using c1 c2 nz by (auto simp: a_def b_def)
      have "\<not> k < 10" "k div 10 = a" "k mod 10 = b" using k ab by auto
      then have "to_string k = [d1, d2]" using ab by (simp add: to_string.simps [of k] to_string.simps [of a])
      then show ?thesis using Cons d2 Nil k(2) by simp
    next
      case (Cons d3 ds3)
      then show ?thesis using assms(4) \<open>ds = d1 # ds1\<close> d2 c1 c2 nz by (auto simp: Let_def split: if_splits)
    qed
  qed
qed (use assms(2) in simp)


lemma numbered_registers: "list_all (\<lambda>k. is_register_name (''r'' @ to_string k) = Some (of_nat k)) [0..<32]"
  by code_simp

lemma aliased_registers: "list_all (\<lambda>(t, n). is_register_name t = Some n) kRegisterAliases"
  by code_simp

lemma register_names:
  "is_register_name t = Some n \<longleftrightarrow>
     (\<exists>k < 32. t = ''r'' @ to_string k \<and> n = of_nat k) \<or> (t, n) \<in> set kRegisterAliases"
proof
  assume n: "is_register_name t = Some n"
  show "(\<exists>k < 32. t = ''r'' @ to_string k \<and> n = of_nat k) \<or> (t, n) \<in> set kRegisterAliases"
  proof (cases "length t \<ge> 2 \<and> hd t = CHR ''r'' \<and> list_all isdigit (tl t) \<and>
      (length (tl t) = 1 \<or> hd (tl t) \<noteq> CHR ''0'') \<and> register_number 0 (tl t) \<noteq> None")
    case True
    then obtain k where k: "register_number 0 (tl t) = Some k" by blast
    have "tl t \<noteq> []" using True by (cases t) auto
    then have "tl t = to_string k" "k < 32" using register_digits [of "tl t" k] True k by auto
    moreover have "t = CHR ''r'' # tl t" using True by (cases t) auto
    moreover have "n = of_nat k" using n True k by (simp add: is_register_name_def Let_def)
    ultimately have "t = ''r'' @ to_string k" by simp
    with \<open>k < 32\<close> \<open>n = of_nat k\<close> show ?thesis by blast
  next
    case False
    then have "map_of kRegisterAliases t = Some n"
      using n by (auto simp: is_register_name_def Let_def split: if_splits option.splits)
    then show ?thesis by (auto dest: map_of_SomeD)
  qed
next
  assume "(\<exists>k < 32. t = ''r'' @ to_string k \<and> n = of_nat k) \<or> (t, n) \<in> set kRegisterAliases"
  then show "is_register_name t = Some n"
    using numbered_registers aliased_registers by (auto simp: list_all_iff)
qed


section \<open>Properties\<close>

text \<open>C40: A register is written \<open>r0\<close> to \<open>r31\<close> without a leading zero or by its one alias, nothing else names
  a register, and the reserved words are exactly the register names, \<open>here\<close> and the directives.\<close>

theorem register_spellings:
  "(is_register_name t = Some n \<longleftrightarrow>
      (\<exists>k < 32. t = ''r'' @ to_string k \<and> n = of_nat k) \<or> (t, n) \<in> set kRegisterAliases) \<and>
   (is_reserved_word t \<longleftrightarrow> t \<in> set all_reserved_words)"
proof
  have "is_register_name t \<noteq> None \<longleftrightarrow> t \<in> (\<lambda>i. ''r'' @ to_string i) ` {0..<32} \<or> t \<in> fst ` set kRegisterAliases"
    unfolding not_None_eq register_names by force
  then show "is_reserved_word t \<longleftrightarrow> t \<in> set all_reserved_words"
    by (auto simp: is_reserved_word_def all_reserved_words_def)
qed (rule register_names)

lemma signed_min_mask:
  assumes "0 < w" and "w < 64"
  shows "NOT (push_bit w 1 - 1) OR push_bit (w - 1) 1 = (NOT (mask (w - 1)) :: u64)"
proof -
  have "push_bit w 1 - 1 = (mask w :: u64)" by (simp add: mask_eq_exp_minus_1 push_bit_eq_mult)
  with assms show ?thesis
    by (intro bit_word_eqI) (auto simp: bit_simps)
qed

lemma uint_not:
  fixes x :: u64
  shows "uint (NOT x) = 2 ^ 64 - 1 - uint x"
proof -
  have *: "0 \<le> u \<Longrightarrow> u < 2 ^ 64 \<Longrightarrow> (2 ^ 64 - 1 - u) mod 2 ^ 64 = 2 ^ 64 - 1 - u" for u :: int
    by (simp add: mod_pos_pos_trivial)
  have "NOT x = word_of_int (2 ^ 64 - 1 - uint x)" by (simp add: not_eq_complement)
  then have "uint (NOT x) = (2 ^ 64 - 1 - uint x) mod 2 ^ 64"
    by (simp only: uint_word_of_int) simp
  also have "\<dots> = 2 ^ 64 - 1 - uint x"
    using * [OF uint_ge_0 [of x]] uint_bounded [of x] by simp
  finally show ?thesis .
qed

lemma uint_mask: "n \<le> 64 \<Longrightarrow> uint (mask n :: u64) = 2 ^ n - 1"
proof -
  assume "n \<le> 64"
  have "uint (mask n :: u64) = uint (word_of_int (mask n) :: u64)" by (simp only: of_int_mask_eq)
  also have "\<dots> = take_bit 64 (mask n)" by (simp add: unsigned_of_int)
  also have "\<dots> = 2 ^ n - 1"
    using power_increasing [of n 64 "2 :: int"] \<open>n \<le> 64\<close>
    by (subst take_bit_int_eq_self) (simp_all add: mask_eq_exp_minus_1)
  finally show ?thesis .
qed

lemma fits_ranges:
  assumes "0 < w" and "w < 64"
  shows "fits v w \<longleftrightarrow> v \<le> mask w \<or> NOT (mask (w - 1)) \<le> v"
proof -
  have "push_bit w 1 - 1 = (mask w :: u64)" by (simp add: mask_eq_exp_minus_1 push_bit_eq_mult)
  moreover have "NOT (push_bit w 1 - 1) OR push_bit (w - 1) 1 = NOT (mask (w - 1) :: u64)"
    using assms by (rule signed_min_mask)
  ultimately show ?thesis unfolding fits_def Let_def using assms(2) by simp
qed

text \<open>C39: The field-fit rule is the dual reading: a field of \<open>w\<close> bits accepts a 64-bit value exactly
  when it is a number of the range from \<open>- 2 ^ (w - 1)\<close> through \<open>2 ^ w - 1\<close> in two's complement.\<close>

theorem fits_is_dual_reading:
  assumes "0 < w" and "w \<le> 64"
  shows "fits v w \<longleftrightarrow> (\<exists>i. - (2 ^ (w - 1)) \<le> i \<and> i < 2 ^ w \<and> v = word_of_int i)"
proof (cases "w = 64")
  case True
  have "uint v < 2 ^ 64" using uint_bounded [of v] by simp
  then have "\<exists>i. - (2 ^ 63) \<le> i \<and> i < 2 ^ 64 \<and> v = word_of_int i"
    using uint_ge_0 [of v] by (intro exI [of _ "uint v"]) (auto intro: order_trans [of _ 0])
  with True show ?thesis by (simp add: fits_def)
next
  case False
  with assms have w: "w < 64" by simp
  have "(2::int) ^ w \<le> 2 ^ 63" "(2::int) ^ (w - 1) \<le> 2 ^ 62"
    using w by (intro power_increasing; simp)+
  note p = this [simplified]
  have um: "v \<le> mask w \<longleftrightarrow> uint v < 2 ^ w"
    using uint_mask [of w] w by (auto simp: word_le_def)
  have sm: "NOT (mask (w - 1)) \<le> v \<longleftrightarrow> 2 ^ 64 - 2 ^ (w - 1) \<le> uint v"
  proof -
    have "uint (NOT (mask (w - 1)) :: u64) = 2 ^ 64 - 1 - uint (mask (w - 1) :: u64)" by (rule uint_not)
    moreover have "uint (mask (w - 1) :: u64) = 2 ^ (w - 1) - 1"
      using w by (intro uint_mask) simp
    ultimately show ?thesis by (auto simp: word_le_def)
  qed
  have "fits v w \<longleftrightarrow> uint v < 2 ^ w \<or> 2 ^ 64 - 2 ^ (w - 1) \<le> uint v"
    unfolding fits_ranges [OF assms(1) w] um sm ..
  also have "\<dots> \<longleftrightarrow> (\<exists>i. - (2 ^ (w - 1)) \<le> i \<and> i < 2 ^ w \<and> v = word_of_int i)"
    (is "_ \<longleftrightarrow> (\<exists>i. ?P i)")
  proof
    assume "uint v < 2 ^ w \<or> 2 ^ 64 - 2 ^ (w - 1) \<le> uint v"
    then show "\<exists>i. ?P i"
    proof
      assume "uint v < 2 ^ w"
      then show ?thesis using uint_ge_0 [of v] by (intro exI [of _ "uint v"]) (auto intro: order_trans [of _ 0])
    next
      assume "2 ^ 64 - 2 ^ (w - 1) \<le> uint v"
      moreover have "uint v < 2 ^ 64" using uint_bounded [of v] by simp
      ultimately have "?P (uint v - 2 ^ 64)" by (auto intro: less_trans [of _ 0])
      then show ?thesis by blast
    qed
  next
    assume "\<exists>i. ?P i"
    then obtain i where i: "- (2 ^ (w - 1)) \<le> i" "i < 2 ^ w" "v = word_of_int i" by blast
    then have u: "uint v = i mod 2 ^ 64" by (simp add: uint_word_of_int)
    show "uint v < 2 ^ w \<or> 2 ^ 64 - 2 ^ (w - 1) \<le> uint v"
    proof (cases "0 \<le> i")
      case True
      with i p u show ?thesis by (simp add: mod_pos_pos_trivial)
    next
      case False
      have "i mod 2 ^ 64 = (i + 2 ^ 64) mod 2 ^ 64" by (simp only: mod_add_self2)
      also have "\<dots> = i + 2 ^ 64" using i(1) p False by (intro mod_pos_pos_trivial) simp_all
      finally have "i mod 2 ^ 64 = i + 2 ^ 64" .
      with u i show ?thesis by simp
    qed
  qed
  finally show ?thesis .
qed

theorem fits_is_dual_reading_witness: "fits (word_of_int (- 128)) 8"
  using fits_is_dual_reading [of 8 "word_of_int (- 128)"] by (auto intro!: exI [of _ "- 128"])

end
