(* ===== verification/Expression_Syntax.thy ===== *)
theory Expression_Syntax
  imports Expressions
begin

text \<open>
  The expression language as syntax trees, against which the parser of \<^verbatim>\<open>src/v2/mzasm_lexer.cpp\<close> is
  judged: \<open>render\<close> writes a tree with the parentheses that precedence and left association need,
  \<open>meaning\<close> computes its value bottom up, and parsing a rendered tree gives exactly its meaning,
  the message of a failing operator included.
\<close>

section \<open>Syntax trees\<close>

datatype unop = Negation | Complement

datatype binop = OrOp | XorOp | AndOp | ShlOp | ShrOp | AddOp | SubOp | MulOp | DivOp

datatype expr = Literal char string | Quoted char | Name string | Unary unop expr | Binary binop expr expr

primrec unop_text :: "unop \<Rightarrow> char" where
  "unop_text Negation = CHR ''-''"
| "unop_text Complement = CHR ''~''"

primrec op_text :: "binop \<Rightarrow> string" where
  "op_text OrOp = ''|''"
| "op_text XorOp = ''^''"
| "op_text AndOp = ''&''"
| "op_text ShlOp = ''<<''"
| "op_text ShrOp = ''>>''"
| "op_text AddOp = ''+''"
| "op_text SubOp = ''-''"
| "op_text MulOp = ''*''"
| "op_text DivOp = ''/''"

text \<open>Binding strength, loosest first.\<close>

primrec op_level :: "binop \<Rightarrow> nat" where
  "op_level OrOp = 0"
| "op_level XorOp = 1"
| "op_level AndOp = 2"
| "op_level ShlOp = 3"
| "op_level ShrOp = 3"
| "op_level AddOp = 4"
| "op_level SubOp = 4"
| "op_level MulOp = 5"
| "op_level DivOp = 5"

fun render :: "nat \<Rightarrow> expr \<Rightarrow> string" where
  "render k (Literal m ds) = m # ds"
| "render k (Quoted c) = [quote, c, quote]"
| "render k (Name x) = x"
| "render k (Unary u e) = unop_text u # render 6 e"
| "render k (Binary op x y) =
     (if op_level op < k then ''('' @ render (op_level op) x @ op_text op @ render (Suc (op_level op)) y @ '')''
      else render (op_level op) x @ op_text op @ render (Suc (op_level op)) y)"

definition wf_name :: "string \<Rightarrow> bool" where
  "wf_name x \<longleftrightarrow> x \<noteq> [] \<and> (isalpha (hd x) \<or> hd x = CHR ''_'') \<and> list_all (\<lambda>c. isalnum c \<or> c = CHR ''_'') x"

definition digit_of :: "nat \<Rightarrow> char \<Rightarrow> bool" where
  "digit_of base c \<longleftrightarrow> (case hex_digit c of Some d \<Rightarrow> d < base | None \<Rightarrow> False)"

fun wf_expr :: "expr \<Rightarrow> bool" where
  "wf_expr (Literal m ds) \<longleftrightarrow>
     m \<in> set ''#$%'' \<and> ds \<noteq> [] \<and> list_all (digit_of (fst (marker_base m))) ds"
| "wf_expr (Quoted c) \<longleftrightarrow> c \<noteq> backslash"
| "wf_expr (Name x) \<longleftrightarrow> wf_name x"
| "wf_expr (Unary u e) \<longleftrightarrow> wf_expr e"
| "wf_expr (Binary op x y) \<longleftrightarrow> wf_expr x \<and> wf_expr y"

section \<open>Meaning\<close>

primrec apply_unop :: "unop \<Rightarrow> ExprValue \<Rightarrow> string + ExprValue" where
  "apply_unop Negation v =
     (case require_constant v ''unary -'' of Some e \<Rightarrow> Inl e | None \<Rightarrow> Inr (v\<lparr>ev_constant := 0 - ev_constant v\<rparr>))"
| "apply_unop Complement v =
     (case require_constant v ''unary ~'' of Some e \<Rightarrow> Inl e | None \<Rightarrow> Inr (v\<lparr>ev_constant := NOT (ev_constant v)\<rparr>))"

text \<open>The operators and the operations of each level.\<close>

definition level_ops :: "nat \<Rightarrow> string list" where
  "level_ops k = [[''|''], [''^''], [''&''], [''<<'', ''>>''], [''+'', ''-''], [''*'', ''/'']] ! k"

definition level_combine :: "LookupBinding \<Rightarrow> nat \<Rightarrow> string \<Rightarrow> ExprValue \<Rightarrow> ExprValue \<Rightarrow> string + ExprValue" where
  "level_combine b k =
     [\<lambda>name. on_constants name (\<lambda>x y. Inr (x OR y)), \<lambda>name. on_constants name (\<lambda>x y. Inr (x XOR y)),
      \<lambda>name. on_constants name (\<lambda>x y. Inr (x AND y)), \<lambda>name. on_constants name (shift_constants name),
      \<lambda>name. combine_additive b (name = ''-''), \<lambda>name. on_constants name (multiply_constants name)] ! k"

definition and_then :: "string + 'a \<Rightarrow> ('a \<Rightarrow> string + 'b) \<Rightarrow> string + 'b" where
  "and_then x f = (case x of Inl e \<Rightarrow> Inl e | Inr v \<Rightarrow> f v)"

lemma and_then_simps [simp]: "and_then (Inl e) f = Inl e" "and_then (Inr v) f = f v"
  by (simp_all add: and_then_def)

lemma and_then_assoc: "and_then (and_then x f) g = and_then x (\<lambda>v. and_then (f v) g)"
  by (cases x) simp_all

fun meaning :: "LookupBinding \<Rightarrow> expr \<Rightarrow> string + ExprValue" where
  "meaning b (Literal m ds) = Inr (constant_value (digits_value (fst (marker_base m)) ds))"
| "meaning b (Quoted c) = Inr (constant_value (of_nat (code c)))"
| "meaning b (Name x) = parse_symbol b x"
| "meaning b (Unary u e) = and_then (meaning b e) (apply_unop u)"
| "meaning b (Binary op x y) =
     and_then (meaning b x) (\<lambda>v. and_then (meaning b y) (\<lambda>w. level_combine b (op_level op) (op_text op) v w))"

section \<open>The parser by levels\<close>

definition parse_at :: "LookupBinding \<Rightarrow> nat \<Rightarrow> nat \<Rightarrow> parser" where
  "parse_at b n k =
     (let u = parse_unary b n
      in [parse_or b u, parse_xor b u, parse_and b u, parse_shift b u, parse_additive b u,
          parse_multiplicative u, u] ! k)"

lemma level_cases: "k < 6 \<Longrightarrow> k = 0 \<or> k = 1 \<or> k = 2 \<or> k = 3 \<or> k = 4 \<or> k = (5 :: nat)"
  by auto

lemma parse_at_level:
  "k < 6 \<Longrightarrow> parse_at b n k = binary_level (level_ops k) (level_combine b k) (parse_at b n (Suc k))"
  by (drule level_cases, elim disjE)
    (simp_all add: parse_at_def level_ops_def level_combine_def Let_def parse_or_def parse_xor_def parse_and_def
      parse_shift_def parse_additive_def parse_multiplicative_def)

lemma operand_parser_at: "k \<le> 6 \<Longrightarrow> operand_parser (parse_at b n k)"
proof (induction k rule: inc_induct)
  case base
  show ?case by (simp add: parse_at_def operand_parser_unary)
next
  case (step k)
  then show ?case by (simp add: parse_at_level operand_parser_level)
qed

lemma level_ops_nonempty: "k < 6 \<Longrightarrow> [] \<notin> set (level_ops k)"
  by (drule level_cases, elim disjE) (simp_all add: level_ops_def)

text \<open>The operators of a level are the texts of its operations, and no text starts another.\<close>

lemma level_ops_texts:
  "k < 6 \<Longrightarrow> level_ops k =
     map op_text (filter (\<lambda>op. op_level op = k) [OrOp, XorOp, AndOp, ShlOp, ShrOp, AddOp, SubOp, MulOp, DivOp])"
  by (drule level_cases, elim disjE) (simp_all add: level_ops_def)

lemma level_opsE: "x \<in> set (level_ops k) \<Longrightarrow> k < 6 \<Longrightarrow> \<exists>op. op_level op = k \<and> x = op_text op"
  unfolding level_ops_texts set_map set_filter by blast

definition starts :: "string \<Rightarrow> string \<Rightarrow> bool" where
  "starts o' t \<longleftrightarrow> take (length o') t = o'"

lemma starts_text: "starts (op_text op) (op_text op' @ t) \<longleftrightarrow> op = op'"
  by (cases op; cases op') (simp_all add: starts_def)

text \<open>No operator that binds tighter than \<open>k\<close> follows.\<close>

definition loose :: "nat \<Rightarrow> string \<Rightarrow> bool" where
  "loose k t \<longleftrightarrow> (\<forall>op. k < op_level op \<longrightarrow> \<not> starts (op_text op) t)"

lemma loose_mono: "loose k t \<Longrightarrow> k \<le> j \<Longrightarrow> loose j t"
  by (auto simp: loose_def)

lemma loose_text: "loose (op_level op) (op_text op @ t)"
  by (auto simp: loose_def starts_text)

lemma find_none:
  assumes "loose k t" and "k < j" and "j < 6"
  shows "find (\<lambda>o'. take (length o') t = o') (level_ops j) = None"
proof -
  have "\<not> starts x t" if "x \<in> set (level_ops j)" for x
    using level_opsE [OF that assms(3)] assms(1,2) by (auto simp: loose_def)
  then show ?thesis by (simp add: find_None_iff starts_def)
qed

lemma find_text:
  "find (\<lambda>o'. take (length o') (op_text op @ t) = o') (level_ops (op_level op)) = Some (op_text op)"
  by (cases op) (simp_all add: level_ops_def)

lemma op_text_nonempty: "[] \<noteq> op_text op"
  by (cases op) simp_all

lemma op_level_bound: "op_level op < 6"
  by (cases op) simp_all

section \<open>Leaves\<close>

text \<open>What may follow an operand: the end, an operator or a closing parenthesis.\<close>

definition ended :: "string \<Rightarrow> bool" where
  "ended t \<longleftrightarrow> t = [] \<or> hd t \<in> set ''|^&<>+-*/)''"

lemma ended_text: "ended (op_text op @ t)" and ended_close: "ended (CHR '')'' # t)"
  by (cases op) (simp_all add: ended_def)

lemma ended_no_digit: "ended (c # t) \<Longrightarrow> hex_digit c = None \<and> c \<noteq> CHR '','' \<and> c \<noteq> CHR 0x60"
  by (auto simp: ended_def hex_digit_def)

lemma ended_no_name: "ended (c # t) \<Longrightarrow> \<not> (isalnum c \<or> c = CHR ''_'')"
  by (auto simp: ended_def isalnum_def isalpha_def isdigit_def)

lemma scan_digits_all:
  assumes "list_all (digit_of base) ds" and "ended rest"
  shows "scan_digits base sep acc (ds @ rest) = Inr (ds = [] \<and> sep, acc @ ds, rest)"
  using assms(1)
proof (induction ds arbitrary: sep acc)
  case Nil
  then show ?case using assms(2) by (cases rest) (auto dest: ended_no_digit)
next
  case (Cons d ds)
  then obtain n where "hex_digit d = Some n" "n < base" by (auto simp: digit_of_def split: option.splits)
  moreover from this have "d \<noteq> CHR '',''" "d \<noteq> CHR 0x60" by (auto simp: hex_digit_def)
  ultimately show ?case using Cons by simp
qed

lemma parse_number_literal:
  assumes "ds \<noteq> []" and "list_all (digit_of (fst (marker_base m))) ds" and "ended rest"
  shows "parse_number m (ds @ rest) = Inr (constant_value (digits_value (fst (marker_base m)) ds), rest)"
proof -
  obtain d ds' where d: "ds = d # ds'" using assms(1) by (cases ds) auto
  then have "hex_digit d \<noteq> None" using assms(2) by (auto simp: digit_of_def split: option.splits)
  then have "d \<noteq> CHR ''-''" "d \<noteq> CHR ''+''" by (auto simp: hex_digit_def)
  moreover have "scan_digits (fst (marker_base m)) True [] (ds @ rest) = Inr (False, ds, rest)"
    using scan_digits_all [OF assms(2,3), of True "[]"] assms(1) by simp
  ultimately show ?thesis using d by (simp add: parse_number_def split_beta)
qed

text \<open>A parser's result when it reads exactly one operand.\<close>

abbreviation reads :: "string + ExprValue \<Rightarrow> string \<Rightarrow> string + ExprValue \<times> string" where
  "reads m rest \<equiv> and_then m (\<lambda>v. Inr (v, rest))"

lemma unary_is_primary:
  "t \<noteq> [] \<Longrightarrow> hd t \<noteq> CHR ''-'' \<Longrightarrow> hd t \<noteq> CHR ''~'' \<Longrightarrow> length t \<le> n \<Longrightarrow>
   parse_unary b n t = parse_primary b (parse_or b (parse_unary b (n - 1))) t"
  by (cases n) simp_all

lemma parse_literal:
  assumes "wf_expr (Literal m ds)" and "ended rest" and "length (m # ds @ rest) \<le> n"
  shows "parse_unary b n (m # ds @ rest) = reads (meaning b (Literal m ds)) rest"
proof -
  have "m = CHR ''#'' \<or> m = CHR ''$'' \<or> m = CHR ''%''" using assms(1) by auto
  then have "parse_unary b n (m # ds @ rest) = parse_number m (ds @ rest)"
    using assms(3) by (subst unary_is_primary) (auto simp: parse_primary_def)
  with parse_number_literal [of ds m rest] assms show ?thesis by simp
qed

lemma char_word: "ucast (of_nat (code c) :: u8) = (of_nat (code c) :: u64)"
  by (simp add: unsigned_of_nat take_bit_nat_eq_self)

lemma parse_quoted:
  assumes "c \<noteq> backslash" and "length ([quote, c, quote] @ rest) \<le> n"
  shows "parse_unary b n ([quote, c, quote] @ rest) = reads (meaning b (Quoted c)) rest"
  using assms
  by (subst unary_is_primary) (simp_all add: parse_primary_def parse_character_def isdigit_def char_word)

lemma parse_name:
  assumes "wf_name x" and "ended rest" and "length (x @ rest) \<le> n"
  shows "parse_unary b n (x @ rest) = reads (meaning b (Name x)) rest"
proof -
  let ?P = "\<lambda>c. isalnum c \<or> c = CHR ''_''"
  obtain c cs where x: "x = c # cs" using assms(1) by (cases x) (auto simp: wf_name_def)
  have c: "isalpha c \<or> c = CHR ''_''" and all: "list_all ?P x" using assms(1) x by (auto simp: wf_name_def)
  have ne: "c \<noteq> CHR ''-''" "c \<noteq> CHR ''~''" "c \<noteq> CHR ''(''" "c \<noteq> CHR ''#''" "c \<noteq> CHR ''$''" "c \<noteq> CHR ''%''" "c \<noteq> quote"
    "\<not> isdigit c"
    using c by (auto simp: isalpha_def isdigit_def)
  have tw: "takeWhile ?P (x @ rest) = x" "dropWhile ?P (x @ rest) = rest"
    using all ended_no_name [of "hd rest" "tl rest"] assms(2)
    by (cases rest; auto simp: list_all_iff takeWhile_append dropWhile_append)+
  have "parse_unary b n (x @ rest) = parse_primary b (parse_or b (parse_unary b (n - 1))) (x @ rest)"
    using x ne assms(3) by (intro unary_is_primary) auto
  also have "\<dots> = (case parse_symbol b x of Inl e \<Rightarrow> Inl e | Inr v \<Rightarrow> Inr (v, rest))"
    using ne c tw by (simp add: parse_primary_def x)
  finally show ?thesis by (simp add: and_then_def)
qed

section \<open>Parsing a rendered tree\<close>

text \<open>
  What level \<open>k\<close> does after its first operand: nothing for the unary level, the level's loop
  otherwise.
\<close>

definition continue_at :: "LookupBinding \<Rightarrow> nat \<Rightarrow> nat \<Rightarrow> ExprValue \<Rightarrow> parser" where
  "continue_at b n k v rest =
     (if k < 6 then binary_loop (level_ops k) (level_combine b k) (parse_at b n (Suc k)) (length rest) v rest
      else Inr (v, rest))"

lemma continue_none:
  assumes "loose k rest" and "k < j"
  shows "continue_at b n j v rest = Inr (v, rest)"
proof (cases "j < 6")
  case True
  then show ?thesis
    using find_none [OF assms True] by (cases "length rest") (simp_all add: continue_at_def)
qed (simp add: continue_at_def)

lemma parse_at_continue:
  assumes "k < 6"
  shows "parse_at b n k t = and_then (parse_at b n (Suc k) t) (\<lambda>(v, rest). continue_at b n k v rest)"
  using assms by (simp add: parse_at_level binary_level_def continue_at_def and_then_def split: sum.splits)

text \<open>An operand read at a tighter level is read the same way at a looser one.\<close>

lemma parse_at_lift:
  assumes "k \<le> j" and "j \<le> 6" and "parse_at b n j t = and_then m (\<lambda>v. continue_at b n j v rest)" and "loose k rest"
  shows "parse_at b n k t = and_then m (\<lambda>v. continue_at b n k v rest)"
  using assms(1,4)
proof (induction k rule: inc_induct)
  case base
  show ?case by (rule assms(3))
next
  case (step k)
  then have "parse_at b n (Suc k) t = and_then m (\<lambda>v. continue_at b n (Suc k) v rest)"
    using loose_mono [of k rest "Suc k"] by simp
  then have "parse_at b n (Suc k) t = reads m rest"
    using continue_none [OF step.prems, of "Suc k"] by simp
  then show ?case
    using step.hyps assms(2) by (simp add: parse_at_continue and_then_assoc)
qed

lemma parse_at_unary:
  assumes "k \<le> 6" and "parse_at b n 6 t = reads m rest" and "loose k rest"
  shows "parse_at b n k t = and_then m (\<lambda>v. continue_at b n k v rest)"
  using assms(2) by (intro parse_at_lift [OF assms(1) _ _ assms(3)]) (simp_all add: continue_at_def)

lemma loose_close: "loose k (CHR '')'' # t)"
  unfolding loose_def
proof (intro allI impI)
  fix op
  show "\<not> starts (op_text op) (CHR '')'' # t)" by (cases op) (simp_all add: starts_def)
qed

lemma continue_close: "continue_at b n 0 v (CHR '')'' # t) = Inr (v, CHR '')'' # t)"
  by (simp add: continue_at_def level_ops_def)

lemma continue_text:
  assumes "parse_at b n (Suc (op_level op)) t = reads m rest"
  shows "continue_at b n (op_level op) v (op_text op @ t) =
         and_then m (\<lambda>w. and_then (level_combine b (op_level op) (op_text op) v w)
                          (\<lambda>v. continue_at b n (op_level op) v rest))"
proof -
  let ?k = "op_level op"
  have op: "operand_parser (parse_at b n (Suc ?k))" using op_level_bound [of op] by (intro operand_parser_at) simp
  obtain l where l: "length (op_text op @ t) = Suc l" "length t \<le> l" by (cases op) auto
  have fuel: "binary_loop (level_ops ?k) (level_combine b ?k) (parse_at b n (Suc ?k)) l u rest =
      binary_loop (level_ops ?k) (level_combine b ?k) (parse_at b n (Suc ?k)) (length rest) u rest"
    if "m = Inr w" for u w
    using operand_parser.shrinks [OF op, of t w rest] assms that l(2) level_ops_nonempty [OF op_level_bound, of op]
    by (intro operand_parser.loop_fuel [OF op]) auto
  have d: "drop (length (op_text op)) (op_text op @ t) = t" by simp
  have "continue_at b n ?k v (op_text op @ t) = (case reads m rest of Inl e \<Rightarrow> Inl e
      | Inr (w, rest) \<Rightarrow> (case level_combine b ?k (op_text op) v w of Inl e \<Rightarrow> Inl e
          | Inr v \<Rightarrow> binary_loop (level_ops ?k) (level_combine b ?k) (parse_at b n (Suc ?k)) l v rest))"
    unfolding continue_at_def l(1) binary_loop.simps find_text option.case d assms
    using op_level_bound [of op] by simp
  then show ?thesis
    using op_level_bound [of op] fuel by (cases m) (auto simp: continue_at_def and_then_def split: sum.splits)
qed

lemma parse_binary:
  assumes x: "\<And>rest. ended rest \<Longrightarrow> loose (op_level op) rest \<Longrightarrow> length (render (op_level op) x @ rest) \<le> n \<Longrightarrow>
      parse_at b n (op_level op) (render (op_level op) x @ rest) =
        and_then (meaning b x) (\<lambda>v. continue_at b n (op_level op) v rest)"
    and y: "\<And>rest. ended rest \<Longrightarrow> loose (Suc (op_level op)) rest \<Longrightarrow>
      length (render (Suc (op_level op)) y @ rest) \<le> n \<Longrightarrow>
      parse_at b n (Suc (op_level op)) (render (Suc (op_level op)) y @ rest) =
        and_then (meaning b y) (\<lambda>v. continue_at b n (Suc (op_level op)) v rest)"
    and "k \<le> op_level op" and "ended rest" and "loose k rest"
    and "length (render (op_level op) x @ op_text op @ render (Suc (op_level op)) y @ rest) \<le> n"
  shows "parse_at b n k (render (op_level op) x @ op_text op @ render (Suc (op_level op)) y @ rest) =
         and_then (meaning b (Binary op x y)) (\<lambda>v. continue_at b n k v rest)"
proof -
  let ?j = "op_level op"
  have loose: "loose ?j rest" "loose (Suc ?j) rest" using loose_mono [OF assms(5)] assms(3) by simp_all
  have "parse_at b n (Suc ?j) (render (Suc ?j) y @ rest) = reads (meaning b y) rest"
    using y [OF assms(4) loose(2)] assms(6) continue_none [OF loose(1), of "Suc ?j"] by simp
  note c = continue_text [OF this]
  have "parse_at b n ?j (render ?j x @ op_text op @ render (Suc ?j) y @ rest) =
      and_then (meaning b (Binary op x y)) (\<lambda>v. continue_at b n ?j v rest)"
    using x [OF ended_text loose_text, of "render (Suc ?j) y @ rest"] assms(6) c
    by (simp add: and_then_assoc)
  then show ?thesis using parse_at_lift [OF assms(3) _ _ assms(5)] op_level_bound [of op] by simp
qed

lemma parse_rendered:
  assumes "wf_expr e" and "k \<le> 6" and "ended rest" and "loose k rest" and "length (render k e @ rest) \<le> n"
  shows "parse_at b n k (render k e @ rest) = and_then (meaning b e) (\<lambda>v. continue_at b n k v rest)"
  using assms
proof (induction e arbitrary: k rest n)
  case (Literal m ds)
  then have "parse_at b n 6 (render k (Literal m ds) @ rest) = reads (meaning b (Literal m ds)) rest"
    using parse_literal [of m ds rest n b] by (simp add: parse_at_def)
  then show ?case by (rule parse_at_unary [OF Literal.prems(2) _ Literal.prems(4)])
next
  case (Quoted c)
  then have "parse_at b n 6 (render k (Quoted c) @ rest) = reads (meaning b (Quoted c)) rest"
    using parse_quoted [of c rest n b] by (simp add: parse_at_def)
  then show ?case by (rule parse_at_unary [OF Quoted.prems(2) _ Quoted.prems(4)])
next
  case (Name x)
  then have "parse_at b n 6 (render k (Name x) @ rest) = reads (meaning b (Name x)) rest"
    using parse_name [of x rest n b] by (simp add: parse_at_def)
  then show ?case by (rule parse_at_unary [OF Name.prems(2) _ Name.prems(4)])
next
  case (Unary u e)
  obtain n' where n: "n = Suc n'" using Unary.prems(5) by (cases n) auto
  have "loose 6 rest" by (rule loose_mono [OF Unary.prems(4,2)])
  with Unary n have "parse_at b n' 6 (render 6 e @ rest) = and_then (meaning b e) (\<lambda>v. continue_at b n' 6 v rest)"
    by simp
  then have "parse_unary b n' (render 6 e @ rest) = reads (meaning b e) rest"
    by (simp add: parse_at_def continue_at_def)
  then have "parse_at b n 6 (render k (Unary u e) @ rest) = reads (meaning b (Unary u e)) rest"
    unfolding n parse_at_def by (cases u; cases "meaning b e") (simp_all split: option.splits)
  then show ?case by (rule parse_at_unary [OF Unary.prems(2) _ Unary.prems(4)])
next
  case (Binary op x y)
  have b: "parse_at b n k (render (op_level op) x @ op_text op @ render (Suc (op_level op)) y @ rest) =
         and_then (meaning b (Binary op x y)) (\<lambda>v. continue_at b n k v rest)"
    if "k \<le> op_level op" "ended rest" "loose k rest"
      "length (render (op_level op) x @ op_text op @ render (Suc (op_level op)) y @ rest) \<le> n" for k n rest
    using Binary.IH Binary.prems(1) op_level_bound [of op] that
    by (intro parse_binary) simp_all
  show ?case
  proof (cases "op_level op < k")
    case False
    with b [of k rest n] Binary.prems show ?thesis by simp
  next
    case True
    obtain n' where n: "n = Suc n'" using Binary.prems(5) True by (cases n) auto
    let ?body = "render (op_level op) x @ op_text op @ render (Suc (op_level op)) y"
    have "parse_at b n' 0 (?body @ CHR '')'' # rest) = and_then (meaning b (Binary op x y)) (\<lambda>v. continue_at b n' 0 v (CHR '')'' # rest))"
      using b [of 0 "CHR '')'' # rest" n'] ended_close loose_close Binary.prems(5) True n by simp
    then have "parse_or b (parse_unary b n') (?body @ CHR '')'' # rest) = reads (meaning b (Binary op x y)) (CHR '')'' # rest)"
      by (simp add: parse_at_def continue_close)
    then have "parse_at b n 6 (render k (Binary op x y) @ rest) = reads (meaning b (Binary op x y)) rest"
      unfolding n parse_at_def using True
      by (cases "meaning b (Binary op x y)") (simp_all add: parse_primary_def)
    then show ?thesis by (rule parse_at_unary [OF Binary.prems(2) _ Binary.prems(4)])
  qed
qed

section \<open>Properties\<close>

text \<open>C38: Parsing an expression undoes writing it: the text of a syntax tree, with parentheses only where
  precedence and left association ask for them, parses to the value computed from the tree, or
  fails with the message of the first operation that fails.\<close>

theorem expression_round_trip:
  assumes "wf_expr e"
  shows "parse_expression b (render 0 e) = meaning b e"
proof -
  have "parse_at b (length (render 0 e)) 0 (render 0 e @ []) = and_then (meaning b e) (\<lambda>v. continue_at b (length (render 0 e)) 0 v [])"
    using assms by (intro parse_rendered) (simp_all add: ended_def loose_def starts_def op_text_nonempty)
  then show ?thesis
    by (cases "meaning b e") (simp_all add: parse_expression_def parse_at_def continue_at_def)
qed

text \<open>The tree of \<open>(#1|#6)*-#2-#3<<$2\<close>, whose value is \<open>(-14 - 3) * 4\<close>.\<close>

definition sample_expression :: expr where
  "sample_expression =
     Binary ShlOp
       (Binary SubOp (Binary MulOp (Binary OrOp (Literal CHR ''#'' ''1'') (Literal CHR ''#'' ''6'')) (Unary Negation (Literal CHR ''#'' ''2'')))
                     (Literal CHR ''#'' ''3''))
       (Literal CHR ''$'' ''2'')"

theorem expression_round_trip_witness:
  "parse_expression \<lparr>lb_lookup = None, lb_here = 0\<rparr> ''(#1|#6)*-#2-#3<<$2'' = Inr (constant_value (- 68))"
proof -
  have "wf_expr sample_expression" "render 0 sample_expression = ''(#1|#6)*-#2-#3<<$2''"
    "meaning \<lparr>lb_lookup = None, lb_here = 0\<rparr> sample_expression = Inr (constant_value (- 68))"
    by code_simp+
  with expression_round_trip [of sample_expression] show ?thesis by metis
qed

end
