(* ===== verification/Statements.thy ===== *)
theory Statements
  imports Expressions Opcodes "HOL-Library.Char_ord" "HOL-Library.List_Lexorder"
begin

text \<open>
  The assembler's data (\<^verbatim>\<open>src/v2/mzasm.h\<close>) and its reading half (\<^verbatim>\<open>src/v2/mzasm_assemble.cpp\<close>, from the
  line splitter to \<^verbatim>\<open>assemble_file\<close>'s parsing): characters, fields, operands, statements and inclusion.

  The host's files are a parameter: what reading a path returns, how a path written in a directory
  is normalised, and the directory of a path.  Inclusion recurses through the files, so reading
  takes the number of nested inclusions it may follow and is \<open>None\<close> when there are more.
\<close>

section \<open>Operands and statements\<close>

datatype OperandKind = Register | Slice | Memory | Expression | StringText | SectionKind

datatype SliceWidth = Byte | Quarter | Half

record Operand =
  od_kind :: OperandKind
  od_text :: string
  od_reg :: u8
  od_slice_width :: SliceWidth
  od_slice_index :: u8
  od_has_displacement :: bool
  od_displacement_negated :: bool
  od_displacement_text :: string
  od_expression_text :: string
  od_string_value :: string
  od_section_kind :: u8

definition new_operand :: "string \<Rightarrow> Operand" where
  "new_operand field =
     \<lparr>od_kind = Expression, od_text = field, od_reg = 0, od_slice_width = Byte, od_slice_index = 0,
      od_has_displacement = False, od_displacement_negated = False, od_displacement_text = [],
      od_expression_text = [], od_string_value = [], od_section_kind = 0\<rparr>"

datatype StatementKind = Label | Instruction | Directive

record Statement =
  st_kind :: StatementKind
  st_where :: SourceLoc
  st_name :: string
  st_operands :: "Operand list"
  st_address :: u64
  st_section :: u8
  st_opcode :: u8
  st_length :: nat

definition new_statement :: "StatementKind \<Rightarrow> SourceLoc \<Rightarrow> string \<Rightarrow> Operand list \<Rightarrow> Statement" where
  "new_statement kind loc name operands =
     \<lparr>st_kind = kind, st_where = loc, st_name = name, st_operands = operands, st_address = 0, st_section = 0,
      st_opcode = 0, st_length = 0\<rparr>"

section \<open>Symbols, relocations and the assembler\<close>

record Symbol =
  sy_name :: string
  sy_value :: u64
  sy_section :: u8
  sy_defined :: bool
  sy_exported :: bool
  sy_external :: bool
  sy_is_constant :: bool
  sy_where :: SourceLoc

definition new_symbol :: Symbol where
  "new_symbol =
     \<lparr>sy_name = [], sy_value = 0, sy_section = 0, sy_defined = False, sy_exported = False, sy_external = False,
      sy_is_constant = False, sy_where = SourceLoc [] 0 None\<rparr>"

record Relocation =
  rl_section :: u8
  rl_offset :: u64
  rl_symbol :: string
  rl_type :: u8
  rl_addend :: u64

datatype PlacementMode = Undecided | Flat | Sectioned

text \<open>
  The symbol table is an ordered map; it is kept as an association list in ascending order of
  its keys, the order in which the object writer walks it.
\<close>

type_synonym symbol_table = "(string \<times> Symbol) list"

record Assembler =
  as_diags :: Diagnostics
  as_mode :: PlacementMode
  as_statements :: "Statement list"
  as_symbols :: symbol_table
  as_relocations :: "Relocation list"
  as_include_stack :: "string list"
  as_include_order :: "string list"
  as_base_path :: string
  as_flat_image :: "u8 list"
  as_flat_base :: u64
  as_flat_base_set :: bool
  as_sections :: "u8 list list"
  as_section_sizes :: "u64 list"
  as_current_section :: u8
  as_address :: u64
  as_second_pass :: bool

definition new_assembler :: Assembler where
  "new_assembler =
     \<lparr>as_diags = [], as_mode = Undecided, as_statements = [], as_symbols = [], as_relocations = [],
      as_include_stack = [], as_include_order = [], as_base_path = [], as_flat_image = [], as_flat_base = 0,
      as_flat_base_set = False, as_sections = replicate 5 [], as_section_sizes = replicate 5 0,
      as_current_section = 0, as_address = 0, as_second_pass = False\<rparr>"

definition add_error :: "SourceLoc \<Rightarrow> string \<Rightarrow> Assembler \<Rightarrow> Assembler" where
  "add_error loc message a = a\<lparr>as_diags := report loc message (as_diags a)\<rparr>"

section \<open>Lines and fields\<close>

text \<open>
  Splitting at blanks outside literals; a comment ends the line, and inside a literal a backslash
  takes the next character with it.
\<close>

definition finish_fields :: "bool \<Rightarrow> bool \<Rightarrow> string \<Rightarrow> string list \<Rightarrow> string + string list" where
  "finish_fields in_string in_char current out =
     (if in_string then Inl ''unterminated string literal''
      else if in_char then Inl ''unterminated character literal''
      else Inr (if current \<noteq> [] then out @ [current] else out))"

fun split_loop :: "bool \<Rightarrow> bool \<Rightarrow> string \<Rightarrow> string list \<Rightarrow> string \<Rightarrow> string + string list" where
  "split_loop in_string in_char current out [] = finish_fields in_string in_char current out"
| "split_loop in_string in_char current out (c # cs) =
     (if in_string \<or> in_char then
        (case cs of
           d # ds \<Rightarrow>
             if c = backslash then split_loop in_string in_char (current @ [c, d]) out ds
             else split_loop (in_string \<and> c \<noteq> double_quote) (in_char \<and> c \<noteq> quote) (current @ [c]) out cs
         | [] \<Rightarrow> split_loop (in_string \<and> c \<noteq> double_quote) (in_char \<and> c \<noteq> quote) (current @ [c]) out cs)
      else if c = CHR '';'' then finish_fields in_string in_char current out
      else if c = double_quote then split_loop True in_char (current @ [c]) out cs
      else if c = quote then split_loop in_string True (current @ [c]) out cs
      else if c = CHR '' '' \<or> c = CHR 0x09 then
        split_loop in_string in_char [] (if current \<noteq> [] then out @ [current] else out) cs
      else split_loop in_string in_char (current @ [c]) out cs)"

definition split_fields :: "string \<Rightarrow> string + string list" where
  "split_fields line = split_loop False False [] [] line"

text \<open>The index of the first byte that is not legal, if there is one.\<close>

fun legal_loop :: "bool \<Rightarrow> bool \<Rightarrow> nat \<Rightarrow> string \<Rightarrow> nat option" where
  "legal_loop in_string in_char i [] = None"
| "legal_loop in_string in_char i (c # cs) =
     (if \<not> in_string \<and> \<not> in_char then
        if c = CHR '';'' then None
        else if c = double_quote then legal_loop True in_char (Suc i) cs
        else if c = quote then legal_loop in_string True (Suc i) cs
        else if c \<noteq> CHR 0x09 \<and> (code c < 0x20 \<or> code c > 0x7E) then Some i
        else legal_loop in_string in_char (Suc i) cs
      else
        (case cs of
           d # ds \<Rightarrow>
             if c = backslash then legal_loop in_string in_char (Suc (Suc i)) ds
             else legal_loop (in_string \<and> c \<noteq> double_quote) (in_char \<and> c \<noteq> quote) (Suc i) cs
         | [] \<Rightarrow> legal_loop (in_string \<and> c \<noteq> double_quote) (in_char \<and> c \<noteq> quote) (Suc i) cs))"

definition line_characters_are_legal :: "string \<Rightarrow> nat option" where
  "line_characters_are_legal line = legal_loop False False 0 line"

definition is_directive_name :: "string \<Rightarrow> bool" where
  "is_directive_name name \<longleftrightarrow>
     name \<in> set [''section'', ''origin'', ''align'', ''data_byte'', ''data_quarter_word'', ''data_half_word'',
                ''data_word'', ''data_string'', ''data_string_zero'', ''data_fill'', ''reserve'', ''constant'',
                ''global'', ''extern'', ''include'']"

definition is_identifier :: "string \<Rightarrow> bool" where
  "is_identifier s \<longleftrightarrow>
     s \<noteq> [] \<and> (isalpha (hd s) \<or> hd s = CHR ''_'') \<and> list_all (\<lambda>c. isalnum c \<or> c = CHR ''_'') s"

abbreviation (input) SEC_NULL :: u8 where "SEC_NULL \<equiv> 0"
abbreviation (input) SEC_CODE :: u8 where "SEC_CODE \<equiv> 1"
abbreviation (input) SEC_RODATA :: u8 where "SEC_RODATA \<equiv> 2"
abbreviation (input) SEC_DATA :: u8 where "SEC_DATA \<equiv> 3"
abbreviation (input) SEC_BSS :: u8 where "SEC_BSS \<equiv> 4"

definition section_kind_from_name :: "string \<Rightarrow> u8" where
  "section_kind_from_name name =
     (if name = ''code'' then SEC_CODE else if name = ''rodata'' then SEC_RODATA
      else if name = ''data'' then SEC_DATA else if name = ''bss'' then SEC_BSS else SEC_NULL)"

section \<open>Operand parsing\<close>

function decode_string :: "string \<Rightarrow> string option" where
  "decode_string [] = Some []"
| "decode_string (c # cs) =
     (if c = backslash then
        (case decode_escape (c # cs) of
           None \<Rightarrow> None
         | Some (decoded, rest) \<Rightarrow> map_option ((#) (char_of (unat decoded))) (decode_string rest))
      else map_option ((#) c) (decode_string cs))"
  by pat_completeness auto
termination
  by (relation "measure length") (auto dest: decode_escape_shrinks)

definition parse_string_operand :: "string \<Rightarrow> string + Operand" where
  "parse_string_operand field =
     (if length field < 2 \<or> last field \<noteq> double_quote then Inl ''unterminated string literal''
      else
        case decode_string (butlast (tl field)) of
          None \<Rightarrow> Inl (''unrecognized escape in string literal '' @ quoted field)
        | Some s \<Rightarrow> Inr ((new_operand field)\<lparr>od_kind := StringText, od_string_value := s\<rparr>))"

definition parse_memory_operand :: "string \<Rightarrow> string + Operand" where
  "parse_memory_operand field =
     (let register_text = takeWhile (\<lambda>c. c \<noteq> CHR ''+'' \<and> c \<noteq> CHR ''-'') (tl field);
          split = dropWhile (\<lambda>c. c \<noteq> CHR ''+'' \<and> c \<noteq> CHR ''-'') (tl field)
      in case is_register_name register_text of
           None \<Rightarrow> Inl (quoted register_text @ '' in '' @ quoted field @
                        '' is not a register name; a memory operand names a base '' @ ''register after the @ sigil'')
         | Some number \<Rightarrow>
             let out = (new_operand field)\<lparr>od_kind := Memory, od_reg := number\<rparr>
             in (case split of
                   [] \<Rightarrow> Inr out
                 | sign # displacement \<Rightarrow>
                     if displacement = [] then Inl (quoted field @ '' has a sign with no displacement after it'')
                     else Inr (out\<lparr>od_has_displacement := True, od_displacement_negated := sign = CHR ''-'',
                                   od_displacement_text := displacement\<rparr>)))"

definition parse_slice_operand :: "string \<Rightarrow> u8 \<Rightarrow> string \<Rightarrow> string + Operand" where
  "parse_slice_operand field number suffix =
     (if length suffix \<noteq> 2 \<or> \<not> isdigit (suffix ! 1) then
        Inl (quoted field @ '' is not a slice; write a width letter b, q or h and a '' @ ''single index digit, as in r3.b5'')
      else
        let out = (new_operand field)\<lparr>od_kind := Slice, od_reg := number,
                                       od_slice_index := of_nat (code (suffix ! 1) - 48)\<rparr>
        in if suffix ! 0 = CHR ''b'' then Inr (out\<lparr>od_slice_width := Byte\<rparr>)
           else if suffix ! 0 = CHR ''q'' then Inr (out\<lparr>od_slice_width := Quarter\<rparr>)
           else if suffix ! 0 = CHR ''h'' then Inr (out\<lparr>od_slice_width := Half\<rparr>)
           else Inl (quoted field @ '' names width '' @ quoted [suffix ! 0] @ ''; a slice is written .b, .q or .h''))"

definition parse_operand :: "string \<Rightarrow> string + Operand" where
  "parse_operand field =
     (if field = [] then Inl ''an empty operand''
      else if hd field = double_quote then parse_string_operand field
      else if hd field = CHR ''@'' then parse_memory_operand field
      else
        let dot = dropWhile (\<lambda>c. c \<noteq> CHR ''.'') field;
            sliced = is_register_name (takeWhile (\<lambda>c. c \<noteq> CHR ''.'') field)
        in if dot \<noteq> [] \<and> sliced \<noteq> None then parse_slice_operand field (the sliced) (tl dot)
           else
             case is_register_name field of
               Some number \<Rightarrow> Inr ((new_operand field)\<lparr>od_kind := Register, od_reg := number\<rparr>)
             | None \<Rightarrow>
                 if field = ''code'' \<or> field = ''rodata'' \<or> field = ''data'' \<or> field = ''bss'' then
                   Inr ((new_operand field)\<lparr>od_kind := SectionKind, od_section_kind := section_kind_from_name field\<rparr>)
                 else Inr ((new_operand field)\<lparr>od_kind := Expression, od_expression_text := field\<rparr>))"

text \<open>Operands from the left; the first that fails is the line's diagnostic.\<close>

fun parse_operands :: "string list \<Rightarrow> string + Operand list" where
  "parse_operands [] = Inr []"
| "parse_operands (field # fs) =
     (case parse_operand field of
        Inl e \<Rightarrow> Inl e
      | Inr operand \<Rightarrow>
          (case parse_operands fs of Inl e \<Rightarrow> Inl e | Inr operands \<Rightarrow> Inr (operand # operands)))"

section \<open>Reading files\<close>

record Host =
  host_read :: "string \<Rightarrow> string option"
  host_canonical :: "string \<Rightarrow> string"
  host_resolve :: "string \<Rightarrow> string \<Rightarrow> string"
  host_parent :: "string \<Rightarrow> string"

definition read_source :: "Host \<Rightarrow> string \<Rightarrow> SourceLoc \<Rightarrow> Assembler \<Rightarrow> string option \<times> Assembler" where
  "read_source host path referenced_from a =
     (case host_read host path of
        None \<Rightarrow> (None, add_error referenced_from (''cannot read '' @ quoted path) a)
      | Some contents \<Rightarrow> (Some contents, a))"

text \<open>Reading lines up to line feeds; a last line without one counts, an empty rest does not.\<close>

fun lines_loop :: "string \<Rightarrow> string \<Rightarrow> string list" where
  "lines_loop current [] = (if current = [] then [] else [current])"
| "lines_loop current (c # cs) =
     (if c = CHR 0x0A then current # lines_loop [] cs else lines_loop (current @ [c]) cs)"

definition hex_byte :: "nat \<Rightarrow> string" where
  "hex_byte n =
     (let digit = \<lambda>d. ''0123456789ABCDEF'' ! d
      in if n < 16 then [digit n] else [digit (n div 16), digit (n mod 16)])"

type_synonym file_parser = "string \<Rightarrow> string \<Rightarrow> string \<Rightarrow> SourceLoc option \<Rightarrow> Assembler \<Rightarrow> Assembler option"

definition parse_label :: "string list \<Rightarrow> SourceLoc \<Rightarrow> Assembler \<Rightarrow> Assembler" where
  "parse_label fs loc a =
     (let name = butlast (hd fs)
      in if length fs > 1 then
           add_error loc (''a label definition stands alone on its line; '' @ quoted (fs ! 1) @ '' follows '' @
                          quoted (hd fs)) a
         else if \<not> is_identifier name then add_error loc (quoted name @ '' is not an identifier'') a
         else if is_reserved_word name then
           add_error loc (quoted name @ '' is a reserved word and cannot be defined as a label'') a
         else a\<lparr>as_statements := as_statements a @ [new_statement Label loc name []]\<rparr>)"

definition parse_include ::
  "Host \<Rightarrow> file_parser \<Rightarrow> Operand list \<Rightarrow> SourceLoc \<Rightarrow> string \<Rightarrow> SourceLoc option \<Rightarrow> Assembler \<Rightarrow> Assembler option" where
  "parse_include host parse_text operands loc dir inc a =
     (if length operands \<noteq> 1 \<or> od_kind (hd operands) \<noteq> StringText then
        Some (add_error loc ''include takes exactly one string literal naming a path'' a)
      else
        let key = host_resolve host dir (od_string_value (hd operands))
        in if key \<in> set (as_include_stack a) then
             Some (add_error loc (''include cycle: '' @ concat (map (\<lambda>entry. entry @ '' -> '') (as_include_order a)) @ key) a)
           else
             (case read_source host key loc a of
                (None, a) \<Rightarrow> Some a
              | (Some included_text, a) \<Rightarrow>
                  let a = a\<lparr>as_include_stack := key # as_include_stack a,
                            as_include_order := as_include_order a @ [key]\<rparr>;
                      parent = SourceLoc (sl_file loc) (sl_line loc) inc
                  in (case parse_text included_text key (host_parent host key) (Some parent) a of
                        None \<Rightarrow> None
                      | Some a \<Rightarrow>
                          Some (a\<lparr>as_include_order := butlast (as_include_order a),
                                  as_include_stack := removeAll key (as_include_stack a)\<rparr>))))"

definition parse_line ::
  "Host \<Rightarrow> file_parser \<Rightarrow> string \<Rightarrow> SourceLoc \<Rightarrow> string \<Rightarrow> SourceLoc option \<Rightarrow> Assembler \<Rightarrow> Assembler option" where
  "parse_line host parse_text line loc dir inc a =
     (case line_characters_are_legal line of
        Some offending \<Rightarrow>
          Some (add_error loc (''byte 0x'' @ hex_byte (code (line ! offending)) @
                               '' is not a printable ASCII character, a space, or a tab'') a)
      | None \<Rightarrow>
          (case split_fields line of
             Inl e \<Rightarrow> Some (add_error loc e a)
           | Inr fs \<Rightarrow>
               if fs = [] then Some a
               else if length (hd fs) \<ge> 2 \<and> last (hd fs) = CHR '':'' then Some (parse_label fs loc a)
               else
                 (case parse_operands (tl fs) of
                    Inl e \<Rightarrow> Some (add_error loc e a)
                  | Inr operands \<Rightarrow>
                      let head = hd fs;
                          kind = if is_directive_name head then Directive else Instruction
                      in if kind = Directive \<and> head = ''include'' then
                           parse_include host parse_text operands loc dir inc a
                         else Some (a\<lparr>as_statements := as_statements a @ [new_statement kind loc head operands]\<rparr>))))"

text \<open>The lines of one text, numbered from one, a carriage return before the line feed dropped.\<close>

fun parse_lines ::
  "Host \<Rightarrow> file_parser \<Rightarrow> string list \<Rightarrow> nat \<Rightarrow> string \<Rightarrow> string \<Rightarrow> SourceLoc option \<Rightarrow> Assembler \<Rightarrow> Assembler option" where
  "parse_lines host parse_text [] line_number file_name dir inc a = Some a"
| "parse_lines host parse_text (line # rest) line_number file_name dir inc a =
     (let line_number = line_number + 1;
          line = (if line \<noteq> [] \<and> last line = CHR 0x0D then butlast line else line)
      in case parse_line host parse_text line (SourceLoc file_name line_number inc) dir inc a of
           None \<Rightarrow> None
         | Some a \<Rightarrow> parse_lines host parse_text rest line_number file_name dir inc a)"

primrec parse_text :: "Host \<Rightarrow> nat \<Rightarrow> file_parser" where
  "parse_text host 0 = (\<lambda>contents file_name dir inc a. None)"
| "parse_text host (Suc depth) =
     (\<lambda>contents file_name dir inc a.
        parse_lines host (parse_text host depth) (lines_loop [] contents) 0 file_name dir inc a)"

end
