(* ===== verification/Mnemonics.thy ===== *)
theory Mnemonics
  imports Opcodes
begin

text \<open>
  The mnemonic table of the assembler, \<^verbatim>\<open>src/v2/mnemonic_v2.h\<close>: one row per assigned opcode byte,
  with the mnemonic's text and the tag that tells siblings of one mnemonic apart.  The lemmas check
  the table against the opcode page: every assigned byte has exactly one row, and a mnemonic with
  two rows is one of the three pairs the assembler knows how to select from.
\<close>

section \<open>Rows\<close>

datatype Select = Select_None | RegForm | ImmForm | RegTarget | DispTarget | Bare | Displaced

datatype MnemonicEntry = MnemonicEntry (me_opcode: u8) (me_text: string) (me_select: Select)

section \<open>The table\<close>

text \<open>In the order of the source, one definition per group of the opcode map.\<close>

definition mnemonics_moves :: "MnemonicEntry list" where
  "mnemonics_moves =
    [MnemonicEntry op_kMove ''move'' Select_None,
     MnemonicEntry op_kMoveW ''move.w'' Select_None,
     MnemonicEntry op_kMoveZb ''move.zb'' Select_None,
     MnemonicEntry op_kMoveSb ''move.sb'' Select_None,
     MnemonicEntry op_kMoveZq ''move.zq'' Select_None,
     MnemonicEntry op_kMoveSq ''move.sq'' Select_None,
     MnemonicEntry op_kMoveZh ''move.zh'' Select_None,
     MnemonicEntry op_kMoveSh ''move.sh'' Select_None,
     MnemonicEntry op_kPcAdd ''pc_add'' Select_None]"

definition mnemonics_integer :: "MnemonicEntry list" where
  "mnemonics_integer =
    [MnemonicEntry op_kAdd ''add'' RegForm,
     MnemonicEntry op_kAddH ''add.h'' RegForm,
     MnemonicEntry op_kSubtract ''subtract'' RegForm,
     MnemonicEntry op_kSubtractH ''subtract.h'' RegForm,
     MnemonicEntry op_kMultiply ''multiply'' Select_None,
     MnemonicEntry op_kMultiplyH ''multiply.h'' Select_None,
     MnemonicEntry op_kMultiplyHighSigned ''multiply_high_signed'' Select_None,
     MnemonicEntry op_kMultiplyHighUnsigned ''multiply_high_unsigned'' Select_None,
     MnemonicEntry op_kDivideSigned ''divide_signed'' Select_None,
     MnemonicEntry op_kDivideSignedH ''divide_signed.h'' Select_None,
     MnemonicEntry op_kDivideUnsigned ''divide_unsigned'' Select_None,
     MnemonicEntry op_kDivideUnsignedH ''divide_unsigned.h'' Select_None,
     MnemonicEntry op_kRemainderSigned ''remainder_signed'' Select_None,
     MnemonicEntry op_kRemainderSignedH ''remainder_signed.h'' Select_None,
     MnemonicEntry op_kRemainderUnsigned ''remainder_unsigned'' Select_None,
     MnemonicEntry op_kRemainderUnsignedH ''remainder_unsigned.h'' Select_None,
     MnemonicEntry op_kAnd ''and'' RegForm,
     MnemonicEntry op_kOr ''or'' RegForm,
     MnemonicEntry op_kXor ''xor'' RegForm,
     MnemonicEntry op_kShiftLeft ''shift_left'' RegForm,
     MnemonicEntry op_kShiftLeftH ''shift_left.h'' RegForm,
     MnemonicEntry op_kShiftRightLogical ''shift_right_logical'' RegForm,
     MnemonicEntry op_kShiftRightLogicalH ''shift_right_logical.h'' RegForm,
     MnemonicEntry op_kShiftRightArithmetic ''shift_right_arithmetic'' RegForm,
     MnemonicEntry op_kShiftRightArithmeticH ''shift_right_arithmetic.h'' RegForm,
     MnemonicEntry op_kNot ''not'' Select_None,
     MnemonicEntry op_kNotH ''not.h'' Select_None,
     MnemonicEntry op_kNegate ''negate'' Select_None,
     MnemonicEntry op_kNegateH ''negate.h'' Select_None,
     MnemonicEntry op_kByteReverse ''byte_reverse'' Select_None,
     MnemonicEntry op_kByteReverseH ''byte_reverse.h'' Select_None,
     MnemonicEntry op_kAddCarry ''add_carry'' Select_None,
     MnemonicEntry op_kSubtractBorrow ''subtract_borrow'' Select_None,
     MnemonicEntry op_kAddImm ''add'' ImmForm,
     MnemonicEntry op_kAddHImm ''add.h'' ImmForm,
     MnemonicEntry op_kSubtractImm ''subtract'' ImmForm,
     MnemonicEntry op_kSubtractHImm ''subtract.h'' ImmForm,
     MnemonicEntry op_kAndImm ''and'' ImmForm,
     MnemonicEntry op_kOrImm ''or'' ImmForm,
     MnemonicEntry op_kXorImm ''xor'' ImmForm,
     MnemonicEntry op_kShiftLeftImm ''shift_left'' ImmForm,
     MnemonicEntry op_kShiftLeftHImm ''shift_left.h'' ImmForm,
     MnemonicEntry op_kShiftRightLogicalImm ''shift_right_logical'' ImmForm,
     MnemonicEntry op_kShiftRightLogicalHImm ''shift_right_logical.h'' ImmForm,
     MnemonicEntry op_kShiftRightArithmeticImm ''shift_right_arithmetic'' ImmForm,
     MnemonicEntry op_kShiftRightArithmeticHImm ''shift_right_arithmetic.h'' ImmForm]"

definition mnemonics_control :: "MnemonicEntry list" where
  "mnemonics_control =
    [MnemonicEntry op_kCompareEq ''compare_eq'' RegForm,
     MnemonicEntry op_kCompareNe ''compare_ne'' RegForm,
     MnemonicEntry op_kCompareLtSigned ''compare_lt_signed'' RegForm,
     MnemonicEntry op_kCompareLeSigned ''compare_le_signed'' RegForm,
     MnemonicEntry op_kCompareGtSigned ''compare_gt_signed'' RegForm,
     MnemonicEntry op_kCompareGeSigned ''compare_ge_signed'' RegForm,
     MnemonicEntry op_kCompareLtUnsigned ''compare_lt_unsigned'' RegForm,
     MnemonicEntry op_kCompareLeUnsigned ''compare_le_unsigned'' RegForm,
     MnemonicEntry op_kCompareGtUnsigned ''compare_gt_unsigned'' RegForm,
     MnemonicEntry op_kCompareGeUnsigned ''compare_ge_unsigned'' RegForm,
     MnemonicEntry (op_kCompareImmBase + 0) ''compare_eq'' ImmForm,
     MnemonicEntry (op_kCompareImmBase + 1) ''compare_ne'' ImmForm,
     MnemonicEntry (op_kCompareImmBase + 2) ''compare_lt_signed'' ImmForm,
     MnemonicEntry (op_kCompareImmBase + 3) ''compare_le_signed'' ImmForm,
     MnemonicEntry (op_kCompareImmBase + 4) ''compare_gt_signed'' ImmForm,
     MnemonicEntry (op_kCompareImmBase + 5) ''compare_ge_signed'' ImmForm,
     MnemonicEntry (op_kCompareImmBase + 6) ''compare_lt_unsigned'' ImmForm,
     MnemonicEntry (op_kCompareImmBase + 7) ''compare_le_unsigned'' ImmForm,
     MnemonicEntry (op_kCompareImmBase + 8) ''compare_gt_unsigned'' ImmForm,
     MnemonicEntry (op_kCompareImmBase + 9) ''compare_ge_unsigned'' ImmForm,
     MnemonicEntry (op_kBranchBase + 0) ''branch_eq'' Select_None,
     MnemonicEntry (op_kBranchBase + 1) ''branch_ne'' Select_None,
     MnemonicEntry (op_kBranchBase + 2) ''branch_lt_signed'' Select_None,
     MnemonicEntry (op_kBranchBase + 3) ''branch_le_signed'' Select_None,
     MnemonicEntry (op_kBranchBase + 4) ''branch_gt_signed'' Select_None,
     MnemonicEntry (op_kBranchBase + 5) ''branch_ge_signed'' Select_None,
     MnemonicEntry (op_kBranchBase + 6) ''branch_lt_unsigned'' Select_None,
     MnemonicEntry (op_kBranchBase + 7) ''branch_le_unsigned'' Select_None,
     MnemonicEntry (op_kBranchBase + 8) ''branch_gt_unsigned'' Select_None,
     MnemonicEntry (op_kBranchBase + 9) ''branch_ge_unsigned'' Select_None,
     MnemonicEntry op_kJumpDisp ''jump'' DispTarget,
     MnemonicEntry op_kJumpReg ''jump'' RegTarget,
     MnemonicEntry op_kCallDisp ''call'' DispTarget,
     MnemonicEntry op_kCallReg ''call'' RegTarget,
     MnemonicEntry op_kReturn ''return'' Select_None,
     MnemonicEntry op_kSelectNz ''select_nz'' Select_None,
     MnemonicEntry op_kSelectZ ''select_z'' Select_None]"

definition mnemonics_memory :: "MnemonicEntry list" where
  "mnemonics_memory =
    [MnemonicEntry op_kLoad ''load'' Bare,
     MnemonicEntry op_kLoadZb ''load.zb'' Bare,
     MnemonicEntry op_kLoadSb ''load.sb'' Bare,
     MnemonicEntry op_kLoadZq ''load.zq'' Bare,
     MnemonicEntry op_kLoadSq ''load.sq'' Bare,
     MnemonicEntry op_kLoadZh ''load.zh'' Bare,
     MnemonicEntry op_kLoadSh ''load.sh'' Bare,
     MnemonicEntry (op_kLoadDisp + 0) ''load'' Displaced,
     MnemonicEntry (op_kLoadDisp + 1) ''load.zb'' Displaced,
     MnemonicEntry (op_kLoadDisp + 2) ''load.sb'' Displaced,
     MnemonicEntry (op_kLoadDisp + 3) ''load.zq'' Displaced,
     MnemonicEntry (op_kLoadDisp + 4) ''load.sq'' Displaced,
     MnemonicEntry (op_kLoadDisp + 5) ''load.zh'' Displaced,
     MnemonicEntry (op_kLoadDisp + 6) ''load.sh'' Displaced,
     MnemonicEntry op_kStore ''store'' Bare,
     MnemonicEntry op_kStoreB ''store.b'' Bare,
     MnemonicEntry op_kStoreQ ''store.q'' Bare,
     MnemonicEntry op_kStoreH ''store.h'' Bare,
     MnemonicEntry (op_kStoreDisp + 0) ''store'' Displaced,
     MnemonicEntry (op_kStoreDisp + 1) ''store.b'' Displaced,
     MnemonicEntry (op_kStoreDisp + 2) ''store.q'' Displaced,
     MnemonicEntry (op_kStoreDisp + 3) ''store.h'' Displaced,
     MnemonicEntry op_kExtractZb ''extract.zb'' Select_None,
     MnemonicEntry op_kExtractSb ''extract.sb'' Select_None,
     MnemonicEntry op_kExtractZq ''extract.zq'' Select_None,
     MnemonicEntry op_kExtractSq ''extract.sq'' Select_None,
     MnemonicEntry op_kExtractZh ''extract.zh'' Select_None,
     MnemonicEntry op_kExtractSh ''extract.sh'' Select_None,
     MnemonicEntry op_kInsertB ''insert.b'' Select_None,
     MnemonicEntry op_kInsertQ ''insert.q'' Select_None,
     MnemonicEntry op_kInsertH ''insert.h'' Select_None,
     MnemonicEntry op_kBitfieldExtract ''bitfield_extract'' Select_None,
     MnemonicEntry op_kBitfieldExtractSigned ''bitfield_extract_signed'' Select_None,
     MnemonicEntry op_kBitfieldInsert ''bitfield_insert'' Select_None,
     MnemonicEntry op_kBlockCopy ''block_copy'' Select_None,
     MnemonicEntry op_kBlockCopyForward ''block_copy_forward'' Select_None,
     MnemonicEntry op_kBlockSet ''block_set'' Select_None]"

definition mnemonics_system :: "MnemonicEntry list" where
  "mnemonics_system =
    [MnemonicEntry op_kCsrRead ''csr_read'' Select_None,
     MnemonicEntry op_kCsrWrite ''csr_write'' Select_None,
     MnemonicEntry op_kSysImm ''sys'' DispTarget,
     MnemonicEntry op_kSysReg ''sys'' RegTarget,
     MnemonicEntry op_kTrapReturn ''trap_return'' Select_None,
     MnemonicEntry op_kHalt ''halt'' Select_None,
     MnemonicEntry op_kWaitForInterrupt ''wait_for_interrupt'' Select_None,
     MnemonicEntry op_kNop ''nop'' Select_None,
     MnemonicEntry op_kTlbInvalidateAll ''tlb_invalidate_all'' Select_None,
     MnemonicEntry op_kTlbInvalidateAddress ''tlb_invalidate_address'' Select_None,
     MnemonicEntry op_kPortIn ''port_in'' Select_None,
     MnemonicEntry op_kPortOut ''port_out'' Select_None,
     MnemonicEntry op_kCsrSwap ''csr_swap'' Select_None]"

definition mnemonics_float :: "MnemonicEntry list" where
  "mnemonics_float =
    [MnemonicEntry 0xC8 ''float_add'' Select_None,
     MnemonicEntry 0xC9 ''float_add.h'' Select_None,
     MnemonicEntry 0xCA ''float_subtract'' Select_None,
     MnemonicEntry 0xCB ''float_subtract.h'' Select_None,
     MnemonicEntry 0xCC ''float_multiply'' Select_None,
     MnemonicEntry 0xCD ''float_multiply.h'' Select_None,
     MnemonicEntry 0xCE ''float_divide'' Select_None,
     MnemonicEntry 0xCF ''float_divide.h'' Select_None,
     MnemonicEntry 0xD0 ''float_square_root'' Select_None,
     MnemonicEntry 0xD1 ''float_square_root.h'' Select_None,
     MnemonicEntry 0xD2 ''float_negate'' Select_None,
     MnemonicEntry 0xD3 ''float_negate.h'' Select_None,
     MnemonicEntry 0xD4 ''float_absolute'' Select_None,
     MnemonicEntry 0xD5 ''float_absolute.h'' Select_None,
     MnemonicEntry 0xD6 ''float_multiply_add'' Select_None,
     MnemonicEntry 0xD7 ''float_multiply_add.h'' Select_None,
     MnemonicEntry 0xD8 ''float_multiply_subtract'' Select_None,
     MnemonicEntry 0xD9 ''float_multiply_subtract.h'' Select_None,
     MnemonicEntry 0xDA ''float_minimum'' Select_None,
     MnemonicEntry 0xDB ''float_minimum.h'' Select_None,
     MnemonicEntry 0xDC ''float_maximum'' Select_None,
     MnemonicEntry 0xDD ''float_maximum.h'' Select_None,
     MnemonicEntry 0xDE ''float_compare_eq'' Select_None,
     MnemonicEntry 0xDF ''float_compare_eq.h'' Select_None,
     MnemonicEntry 0xE0 ''float_compare_ne'' Select_None,
     MnemonicEntry 0xE1 ''float_compare_ne.h'' Select_None,
     MnemonicEntry 0xE2 ''float_compare_lt'' Select_None,
     MnemonicEntry 0xE3 ''float_compare_lt.h'' Select_None,
     MnemonicEntry 0xE4 ''float_compare_le'' Select_None,
     MnemonicEntry 0xE5 ''float_compare_le.h'' Select_None,
     MnemonicEntry 0xE6 ''float_compare_ordered'' Select_None,
     MnemonicEntry 0xE7 ''float_compare_ordered.h'' Select_None,
     MnemonicEntry 0xE8 ''float_compare_unordered'' Select_None,
     MnemonicEntry 0xE9 ''float_compare_unordered.h'' Select_None,
     MnemonicEntry 0xEA ''float_narrow'' Select_None,
     MnemonicEntry 0xEB ''float_widen'' Select_None,
     MnemonicEntry 0xEC ''float_to_signed'' Select_None,
     MnemonicEntry 0xED ''float_to_signed.h'' Select_None,
     MnemonicEntry 0xEE ''float_to_unsigned'' Select_None,
     MnemonicEntry 0xEF ''float_to_unsigned.h'' Select_None,
     MnemonicEntry 0xF0 ''signed_to_float'' Select_None,
     MnemonicEntry 0xF1 ''signed_to_float.h'' Select_None,
     MnemonicEntry 0xF2 ''unsigned_to_float'' Select_None,
     MnemonicEntry 0xF3 ''unsigned_to_float.h'' Select_None,
     MnemonicEntry op_kBreakpoint ''breakpoint'' Select_None]"

definition kMnemonics :: "MnemonicEntry list" where
  "kMnemonics = mnemonics_moves @
     mnemonics_integer @
     mnemonics_control @
     mnemonics_memory @
     mnemonics_system @
     mnemonics_float"

section \<open>The table and the opcode page\<close>

text \<open>The rows list the assigned bytes of the page in ascending order.\<close>

lemma mnemonic_opcodes:
  "map (\<lambda>e. uint (me_opcode e)) kMnemonics =
   map fst (filter (\<lambda>(n, i). oi_kind i = Assigned) (zip [0..255] kOpcodeTable))"
  by code_simp

lemma mnemonic_opcodes_distinct: "distinct (map me_opcode kMnemonics)"
proof -
  have "distinct (map uint (map me_opcode kMnemonics))"
    unfolding map_map comp_def mnemonic_opcodes
    by (rule distinct_map_filter) (simp only: map_fst_zip_take distinct_take distinct_upto)
  then show ?thesis by (simp only: distinct_map)
qed

section \<open>Texts and selection tags\<close>

text \<open>
  No two first rows of a mnemonic share a text: their images under a small polynomial hash are
  distinct, which is cheaper to evaluate than all the comparisons of texts.
\<close>

primrec text_hash :: "int \<Rightarrow> string \<Rightarrow> int" where
  "text_hash h [] = h"
| "text_hash h (c # cs) = text_hash ((h * 31 + of_char c) mod 1529) cs"

abbreviation first_select :: "Select \<Rightarrow> bool" where
  "first_select s \<equiv> s \<in> set [Select_None, RegForm, Bare, DispTarget]"

abbreviation rows_of :: "Select \<Rightarrow> MnemonicEntry list" where
  "rows_of s \<equiv> filter (\<lambda>e. me_select e = s) kMnemonics"

lemma first_texts_distinct: "distinct (map me_text (filter (\<lambda>e. first_select (me_select e)) kMnemonics))"
proof -
  have "distinct (map (\<lambda>e. text_hash 0 (me_text e)) (filter (\<lambda>e. first_select (me_select e)) kMnemonics))"
    by code_simp
  then have "distinct (map (text_hash 0) (map me_text (filter (\<lambda>e. first_select (me_select e)) kMnemonics)))"
    by (simp add: comp_def)
  then show ?thesis by (simp only: distinct_map)
qed

lemma sibling_texts:
  "map me_text (rows_of ImmForm) = map me_text (rows_of RegForm)"
  "map me_text (rows_of Displaced) = map me_text (rows_of Bare)"
  "map me_text (rows_of RegTarget) = map me_text (rows_of DispTarget)"
  by code_simp+

text \<open>The tag of the first row of the pair that a tag belongs to.\<close>

primrec first_of :: "Select \<Rightarrow> Select" where
  "first_of Select_None = Select_None"
| "first_of RegForm = RegForm"
| "first_of ImmForm = RegForm"
| "first_of RegTarget = DispTarget"
| "first_of DispTarget = DispTarget"
| "first_of Bare = Bare"
| "first_of Displaced = Bare"

lemma rows_texts_first: "map me_text (rows_of s) = map me_text (rows_of (first_of s))"
  by (cases s) (simp_all add: sibling_texts)

lemma rows_texts_distinct: "distinct (map me_text (rows_of s))"
proof -
  have "first_select (first_of s)" by (cases s) simp_all
  then have "filter (\<lambda>e. me_select e = first_of s) (filter (\<lambda>e. first_select (me_select e)) kMnemonics) =
      rows_of (first_of s)"
    by (auto simp: filter_filter intro: filter_cong)
  moreover have "distinct (map me_text (filter (\<lambda>e. me_select e = first_of s)
      (filter (\<lambda>e. first_select (me_select e)) kMnemonics)))"
    by (rule distinct_map_filter [OF first_texts_distinct])
  ultimately show ?thesis using rows_texts_first [of s] by simp
qed

lemma same_text_same_select:
  assumes "e \<in> set kMnemonics" "f \<in> set kMnemonics" "me_text e = me_text f" "me_select e = me_select f"
  shows "e = f"
  using rows_texts_distinct [of "me_select e"] assms by (auto simp: distinct_map inj_on_def)

lemma sibling_row_exists:
  assumes "e \<in> set kMnemonics" and "first_of s = first_of (me_select e)"
  obtains e' where "e' \<in> set kMnemonics" "me_text e' = me_text e" "me_select e' = s"
proof -
  have "me_text e \<in> set (map me_text (rows_of (me_select e)))" using assms(1) by auto
  then have "me_text e \<in> set (map me_text (rows_of s))"
    by (simp only: rows_texts_first [of "me_select e"] rows_texts_first [of s] assms(2))
  with that show thesis by auto
qed

lemma first_row_exists:
  assumes "e \<in> set kMnemonics"
  obtains e' where "e' \<in> set kMnemonics" "me_text e' = me_text e" "me_select e' = first_of (me_select e)"
  by (rule sibling_row_exists [OF assms, of "first_of (me_select e)"]) (cases "me_select e"; simp)

text \<open>Two rows with the same text carry the tags of one pair.\<close>

lemma same_text_same_pair:
  assumes "e \<in> set kMnemonics" "f \<in> set kMnemonics" "me_text e = me_text f"
  shows "first_of (me_select e) = first_of (me_select f)"
proof -
  obtain e' where e': "e' \<in> set kMnemonics" "me_text e' = me_text e" "me_select e' = first_of (me_select e)"
    using first_row_exists [OF assms(1)] .
  obtain f' where f': "f' \<in> set kMnemonics" "me_text f' = me_text f" "me_select f' = first_of (me_select f)"
    using first_row_exists [OF assms(2)] .
  have "first_select (first_of s)" for s by (cases s) simp_all
  then have "e' \<in> set (filter (\<lambda>e. first_select (me_select e)) kMnemonics)"
    "f' \<in> set (filter (\<lambda>e. first_select (me_select e)) kMnemonics)"
    using e' f' by simp_all
  then have "e' = f'" using first_texts_distinct assms(3) e'(2) f'(2) by (auto simp: distinct_map inj_on_def)
  with e'(3) f'(3) show ?thesis by simp
qed

end
