(* ===== verification/Assembly.thy ===== *)
theory Assembly
  imports Statements Mnemonics
begin

text \<open>
  The two passes of the assembler, \<^verbatim>\<open>src/v2/mzasm_assemble.cpp\<close> from the operand patterns and the mnemonic
  selection to the encoder and the directives, and its entry points.

  The assembler object is passed along and returned; a step that returns early after a diagnostic
  returns \<open>None\<close> beside the object that holds the diagnostic.  Addresses are 64-bit words.  The two
  signed 64-bit computations of the encoder that can overflow (the negation of a displacement and
  the distance to a target) are undefined there in the source; the model wraps the first and takes
  the exact difference for the second, which then fails the range test.
\<close>

section \<open>Operand patterns\<close>

datatype Syn = Reg | MemBare | MemDisp | Imm | Target | ImmAbs

text \<open>The opcodes whose operands are not all registers.\<close>

definition listed_pattern :: "u8 \<Rightarrow> Syn list option" where
  "listed_pattern opcode =
     (if opcode = op_kMove then Some [Reg, Reg]
      else if opcode = op_kMoveW then Some [ImmAbs, Reg]
      else if opcode = op_kPcAdd then Some [Target, Reg]
      else if opcode = op_kJumpDisp \<or> opcode = op_kCallDisp then Some [Target]
      else if opcode = op_kJumpReg \<or> opcode = op_kCallReg \<or> opcode = op_kSysReg \<or> opcode = op_kTlbInvalidateAddress
        then Some [Reg]
      else if opcode = op_kSysImm then Some [Imm]
      else if opcode = op_kCsrRead then Some [Imm, Reg]
      else if opcode = op_kCsrWrite then Some [Reg, Imm]
      else if opcode = op_kCsrSwap then Some [Reg, Imm, Reg]
      else if opcode = op_kBlockCopy \<or> opcode = op_kBlockCopyForward then Some [MemBare, MemBare, Reg]
      else if opcode = op_kBlockSet then Some [Reg, MemBare, Reg]
      else if op_kMoveZb \<le> opcode \<and> opcode \<le> op_kMoveSh then Some [Imm, Reg]
      else if op_kAddImm \<le> opcode \<and> opcode \<le> op_kShiftRightArithmeticHImm \<or>
              op_kCompareImmBase \<le> opcode \<and> opcode \<le> op_kCompareImmBase + 9 then Some [Reg, Imm, Reg]
      else if op_kBranchBase \<le> opcode \<and> opcode \<le> op_kBranchBase + 9 then Some [Reg, Reg, Target]
      else if op_kLoad \<le> opcode \<and> opcode \<le> op_kLoadSh then Some [MemBare, Reg]
      else if op_kLoadDisp \<le> opcode \<and> opcode \<le> op_kLoadDisp + 6 then Some [MemDisp, Reg]
      else if op_kStore \<le> opcode \<and> opcode \<le> op_kStoreH then Some [Reg, MemBare]
      else if op_kStoreDisp \<le> opcode \<and> opcode \<le> op_kStoreDisp + 3 then Some [Reg, MemDisp]
      else if op_kBitfieldExtract \<le> opcode \<and> opcode \<le> op_kBitfieldInsert then Some [Reg, Imm, Imm, Reg]
      else None)"

definition pattern_for :: "u8 \<Rightarrow> Syn list" where
  "pattern_for opcode =
     (case listed_pattern opcode of
        Some pattern \<Rightarrow> pattern
      | None \<Rightarrow> replicate (si_operands (shape_info (oi_shape (opcode_info opcode)))) Reg)"

definition target_is_literal_displacement :: "string \<Rightarrow> bool" where
  "target_is_literal_displacement s \<longleftrightarrow>
     s \<noteq> [] \<and> (hd s = CHR ''#'' \<or> hd s = CHR ''$'' \<or> hd s = CHR ''%'')"

section \<open>Mnemonic selection\<close>

definition mnemonic_index :: "string \<Rightarrow> MnemonicEntry list" where
  "mnemonic_index name = filter (\<lambda>e. me_text e = name) kMnemonics"

text \<open>Which sibling the operand syntax asks for, when a mnemonic has more than one row.\<close>

definition select_sibling :: "Statement \<Rightarrow> MnemonicEntry list \<Rightarrow> string + Select" where
  "select_sibling st candidates =
     (let operands = st_operands st;
          has = (\<lambda>s. list_ex (\<lambda>e. me_select e = s) candidates)
      in if has Bare \<and> has Displaced then
           (case find (\<lambda>o'. od_kind o' = Memory) operands of
              None \<Rightarrow> Inl (quoted (st_name st) @ '' takes a memory operand written @rb or @rb+$disp'')
            | Some memory \<Rightarrow> Inr (if od_has_displacement memory then Displaced else Bare))
         else if has RegForm \<and> has ImmForm then
           if length operands < 2 then Inl (quoted (st_name st) @ '' takes three operands'')
           else Inr (if od_kind (operands ! 1) = Expression then ImmForm else RegForm)
         else if has RegTarget \<and> has DispTarget then
           if length operands \<noteq> 1 then Inl (quoted (st_name st) @ '' takes one operand'')
           else Inr (if od_kind (operands ! 0) = Register then RegTarget else DispTarget)
         else Inl (''internal: '' @ quoted (st_name st) @ '' has siblings with no selection rule''))"

definition resolve_opcode :: "Statement \<Rightarrow> string + u8" where
  "resolve_opcode st =
     (let candidates = mnemonic_index (st_name st)
      in if candidates = [] then Inl (quoted (st_name st) @ '' is not a mnemonic or a directive'')
         else if length candidates = 1 then
           if st_name st = ''move'' \<and> st_operands st \<noteq> [] \<and> od_kind (hd (st_operands st)) = Expression then
             Inl (''an immediate move names its width: write move.zb, move.sb, move.zq, '' @
                  ''move.sq, move.zh, move.sh or move.w rather than a bare move'')
           else Inr (me_opcode (hd candidates))
         else
           (case select_sibling st candidates of
              Inl e \<Rightarrow> Inl e
            | Inr wanted \<Rightarrow>
                (case find (\<lambda>e. me_select e = wanted) candidates of
                   Some entry \<Rightarrow> Inr (me_opcode entry)
                 | None \<Rightarrow> Inl (''no encoding of '' @ quoted (st_name st) @ '' takes these operands''))))"

section \<open>Symbols and evaluation\<close>

fun put_symbol :: "string \<Rightarrow> Symbol \<Rightarrow> symbol_table \<Rightarrow> symbol_table" where
  "put_symbol k v [] = [(k, v)]"
| "put_symbol k v ((k', v') # rest) =
     (if k < k' then (k, v) # (k', v') # rest
      else if k = k' then (k, v) # rest
      else (k', v') # put_symbol k v rest)"

text \<open>A reference to an entry of the table, which a missing entry's default value starts.\<close>

definition symbol_at :: "Assembler \<Rightarrow> string \<Rightarrow> Symbol" where
  "symbol_at a name = (case map_of (as_symbols a) name of Some s \<Rightarrow> s | None \<Rightarrow> new_symbol)"

definition set_symbol :: "string \<Rightarrow> Symbol \<Rightarrow> Assembler \<Rightarrow> Assembler" where
  "set_symbol name s a = a\<lparr>as_symbols := put_symbol name s (as_symbols a)\<rparr>"

definition lookup_in_assembler :: "Assembler \<Rightarrow> string \<Rightarrow> SymbolQuery" where
  "lookup_in_assembler a name =
     (case map_of (as_symbols a) name of
        None \<Rightarrow> unknown_symbol
      | Some s \<Rightarrow> \<lparr>sq_known = True, sq_defined = sy_defined s, sq_is_constant = sy_is_constant s,
                  sq_value = sy_value s, sq_section = sy_section s\<rparr>)"

definition evaluate :: "string \<Rightarrow> SourceLoc \<Rightarrow> Assembler \<Rightarrow> ExprValue option \<times> Assembler" where
  "evaluate s loc a =
     (case parse_expression \<lparr>lb_lookup = Some (lookup_in_assembler a), lb_here = as_address a\<rparr> s of
        Inl e \<Rightarrow> (None, add_error loc e a)
      | Inr v \<Rightarrow> (Some v, a))"

section \<open>Emission\<close>

definition place_byte :: "u8 list \<Rightarrow> u64 \<Rightarrow> u8 \<Rightarrow> u8 list" where
  "place_byte target index v =
     (let target = (if length target < unat index then target @ replicate (unat index - length target) 0 else target)
      in if length target = unat index then target @ [v] else target[unat index := v])"

definition emit_byte :: "u8 \<Rightarrow> Assembler \<Rightarrow> Assembler" where
  "emit_byte v a =
     (let a = (if as_second_pass a then
                 if as_mode a = Sectioned then
                   let s = unat (as_current_section a)
                   in a\<lparr>as_sections := (as_sections a)[s := place_byte (as_sections a ! s) (as_address a) v]\<rparr>
                 else a\<lparr>as_flat_image := place_byte (as_flat_image a) (as_address a - as_flat_base a) v\<rparr>
               else a)
      in a\<lparr>as_address := as_address a + 1\<rparr>)"

definition emit_bytes :: "u8 list \<Rightarrow> Assembler \<Rightarrow> Assembler" where
  "emit_bytes data a = fold emit_byte data a"

definition emit_immediate :: "u64 \<Rightarrow> nat \<Rightarrow> Assembler \<Rightarrow> Assembler" where
  "emit_immediate v n a = fold (\<lambda>i. emit_byte (ucast (drop_bit (8 * i) v AND 0xFF))) [0..<n] a"

definition reserve_space :: "u64 \<Rightarrow> Assembler \<Rightarrow> Assembler" where
  "reserve_space count a = a\<lparr>as_address := as_address a + count\<rparr>"

definition add_relocation :: "u64 \<Rightarrow> string \<Rightarrow> u8 \<Rightarrow> u64 \<Rightarrow> SourceLoc \<Rightarrow> Assembler \<Rightarrow> Assembler" where
  "add_relocation offset symbol type addend loc a =
     (if as_mode a \<noteq> Sectioned then
        add_error loc (quoted symbol @ '' needs a relocation, which only a section-mode module can '' @
                       ''carry; a flat image is loaded exactly as it is assembled'') a
      else
        a\<lparr>as_relocations := as_relocations a @
             [\<lparr>rl_section = as_current_section a, rl_offset = offset, rl_symbol = symbol, rl_type = type,
               rl_addend = addend\<rparr>]\<rparr>)"

abbreviation (input) R_MAIZE_ABS32 :: u8 where "R_MAIZE_ABS32 \<equiv> 3"
abbreviation (input) R_MAIZE_ABS64 :: u8 where "R_MAIZE_ABS64 \<equiv> 4"
abbreviation (input) R_MAIZE_REL32 :: u8 where "R_MAIZE_REL32 \<equiv> 5"

section \<open>Instruction encoding\<close>

text \<open>
  What the encoder has gathered: the operand bytes and the immediates with their widths.  A
  failing operand leaves its diagnostic and no gathered value.
\<close>

type_synonym gathered = "u8 list \<times> (u64 \<times> nat) list"

definition fail_with :: "SourceLoc \<Rightarrow> string \<Rightarrow> Assembler \<Rightarrow> 'a option \<times> Assembler" where
  "fail_with loc message a = (None, add_error loc message a)"

definition encode_register :: "Slot \<Rightarrow> Operand \<Rightarrow> string + u8" where
  "encode_register slot operand =
     (if slot = Plain then
        if od_kind operand \<noteq> Register then
          if od_kind operand = Slice then
            Inl (quoted (od_text operand) @ '' is a slice, and this operand slot names a whole '' @ ''register'')
          else Inl (quoted (od_text operand) @ '' is not a register'')
        else Inr (od_reg operand)
      else if od_kind operand \<noteq> Slice then
        Inl (quoted (od_text operand) @ '' names a whole register, and this operand slot is sliced; '' @
             ''write the element, as in r3.b5'')
      else
        let (expected, limit, wanted) =
              (case slot of
                 ByteSliced \<Rightarrow> (''b'', 7, Byte)
               | QuarterSliced \<Rightarrow> (''q'', 3, Quarter)
               | HalfSliced \<Rightarrow> (''h'', 1, Half)
               | _ \<Rightarrow> ([], 0 :: nat, Byte))
        in if od_slice_width operand \<noteq> wanted then
             Inl (quoted (od_text operand) @ '' is sliced at the wrong '' @ ''width; this slot takes .'' @ expected)
           else if unat (od_slice_index operand) > limit then
             Inl (quoted (od_text operand) @ '' names element '' @ to_string (unat (od_slice_index operand)) @
                  '', and this slot admits 0 through '' @ to_string limit)
           else Inr (od_reg operand OR push_bit 5 (od_slice_index operand)))"

definition immediate_width :: "ShapeInfo \<Rightarrow> nat \<Rightarrow> nat" where
  "immediate_width shape which = (if which < si_immediates shape then si_immediate_bytes shape ! which else 0)"

definition next_immediate_offset :: "Statement \<Rightarrow> ShapeInfo \<Rightarrow> (u64 \<times> nat) list \<Rightarrow> u64" where
  "next_immediate_offset st shape immediates =
     st_address st + 1 + of_nat (si_operands shape) + of_nat (sum_list (map snd immediates))"

definition encode_memory ::
  "Statement \<Rightarrow> ShapeInfo \<Rightarrow> bool \<Rightarrow> Operand \<Rightarrow> gathered \<Rightarrow> Assembler \<Rightarrow> gathered option \<times> Assembler" where
  "encode_memory st shape displaced operand g a =
     (let (operand_bytes, immediates) = g; loc = st_where st
      in if od_kind operand \<noteq> Memory then
           fail_with loc (quoted (od_text operand) @ '' is not a memory operand; write @rb or @rb+$disp'') a
         else if \<not> displaced \<and> od_has_displacement operand then
           fail_with loc (quoted (od_text operand) @ '' carries a displacement this form has no '' @ ''field for'') a
         else if \<not> displaced then (Some (operand_bytes @ [od_reg operand], immediates), a)
         else
           let bytes = immediate_width shape (length immediates)
           in (case evaluate (od_displacement_text operand) loc a of
                 (None, a) \<Rightarrow> (None, a)
               | (Some v, a) \<Rightarrow>
                   if is_relocatable v then fail_with loc ''a memory displacement takes a constant expression'' a
                   else
                     let displacement = (if od_displacement_negated operand then - ev_constant v else ev_constant v)
                     in if \<not> fits displacement (bytes * 8) then
                          fail_with loc (''the displacement in '' @ quoted (od_text operand) @ '' does not fit the '' @
                                         to_string (bytes * 8) @ ''-bit field, and the assembler never truncates one'') a
                        else (Some (operand_bytes @ [od_reg operand], immediates @ [(displacement, bytes)]), a)))"

definition encode_immediate ::
  "Statement \<Rightarrow> ShapeInfo \<Rightarrow> Operand \<Rightarrow> gathered \<Rightarrow> Assembler \<Rightarrow> gathered option \<times> Assembler" where
  "encode_immediate st shape operand g a =
     (let (operand_bytes, immediates) = g; loc = st_where st;
          bytes = immediate_width shape (length immediates)
      in if od_kind operand \<noteq> Expression then
           fail_with loc (quoted (od_text operand) @ '' is not an expression; this operand is an immediate'') a
         else
           (case evaluate (od_expression_text operand) loc a of
              (None, a) \<Rightarrow> (None, a)
            | (Some v, a) \<Rightarrow>
                if is_relocatable v then
                  fail_with loc (quoted (od_text operand) @ '' is relocatable, and only move.w'' @ [quote] @ ''s immediate and a target '' @
                                 ''slot accept one'') a
                else if \<not> fits (ev_constant v) (bytes * 8) then
                  fail_with loc (quoted (od_text operand) @ '' does not fit the '' @ to_string (bytes * 8) @
                                 ''-bit field, and the assembler never truncates a literal to '' @ ''make it fit'') a
                else (Some (operand_bytes, immediates @ [(ev_constant v, bytes)]), a)))"

definition encode_absolute ::
  "Statement \<Rightarrow> ShapeInfo \<Rightarrow> Operand \<Rightarrow> gathered \<Rightarrow> Assembler \<Rightarrow> gathered option \<times> Assembler" where
  "encode_absolute st shape operand g a =
     (let (operand_bytes, immediates) = g; loc = st_where st;
          bytes = immediate_width shape (length immediates)
      in if od_kind operand \<noteq> Expression then
           fail_with loc (quoted (od_text operand) @ '' is not an expression; move.w takes a '' @ ''64-bit immediate'') a
         else
           (case evaluate (od_expression_text operand) loc a of
              (None, a) \<Rightarrow> (None, a)
            | (Some v, a) \<Rightarrow>
                if is_relocatable v then
                  (Some (operand_bytes, immediates @ [(0, bytes)]),
                   add_relocation (next_immediate_offset st shape immediates) (ev_symbol v) R_MAIZE_ABS64
                     (ev_constant v) loc a)
                else (Some (operand_bytes, immediates @ [(ev_constant v, bytes)]), a)))"

text \<open>The address a target names, once its symbol is known to be settled in this section.\<close>

definition target_address :: "Assembler \<Rightarrow> ExprValue \<Rightarrow> u64 option" where
  "target_address a v =
     (if is_relocatable v then
        (case map_of (as_symbols a) (ev_symbol v) of
           Some s \<Rightarrow>
             if sy_defined s \<and> sy_section s = as_current_section a then Some (ev_constant v + sy_value s) else None
         | None \<Rightarrow> None)
      else Some (ev_constant v))"

definition encode_target ::
  "Statement \<Rightarrow> ShapeInfo \<Rightarrow> Operand \<Rightarrow> gathered \<Rightarrow> Assembler \<Rightarrow> gathered option \<times> Assembler" where
  "encode_target st shape operand g a =
     (let (operand_bytes, immediates) = g; loc = st_where st;
          bytes = immediate_width shape (length immediates)
      in if od_kind operand \<noteq> Expression then fail_with loc (quoted (od_text operand) @ '' is not a target'') a
         else
           (case evaluate (od_expression_text operand) loc a of
              (None, a) \<Rightarrow> (None, a)
            | (Some v, a) \<Rightarrow>
                if target_is_literal_displacement (od_expression_text operand) then
                  if \<not> fits (ev_constant v) (bytes * 8) then
                    fail_with loc (quoted (od_text operand) @ '' does not fit the '' @ to_string (bytes * 8) @
                                   ''-bit displacement field'') a
                  else (Some (operand_bytes, immediates @ [(ev_constant v, bytes)]), a)
                else
                  (case target_address a v of
                     None \<Rightarrow>
                       (Some (operand_bytes, immediates @ [(0, bytes)]),
                        add_relocation (next_immediate_offset st shape immediates) (ev_symbol v) R_MAIZE_REL32
                          (ev_constant v) loc a)
                   | Some target \<Rightarrow>
                       let displacement = sint target - sint (st_address st + of_nat (st_length st))
                       in if displacement < - 2147483648 \<or> displacement > 2147483647 then
                            fail_with loc (''the displacement to '' @ quoted (od_text operand) @
                                           '' does not fit a signed 32-bit field, and the assembler '' @
                                           ''does not rewrite one instruction into several'') a
                          else (Some (operand_bytes, immediates @ [(of_int displacement, bytes)]), a))))"

definition encode_operand ::
  "Statement \<Rightarrow> Syn \<Rightarrow> Operand \<Rightarrow> gathered \<Rightarrow> Assembler \<Rightarrow> gathered option \<times> Assembler" where
  "encode_operand st syn operand g a =
     (let info = opcode_info (st_opcode st);
          shape = shape_info (oi_shape info)
      in case syn of
           Reg \<Rightarrow>
             (case encode_register (oi_slots info ! length (fst g)) operand of
                Inl e \<Rightarrow> fail_with (st_where st) e a
              | Inr b \<Rightarrow> (Some (fst g @ [b], snd g), a))
         | MemBare \<Rightarrow> encode_memory st shape False operand g a
         | MemDisp \<Rightarrow> encode_memory st shape True operand g a
         | Imm \<Rightarrow> encode_immediate st shape operand g a
         | ImmAbs \<Rightarrow> encode_absolute st shape operand g a
         | Target \<Rightarrow> encode_target st shape operand g a)"

fun encode_operands ::
  "Statement \<Rightarrow> (Syn \<times> Operand) list \<Rightarrow> gathered \<Rightarrow> Assembler \<Rightarrow> gathered option \<times> Assembler" where
  "encode_operands st [] g a = (Some g, a)"
| "encode_operands st ((syn, operand) # rest) g a =
     (case encode_operand st syn operand g a of
        (None, a) \<Rightarrow> (None, a)
      | (Some g, a) \<Rightarrow> encode_operands st rest g a)"

definition encode_instruction :: "Statement \<Rightarrow> Assembler \<Rightarrow> Assembler" where
  "encode_instruction st a =
     (let shape = shape_info (oi_shape (opcode_info (st_opcode st)));
          pattern = pattern_for (st_opcode st)
      in if length (st_operands st) \<noteq> length pattern then
           add_error (st_where st)
             (quoted (st_name st) @ '' takes '' @ to_string (length pattern) @ '' operand'' @
              (if length pattern = 1 then [] else ''s'') @ '', not '' @ to_string (length (st_operands st))) a
         else
           (case encode_operands st (zip pattern (st_operands st)) ([], []) a of
              (None, a) \<Rightarrow> a
            | (Some (operand_bytes, immediates), a) \<Rightarrow>
                if length operand_bytes \<noteq> si_operands shape \<or> length immediates \<noteq> si_immediates shape then
                  add_error (st_where st)
                    (''internal: the assembly form of '' @ quoted (st_name st) @
                     '' does not match the shape its opcode declares'') a
                else
                  fold (\<lambda>(v, n). emit_immediate v n) immediates
                    (fold emit_byte operand_bytes (emit_byte (st_opcode st) a))))"

section \<open>Directives\<close>

definition data_directive_width :: "string \<Rightarrow> nat" where
  "data_directive_width name =
     (if name = ''data_byte'' then 1 else if name = ''data_quarter_word'' then 2
      else if name = ''data_half_word'' then 4 else if name = ''data_word'' then 8 else 0)"

text \<open>A constant expression as the first operand, for the three counted directives.\<close>

definition counted_size :: "Statement \<Rightarrow> Assembler \<Rightarrow> u64 option \<times> Assembler" where
  "counted_size st a =
     (let name = st_name st; loc = st_where st; operands = st_operands st
      in if operands = [] \<or> od_kind (hd operands) \<noteq> Expression then
           fail_with loc (name @ '' takes a constant expression'') a
         else
           (case evaluate (od_expression_text (hd operands)) loc a of
              (None, a) \<Rightarrow> (None, a)
            | (Some count, a) \<Rightarrow>
                if is_relocatable count then fail_with loc (name @ '' takes a constant expression'') a
                else if name = ''align'' then
                  if length operands \<noteq> 1 then fail_with loc ''align takes one constant expression'' a
                  else
                    let alignment = ev_constant count
                    in if alignment = 0 \<or> alignment AND (alignment - 1) \<noteq> 0 then
                         fail_with loc ''an alignment is a power of two and is never zero'' a
                       else
                         let remainder = as_address a mod alignment
                         in (Some (if remainder = 0 then 0 else alignment - remainder), a)
                else if name = ''reserve'' then
                  if length operands \<noteq> 1 then fail_with loc ''reserve takes one constant expression'' a
                  else if as_mode a = Sectioned \<and> as_current_section a \<noteq> SEC_BSS then
                    fail_with loc (''reserve names storage in a bss section; a section that carries '' @
                                   ''bytes cannot use it'') a
                  else (Some (ev_constant count), a)
                else if length operands \<noteq> 2 then fail_with loc ''data_fill takes a count and a value'' a
                else (Some (ev_constant count), a)))"

definition directive_size :: "Statement \<Rightarrow> Assembler \<Rightarrow> u64 option \<times> Assembler" where
  "directive_size st a =
     (let name = st_name st; loc = st_where st; operands = st_operands st;
          in_bss = (as_mode a = Sectioned \<and> as_current_section a = SEC_BSS);
          width = data_directive_width name
      in if in_bss \<and> name \<notin> set [''reserve'', ''align'', ''constant'', ''global'', ''extern''] then
           fail_with loc (''the bss section holds no emitted bytes, so reserve and align are the only '' @
                          ''directives legal inside it'') a
         else if width \<noteq> 0 then
           if operands = [] then fail_with loc (name @ '' takes one or more expressions'') a
           else (Some (of_nat (length operands * width)), a)
         else if name = ''data_string'' \<or> name = ''data_string_zero'' then
           if length operands \<noteq> 1 \<or> od_kind (hd operands) \<noteq> StringText then
             fail_with loc (name @ '' takes exactly one string literal'') a
           else
             (Some (of_nat (length (od_string_value (hd operands)) + (if name = ''data_string_zero'' then 1 else 0))), a)
         else if name = ''data_fill'' \<or> name = ''reserve'' \<or> name = ''align'' then counted_size st a
         else fail_with loc (quoted name @ '' is not a directive'') a)"

text \<open>The operands of a data directive from the left, stopping at the first diagnostic.\<close>

fun emit_data :: "Statement \<Rightarrow> nat \<Rightarrow> Operand list \<Rightarrow> Assembler \<Rightarrow> Assembler" where
  "emit_data st width [] a = a"
| "emit_data st width (operand # rest) a =
     (if od_kind operand \<noteq> Expression then
        add_error (st_where st) (quoted (od_text operand) @ '' is not an expression'') a
      else
        case evaluate (od_expression_text operand) (st_where st) a of
          (None, a) \<Rightarrow> a
        | (Some v, a) \<Rightarrow>
            if is_relocatable v then
              if width \<noteq> 4 \<and> width \<noteq> 8 then
                add_error (st_where st) (quoted (od_text operand) @ '' is relocatable, and no relocation is defined '' @
                                         ''at '' @ to_string (width * 8) @ '' bits'') a
              else
                let a = add_relocation (as_address a) (ev_symbol v) (if width = 4 then R_MAIZE_ABS32 else R_MAIZE_ABS64)
                          (ev_constant v) (st_where st) a
                in emit_data st width rest (emit_immediate 0 width a)
            else if \<not> fits (ev_constant v) (width * 8) then
              add_error (st_where st) (quoted (od_text operand) @ '' does not fit the '' @ to_string (width * 8) @
                                       ''-bit field this directive emits, and the assembler never '' @ ''truncates one'') a
            else emit_data st width rest (emit_immediate (ev_constant v) width a))"

definition emit_align :: "Statement \<Rightarrow> Assembler \<Rightarrow> Assembler" where
  "emit_align st a =
     (case evaluate (od_expression_text (hd (st_operands st))) (st_where st) a of
        (None, a) \<Rightarrow> a
      | (Some alignment, a) \<Rightarrow>
          let remainder = as_address a mod ev_constant alignment;
              padding = (if remainder = 0 then 0 else ev_constant alignment - remainder);
              code_like = (as_mode a = Flat \<or> as_current_section a = SEC_CODE)
          in if as_mode a = Sectioned \<and> as_current_section a = SEC_BSS then reserve_space padding a
             else (emit_byte (if code_like then op_kNop else 0) ^^ unat padding) a)"

definition emit_fill :: "Statement \<Rightarrow> Assembler \<Rightarrow> Assembler" where
  "emit_fill st a =
     (case evaluate (od_expression_text (st_operands st ! 0)) (st_where st) a of
        (None, a) \<Rightarrow> a
      | (Some count, a) \<Rightarrow>
          (case evaluate (od_expression_text (st_operands st ! 1)) (st_where st) a of
             (None, a) \<Rightarrow> a
           | (Some v, a) \<Rightarrow>
               if is_relocatable v \<or> \<not> fits (ev_constant v) 8 then
                 add_error (st_where st) ''a data_fill value accepts the byte range, -128 through 255'' a
               else (emit_byte (ucast (ev_constant v AND 0xFF)) ^^ unat (ev_constant count)) a))"

definition emit_directive :: "Statement \<Rightarrow> Assembler \<Rightarrow> Assembler" where
  "emit_directive st a =
     (let name = st_name st; loc = st_where st
      in if name = ''constant'' \<or> name = ''global'' \<or> name = ''extern'' then a
         else if name = ''align'' then emit_align st a
         else if name = ''reserve'' then
           (case evaluate (od_expression_text (hd (st_operands st))) loc a of
              (None, a) \<Rightarrow> a
            | (Some count, a) \<Rightarrow> reserve_space (ev_constant count) a)
         else if name = ''data_string'' \<or> name = ''data_string_zero'' then
           let a = emit_bytes (map (\<lambda>c. of_nat (code c)) (od_string_value (hd (st_operands st)))) a
           in if name = ''data_string_zero'' then emit_byte 0 a else a
         else if name = ''data_fill'' then emit_fill st a
         else
           let width = data_directive_width name
           in if width = 0 then add_error loc (quoted name @ '' is not a directive'') a
              else emit_data st width (st_operands st) a)"

section \<open>Pass 1: addresses\<close>

text \<open>
  The locals of the pass: the address counters of the sections and whether the start of the flat
  image is still to be settled.
\<close>

record PassOne =
  p1_counters :: "u64 list"
  p1_flat_base_pending :: bool
  p1_assembler :: Assembler

definition p1_error :: "SourceLoc \<Rightarrow> string \<Rightarrow> PassOne \<Rightarrow> PassOne" where
  "p1_error loc message p = p\<lparr>p1_assembler := add_error loc message (p1_assembler p)\<rparr>"

text \<open>The start of a flat image is the address of its first placed statement.\<close>

definition settle_flat_base :: "PassOne \<Rightarrow> PassOne" where
  "settle_flat_base p =
     (let a = p1_assembler p
      in if p1_flat_base_pending p \<and> as_mode a = Flat then
           p\<lparr>p1_flat_base_pending := False,
             p1_assembler := a\<lparr>as_flat_base := as_address a, as_flat_base_set := True\<rparr>\<rparr>
         else p)"

definition pass_one_label :: "Statement \<Rightarrow> PassOne \<Rightarrow> Statement \<times> PassOne" where
  "pass_one_label st p =
     (let a = p1_assembler p;
          st = st\<lparr>st_address := as_address a\<rparr>;
          symbol = symbol_at a (st_name st)
      in if sy_defined symbol then
           (st, p1_error (st_where st) (quoted (st_name st) @ '' is already defined'') p)
         else
           (st, p\<lparr>p1_assembler :=
                    set_symbol (st_name st)
                      (symbol\<lparr>sy_name := st_name st, sy_value := as_address a, sy_section := as_current_section a,
                              sy_defined := True, sy_where := st_where st\<rparr>) a\<rparr>))"

definition pass_one_section :: "Statement \<Rightarrow> PassOne \<Rightarrow> Statement \<times> PassOne" where
  "pass_one_section st p =
     (let a = p1_assembler p
      in if as_mode a = Flat then
           (st, p1_error (st_where st)
                  (''a module cannot mix origin and section; both answer the same '' @ ''placement question'') p)
         else if length (st_operands st) \<noteq> 1 \<or> od_kind (hd (st_operands st)) \<noteq> SectionKind then
           (st, p1_error (st_where st) ''section takes one of code, rodata, data or bss'' p)
         else
           let counters = (p1_counters p)[unat (as_current_section a) := as_address a];
               kind = od_section_kind (hd (st_operands st))
           in (st\<lparr>st_section := kind\<rparr>,
               p\<lparr>p1_counters := counters,
                 p1_assembler := a\<lparr>as_mode := Sectioned, as_current_section := kind,
                                   as_address := counters ! unat kind\<rparr>\<rparr>))"

definition pass_one_origin :: "Statement \<Rightarrow> PassOne \<Rightarrow> Statement \<times> PassOne" where
  "pass_one_origin st p =
     (let a = p1_assembler p; loc = st_where st
      in if as_mode a = Sectioned then
           (st, p1_error loc (''a module cannot mix origin and section; both answer the same '' @ ''placement question'') p)
         else
           let a = a\<lparr>as_mode := Flat\<rparr>; p = p\<lparr>p1_assembler := a\<rparr>
           in if length (st_operands st) \<noteq> 1 \<or> od_kind (hd (st_operands st)) \<noteq> Expression then
                (st, p1_error loc ''origin takes one constant expression'' p)
              else
                (case evaluate (od_expression_text (hd (st_operands st))) loc a of
                   (None, a) \<Rightarrow> (st, p\<lparr>p1_assembler := a\<rparr>)
                 | (Some v, a) \<Rightarrow>
                     if is_relocatable v then (st, p1_error loc ''origin takes a constant expression'' p)
                     else
                       let a = a\<lparr>as_address := ev_constant v\<rparr>; p = p\<lparr>p1_assembler := a\<rparr>
                       in if p1_flat_base_pending p then
                            (st\<lparr>st_address := as_address a\<rparr>,
                             p\<lparr>p1_flat_base_pending := False,
                               p1_assembler := a\<lparr>as_flat_base := as_address a, as_flat_base_set := True\<rparr>\<rparr>)
                          else if as_address a < as_flat_base a then
                            (st, p1_error loc ''origin moves below the start of the image'' p)
                          else (st\<lparr>st_address := as_address a\<rparr>, p)))"

definition pass_one_constant :: "Statement \<Rightarrow> PassOne \<Rightarrow> PassOne" where
  "pass_one_constant st p =
     (let a = p1_assembler p; loc = st_where st; operands = st_operands st
      in if length operands \<noteq> 2 then p1_error loc ''constant takes an identifier and a constant expression'' p
         else
           let symbol_name = od_text (operands ! 0)
           in if od_kind (operands ! 0) = Register \<or> is_reserved_word symbol_name then
                p1_error loc (quoted symbol_name @ '' is a reserved word and cannot be defined as a constant'') p
              else if \<not> is_identifier symbol_name then p1_error loc (quoted symbol_name @ '' is not an identifier'') p
              else if sy_defined (symbol_at a symbol_name) then
                p1_error loc (quoted symbol_name @ '' is already defined; a second value gets a second name'') p
              else if od_kind (operands ! 1) \<noteq> Expression then p1_error loc ''constant takes a constant expression'' p
              else
                (case evaluate (od_expression_text (operands ! 1)) loc a of
                   (None, a) \<Rightarrow> p\<lparr>p1_assembler := a\<rparr>
                 | (Some v, a) \<Rightarrow>
                     if is_relocatable v then
                       p1_error loc (''constant takes a constant expression, and '' @ quoted (od_text (operands ! 1)) @
                                     '' is relocatable'') p
                     else
                       p\<lparr>p1_assembler :=
                           set_symbol symbol_name
                             ((symbol_at a symbol_name)\<lparr>sy_name := symbol_name, sy_value := ev_constant v,
                                sy_defined := True, sy_is_constant := True, sy_section := SEC_NULL, sy_where := loc\<rparr>) a\<rparr>))"

definition pass_one_linkage :: "Statement \<Rightarrow> PassOne \<Rightarrow> PassOne" where
  "pass_one_linkage st p =
     (let a = p1_assembler p; loc = st_where st; operands = st_operands st
      in if length operands \<noteq> 1 then p1_error loc (st_name st @ '' takes one identifier'') p
         else
           let symbol_name = od_text (operands ! 0)
           in if \<not> is_identifier symbol_name \<or> is_reserved_word symbol_name then
                p1_error loc (quoted symbol_name @ '' is not a symbol name'') p
              else
                let symbol = (symbol_at a symbol_name)\<lparr>sy_name := symbol_name\<rparr>
                in p\<lparr>p1_assembler :=
                       set_symbol symbol_name
                         (if st_name st = ''global'' then symbol\<lparr>sy_exported := True\<rparr>
                          else symbol\<lparr>sy_external := True, sy_section := SEC_NULL\<rparr>) a\<rparr>)"

definition pass_one_directive :: "Statement \<Rightarrow> PassOne \<Rightarrow> Statement \<times> PassOne" where
  "pass_one_directive st p =
     (let name = st_name st
      in if name = ''section'' then pass_one_section st p
         else if name = ''origin'' then pass_one_origin st p
         else
           let a = p1_assembler p;
               st = st\<lparr>st_address := as_address a\<rparr>;
               a = (if as_mode a = Undecided \<and> name \<noteq> ''constant'' \<and> name \<noteq> ''global'' \<and> name \<noteq> ''extern''
                    then a\<lparr>as_mode := Flat\<rparr> else a);
               p = settle_flat_base (p\<lparr>p1_assembler := a\<rparr>)
           in if name = ''constant'' then (st, pass_one_constant st p)
              else if name = ''global'' \<or> name = ''extern'' then (st, pass_one_linkage st p)
              else
                (case directive_size st (p1_assembler p) of
                   (None, a) \<Rightarrow> (st, p\<lparr>p1_assembler := a\<rparr>)
                 | (Some bytes, a) \<Rightarrow> (st, p\<lparr>p1_assembler := a\<lparr>as_address := as_address a + bytes\<rparr>\<rparr>)))"

definition pass_one_instruction :: "Statement \<Rightarrow> PassOne \<Rightarrow> Statement \<times> PassOne" where
  "pass_one_instruction st p =
     (let a = p1_assembler p;
          st = st\<lparr>st_address := as_address a\<rparr>;
          a = (if as_mode a = Undecided then a\<lparr>as_mode := Flat\<rparr> else a);
          p = settle_flat_base (p\<lparr>p1_assembler := a\<rparr>);
          a = p1_assembler p
      in if as_mode a = Sectioned \<and> as_current_section a \<noteq> SEC_CODE then
           (st, p1_error (st_where st) ''instructions are legal in the code section only'' p)
         else
           (case resolve_opcode st of
              Inl e \<Rightarrow> (st, p1_error (st_where st) e p)
            | Inr opcode \<Rightarrow>
                let len = oi_length (opcode_info opcode)
                in (st\<lparr>st_opcode := opcode, st_length := len\<rparr>,
                    p\<lparr>p1_assembler := a\<lparr>as_address := as_address a + of_nat len\<rparr>\<rparr>)))"

definition pass_one_statement :: "Statement \<Rightarrow> PassOne \<Rightarrow> Statement \<times> PassOne" where
  "pass_one_statement st p =
     (let st = st\<lparr>st_section := as_current_section (p1_assembler p)\<rparr>
      in case st_kind st of
           Label \<Rightarrow> pass_one_label st p
         | Directive \<Rightarrow> pass_one_directive st p
         | Instruction \<Rightarrow> pass_one_instruction st p)"

fun pass_one_loop :: "Statement list \<Rightarrow> PassOne \<Rightarrow> Statement list \<times> PassOne" where
  "pass_one_loop [] p = ([], p)"
| "pass_one_loop (st # rest) p =
     (case pass_one_statement st p of
        (st, p) \<Rightarrow> (case pass_one_loop rest p of (rest, p) \<Rightarrow> (st # rest, p)))"

definition pass_one :: "Assembler \<Rightarrow> Assembler" where
  "pass_one a =
     (let a = a\<lparr>as_second_pass := False, as_address := 0, as_current_section := 0\<rparr>;
          p = \<lparr>p1_counters = replicate 5 0, p1_flat_base_pending = True, p1_assembler = a\<rparr>;
          (statements, p) = pass_one_loop (as_statements a) p;
          a = p1_assembler p;
          counters = (p1_counters p)[unat (as_current_section a) := as_address a];
          a = a\<lparr>as_statements := statements, as_section_sizes := counters,
                as_mode := (if as_mode a = Undecided then Flat else as_mode a)\<rparr>
      in if p1_flat_base_pending p then a\<lparr>as_flat_base := 0\<rparr> else a)"

section \<open>Pass 2: bytes\<close>

definition pass_two_statement :: "Statement \<Rightarrow> u64 list \<times> Assembler \<Rightarrow> u64 list \<times> Assembler" where
  "pass_two_statement st s =
     (let (counters, a) = s
      in case st_kind st of
           Label \<Rightarrow> (counters, a)
         | Directive \<Rightarrow>
             if st_name st = ''section'' then
               let counters = counters[unat (as_current_section a) := as_address a]
               in (counters, a\<lparr>as_current_section := st_section st, as_address := counters ! unat (st_section st)\<rparr>)
             else if st_name st = ''origin'' then (counters, a\<lparr>as_address := st_address st\<rparr>)
             else (counters, emit_directive st a)
         | Instruction \<Rightarrow> (counters, if st_length st \<noteq> 0 then encode_instruction st a else a))"

definition pass_two :: "Assembler \<Rightarrow> Assembler" where
  "pass_two a =
     (let a = a\<lparr>as_second_pass := True, as_address := (if as_mode a = Flat then as_flat_base a else 0),
                as_current_section := 0\<rparr>
      in snd (fold pass_two_statement (as_statements a) (replicate 5 0, a)))"

section \<open>Entry points\<close>

definition assemble_text ::
  "Host \<Rightarrow> nat \<Rightarrow> string \<Rightarrow> string \<Rightarrow> string \<Rightarrow> Assembler \<Rightarrow> (bool \<times> Assembler) option" where
  "assemble_text host depth contents name base_path a =
     (case parse_text host depth contents name base_path None (a\<lparr>as_base_path := base_path\<rparr>) of
        None \<Rightarrow> None
      | Some a \<Rightarrow>
          let a = pass_one a;
              a = (if as_diags a = [] then pass_two a else a)
          in Some (as_diags a = [], a))"

definition assemble_file :: "Host \<Rightarrow> nat \<Rightarrow> string \<Rightarrow> Assembler \<Rightarrow> (bool \<times> Assembler) option" where
  "assemble_file host depth path a =
     (case read_source host path (SourceLoc path 0 None) a of
        (None, a) \<Rightarrow> Some (False, a)
      | (Some contents, a) \<Rightarrow>
          let key = host_canonical host path
          in assemble_text host depth contents key (host_parent host path)
               (a\<lparr>as_include_stack := (if key \<in> set (as_include_stack a) then as_include_stack a
                                       else key # as_include_stack a)\<rparr>))"

end
