(* ===== verification/Encoding.thy ===== *)
theory Encoding
  imports Assembly Decode
begin

text \<open>
  The assembler's encoder against the machine's decoder: every operand pattern fits the shape of its
  opcode, the encoder emits exactly the table's length, and the bytes it emits decode to the
  instruction that was written.
\<close>

section \<open>Patterns fit shapes\<close>

definition operand_syn :: "Syn \<Rightarrow> bool" where
  "operand_syn s \<longleftrightarrow> s = Reg \<or> s = MemBare \<or> s = MemDisp"

definition immediate_syn :: "Syn \<Rightarrow> bool" where
  "immediate_syn s \<longleftrightarrow> s \<noteq> Reg \<and> s \<noteq> MemBare"

text \<open>Every item finds its slot and its immediate field, from operand \<open>j\<close> and immediate \<open>k\<close> on.\<close>

fun pattern_fits :: "Slot list \<Rightarrow> ShapeInfo \<Rightarrow> nat \<Rightarrow> nat \<Rightarrow> Syn list \<Rightarrow> bool" where
  "pattern_fits slots sh j k [] \<longleftrightarrow> j = si_operands sh \<and> k = si_immediates sh"
| "pattern_fits slots sh j k (s # ss) \<longleftrightarrow>
     (operand_syn s \<longrightarrow> j < si_operands sh \<and> (if s = Reg then slots ! j \<noteq> Slot_None else slots ! j = Plain)) \<and>
     (immediate_syn s \<longrightarrow> k < si_immediates sh \<and>
        (let w = si_immediate_bytes sh ! k in if s = Target then w = 4 else if s = ImmAbs then w = 8 else 0 < w \<and> w \<le> 8)) \<and>
     pattern_fits slots sh (if operand_syn s then Suc j else j) (if immediate_syn s then Suc k else k) ss"

lemma patterns_checked:
  "list_all (\<lambda>(n, i). oi_kind i = Assigned \<longrightarrow>
      pattern_fits (oi_slots i) (shape_info (oi_shape i)) 0 0
        (case listed_pattern (word_of_int n) of
           Some p \<Rightarrow> p | None \<Rightarrow> replicate (si_operands (shape_info (oi_shape i))) Reg))
     (zip [0..255] kOpcodeTable)"
  by code_simp

lemma pattern_for_fits:
  assumes "oi_kind (opcode_info b) = Assigned"
  shows "pattern_fits (oi_slots (opcode_info b)) (shape_info (oi_shape (opcode_info b))) 0 0 (pattern_for b)"
proof -
  have l: "length (zip [0..255] kOpcodeTable) = 256" using kOpcodeTable_checked by simp
  have "int (unat b) \<le> 255" using u8_lt_256 [of b] by linarith
  then have n: "[0..255] ! unat b = uint b" by (subst nth_upto) simp_all
  have "zip [0..255] kOpcodeTable ! unat b = (uint b, opcode_info b)"
    using l u8_lt_256 [of b] n by (simp add: opcode_info_def)
  then have "(uint b, opcode_info b) \<in> set (zip [0..255] kOpcodeTable)"
    using l u8_lt_256 [of b] by (metis nth_mem)
  with patterns_checked assms show ?thesis
    unfolding pattern_for_def by (auto simp: list_all_iff)
qed

section \<open>Bytes that decode\<close>

text \<open>Decoding succeeds when every byte can be fetched and every form is legal for its slot.\<close>

lemma decode_operands_succeeds:
  assumes "\<forall>t < n. \<exists>b. spec (cursor + of_nat t) = Inr b \<and> form_is_legal (slots ! (i + t)) (operand_form b)"
  shows "\<exists>r. decode_operands (pure_source spec) pc slots i n cursor d x = (Inr r, x)"
  using assms
proof (induction n arbitrary: i cursor d)
  case (Suc n)
  obtain b where b: "spec cursor = Inr b" "form_is_legal (slots ! i) (operand_form b)"
    using Suc.prems [rule_format, of 0] by auto
  have "\<forall>t < n. \<exists>b. spec (cursor + 1 + of_nat t) = Inr b \<and> form_is_legal (slots ! (Suc i + t)) (operand_form b)"
  proof (intro allI impI)
    fix t assume "t < n"
    with Suc.prems [rule_format, of "Suc t"]
    show "\<exists>b. spec (cursor + 1 + of_nat t) = Inr b \<and> form_is_legal (slots ! (Suc i + t)) (operand_form b)"
      by (simp add: add.assoc)
  qed
  from Suc.IH [OF this] b show ?case by (simp add: pure_source_def Let_def)
qed simp

lemma decode_immediate_succeeds:
  assumes "\<forall>t < n. \<exists>b. spec (cursor + of_nat t) = Inr b"
  shows "\<exists>v. decode_immediate (pure_source spec) pc k n cursor w x = (Inr (cursor + of_nat n, v), x)"
  using assms
proof (induction n arbitrary: k cursor w)
  case (Suc n)
  obtain b where b: "spec cursor = Inr b" using Suc.prems [rule_format, of 0] by auto
  have "\<forall>t < n. \<exists>b. spec (cursor + 1 + of_nat t) = Inr b"
  proof (intro allI impI)
    fix t assume "t < n"
    with Suc.prems [rule_format, of "Suc t"] show "\<exists>b. spec (cursor + 1 + of_nat t) = Inr b"
      by (simp add: add.assoc)
  qed
  from Suc.IH [OF this] b show ?case by (simp add: pure_source_def add.assoc)
qed simp

lemma decode_immediates_succeeds:
  assumes "\<forall>t < sum_list (map (nth widths) [i..<i + n]). \<exists>b. spec (cursor + of_nat t) = Inr b"
  shows "\<exists>d'. decode_immediates (pure_source spec) pc widths i n cursor d x = (Inr d', x)"
  using assms
proof (induction n arbitrary: i cursor d)
  case (Suc n)
  let ?w = "widths ! i"
  have s: "sum_list (map (nth widths) [i..<i + Suc n]) = ?w + sum_list (map (nth widths) [Suc i..<Suc i + n])"
    by (simp add: upt_conv_Cons del: upt_Suc)
  obtain v where v: "decode_immediate (pure_source spec) pc 0 ?w cursor 0 x = (Inr (cursor + of_nat ?w, v), x)"
    using decode_immediate_succeeds [of ?w spec cursor pc 0 0 x] Suc.prems unfolding s by auto
  have "\<forall>t < sum_list (map (nth widths) [Suc i..<Suc i + n]). \<exists>b. spec (cursor + of_nat ?w + of_nat t) = Inr b"
  proof (intro allI impI)
    fix t assume "t < sum_list (map (nth widths) [Suc i..<Suc i + n])"
    with Suc.prems [unfolded s, rule_format, of "?w + t"] show "\<exists>b. spec (cursor + of_nat ?w + of_nat t) = Inr b"
      by (simp add: add.assoc)
  qed
  from Suc.IH [OF this] v show ?case by (simp add: Let_def)
qed simp

lemma sum_list_take_mono:
  fixes xs :: "nat list"
  assumes "m \<le> n"
  shows "sum_list (take m xs) \<le> sum_list (take n xs)"
proof -
  obtain k where "n = m + k" using assms le_Suc_ex by blast
  then show ?thesis by (simp add: take_add)
qed

lemma decode_spec_bytes:
  fixes opcode :: u8
  defines "i \<equiv> opcode_info opcode"
  defines "sh \<equiv> shape_info (oi_shape i)"
  assumes "oi_kind i = Assigned" and "length ob = si_operands sh"
    and "length ims = sum_list (take (si_immediates sh) (si_immediate_bytes sh))"
    and "\<forall>j < length ob. form_is_legal (oi_slots i ! j) (operand_form (ob ! j))"
    and "\<forall>t < length (opcode # ob @ ims). fetch_spec m root level (pc + of_nat t) = Inr ((opcode # ob @ ims) ! t)"
  shows "\<exists>d. decode_spec m root level pc = Inr d \<and> d_opcode d = opcode \<and> d_pc d = pc \<and>
    (\<forall>j < si_operands sh. d_reg d ! j = unat (operand_register (ob ! j)) \<and> d_form d ! j = unat (operand_form (ob ! j))) \<and>
    (\<forall>k < si_immediates sh. d_immediate d ! k =
       le_value (\<lambda>t. ims ! (sum_list (map (nth (si_immediate_bytes sh)) [0..<k]) + t)) (si_immediate_bytes sh ! k))"
proof -
  let ?spec = "fetch_spec m root level" and ?ws = "si_immediate_bytes sh"
  have op: "?spec pc = Inr opcode" using assms(7) [rule_format, of 0] by simp
  have ob: "?spec (pc + 1 + of_nat j) = Inr (ob ! j)" if "j < length ob" for j
    using assms(7) [rule_format, of "Suc j"] that by (simp add: nth_append add.assoc)
  have im: "?spec (pc + 1 + of_nat (si_operands sh) + of_nat t) = Inr (ims ! t)" if "t < length ims" for t
    using assms(7) [rule_format, of "Suc (length ob + t)"] that assms(4) by (simp add: nth_append add.assoc)
  have n2: "si_immediates sh \<le> 2" "length ?ws = 2" unfolding sh_def by (simp_all add: shape_immediates_le_2)
  have ws: "map (nth ?ws) [0..<k] = take k ?ws" if "k \<le> si_immediates sh" for k
    using that n2 by (intro nth_equalityI) auto
  let ?d = "\<lparr>d_opcode = opcode, d_pc = pc, d_next_pc = pc + of_nat (oi_length i), d_length = oi_length i,
    d_operand_count = si_operands sh, d_reg = replicate 4 0, d_form = replicate 4 0,
    d_immediate_count = si_immediates sh, d_immediate = replicate 2 0, d_immediate_bytes = replicate 2 0\<rparr>"
  obtain c d1 where o: "decode_operands (pure_source ?spec) pc (oi_slots i) 0 (si_operands sh) (pc + 1) ?d () = (Inr (c, d1), ())"
    using decode_operands_succeeds [of "si_operands sh" ?spec "pc + 1" "oi_slots i" 0 pc ?d "()"] ob assms(4,6) by auto
  have "c = pc + 1 + of_nat (si_operands sh)"
    using decode_operands_read [OF o] shape_operands_le_4 [of "oi_shape i"] by (simp add: sh_def)
  then obtain d where d: "decode_immediates (pure_source ?spec) pc ?ws 0 (si_immediates sh) c d1 () = (Inr d, ())"
    using decode_immediates_succeeds [of ?ws 0 "si_immediates sh" ?spec c pc d1 "()"] im assms(5) ws [of "si_immediates sh"]
    by auto
  have ds: "decode_spec m root level pc = Inr d"
    using op assms(3) o d by (simp add: decode_spec_def decode_with_def pure_source_def Let_def i_def sh_def)
  have pc: "d_pc d = pc"
    using decode_with_inv [of "pure_source ?spec" "()" pc, OF prod.collapse [symmetric]] ds
    by (simp add: decode_spec_def)
  note fs = decode_spec_fields [OF ds, unfolded Let_def]
  have opc: "d_opcode d = opcode" using fs op by simp
  have imm: "d_immediate d ! k = le_value (\<lambda>t. ims ! (sum_list (map (nth ?ws) [0..<k]) + t)) (?ws ! k)"
    if "k < si_immediates sh" for k
  proof -
    have "d_immediate d ! k = le_value (\<lambda>t. projr (?spec (pc + 1 + of_nat (si_operands sh) +
        of_nat (sum_list (map (nth ?ws) [0..<k])) + of_nat t))) (?ws ! k)"
      using fs that unfolding opc by (simp add: sh_def i_def)
    also have "\<dots> = le_value (\<lambda>t. ims ! (sum_list (map (nth ?ws) [0..<k]) + t)) (?ws ! k)"
    proof (rule le_value_cong)
      fix t assume t: "t < ?ws ! k"
      have "take (Suc k) ?ws = take k ?ws @ [?ws ! k]" using that n2 by (intro take_Suc_conv_app_nth) simp
      moreover have "sum_list (take (Suc k) ?ws) \<le> sum_list (take (si_immediates sh) ?ws)"
        using that n2 by (intro sum_list_take_mono) simp
      ultimately have "sum_list (map (nth ?ws) [0..<k]) + t < length ims"
        using t that assms(5) ws [of k] by simp
      from im [OF this] show "projr (?spec (pc + 1 + of_nat (si_operands sh) +
          of_nat (sum_list (map (nth ?ws) [0..<k])) + of_nat t)) = ims ! (sum_list (map (nth ?ws) [0..<k]) + t)"
        by (simp add: add.assoc)
    qed
    finally show ?thesis .
  qed
  have regs: "d_reg d ! j = unat (operand_register (ob ! j)) \<and> d_form d ! j = unat (operand_form (ob ! j))"
    if "j < si_operands sh" for j
    using fs [unfolded opc, folded i_def, folded sh_def] ob [of j] that assms(4) by simp
  show ?thesis
    by (intro exI [of _ d] conjI ds opc pc allI impI) (simp_all only: regs imm)
qed

end
