(* ===== verification/Encoder.thy ===== *)
theory Encoder
  imports Encoding Registers
begin

text \<open>
  What \<^verbatim>\<open>encode_instruction\<close> of \<^verbatim>\<open>src/v2/mzasm_assemble.cpp\<close> emits: a statement that adds no diagnostic emits
  the opcode, one byte per register operand and the immediates, and each field holds what the operand
  written in the source says.
\<close>

section \<open>What an instruction says\<close>

text \<open>The value an operand's expression has where the statement stands, and the fields that read as a value.\<close>

definition operand_value :: "Assembler \<Rightarrow> string \<Rightarrow> ExprValue option" where
  "operand_value a s =
     (case parse_expression \<lparr>lb_lookup = Some (lookup_in_assembler a), lb_here = as_address a\<rparr> s of
        Inl _ \<Rightarrow> None | Inr v \<Rightarrow> Some v)"

definition reads_as :: "nat \<Rightarrow> u64 \<Rightarrow> u64 \<Rightarrow> bool" where
  "reads_as w field v \<longleftrightarrow> field = v \<or> sign_extend field (8 * w) = v"

definition register_says :: "Operand \<Rightarrow> nat \<times> nat" where
  "register_says operand =
     (unat (od_reg operand), if od_kind operand = Slice then unat (od_slice_index operand) else 0)"

text \<open>
  A target that begins with a base marker is a literal displacement. The encoder emits the constant
  part of such an expression without asking whether it also names a symbol, so what follows is about
  statements in which every literal displacement is a plain number.
\<close>

definition plain_literals :: "Assembler \<Rightarrow> (Syn \<times> Operand) list \<Rightarrow> bool" where
  "plain_literals a items \<longleftrightarrow>
     (\<forall>operand v. (Target, operand) \<in> set items \<and> target_is_literal_displacement (od_expression_text operand) \<and>
        operand_value a (od_expression_text operand) = Some v \<longrightarrow> \<not> is_relocatable v)"

text \<open>
  What a decoded field of \<open>w\<close> bytes at address \<open>at\<close> must hold for an operand, with \<open>next\<close> the address of
  the following instruction: the value itself, the distance to the target, or zero beside the
  relocation that patches it. In a target slot a number is the displacement itself, and a symbol or
  any relocatable expression names the address to reach.
\<close>

definition left_to_linker :: "Assembler \<Rightarrow> Relocation list \<Rightarrow> u64 \<Rightarrow> u8 \<Rightarrow> ExprValue \<Rightarrow> u64 \<Rightarrow> bool" where
  "left_to_linker a rels offset type v field \<longleftrightarrow>
     field = 0 \<and> \<lparr>rl_section = as_current_section a, rl_offset = offset, rl_symbol = ev_symbol v, rl_type = type,
                  rl_addend = ev_constant v\<rparr> \<in> set rels"

definition field_says ::
  "Assembler \<Rightarrow> Relocation list \<Rightarrow> u64 \<Rightarrow> u64 \<Rightarrow> nat \<Rightarrow> Syn \<Rightarrow> Operand \<Rightarrow> u64 \<Rightarrow> bool" where
  "field_says a rels following offset w syn operand field \<longleftrightarrow>
     (case operand_value a (if syn = MemDisp then od_displacement_text operand else od_expression_text operand) of
        None \<Rightarrow> False
      | Some v \<Rightarrow>
          (case syn of
             MemDisp \<Rightarrow> \<not> is_relocatable v \<and>
               reads_as w field (if od_displacement_negated operand then - ev_constant v else ev_constant v)
           | ImmAbs \<Rightarrow> if is_relocatable v then left_to_linker a rels offset R_MAIZE_ABS64 v field
                       else field = ev_constant v
           | Target \<Rightarrow>
               if target_is_literal_displacement (od_expression_text operand) \<and> \<not> is_relocatable v
               then reads_as w field (ev_constant v)
               else
                 (case target_address a v of
                    Some target \<Rightarrow> following + sign_extend field 32 = target
                  | None \<Rightarrow> left_to_linker a rels offset R_MAIZE_REL32 v field)
           | _ \<Rightarrow> \<not> is_relocatable v \<and> reads_as w field (ev_constant v)))"

text \<open>The address of the immediate field \<open>k\<close> of a statement's encoding.\<close>

definition field_offset :: "Statement \<Rightarrow> nat \<Rightarrow> u64" where
  "field_offset st k =
     (let sh = shape_info (oi_shape (opcode_info (st_opcode st)))
      in st_address st + 1 + of_nat (si_operands sh) + of_nat (sum_list (take k (si_immediate_bytes sh))))"

text \<open>The operands of a statement against register fields and immediate fields, from the left.\<close>

fun says ::
  "Assembler \<Rightarrow> Relocation list \<Rightarrow> Statement \<Rightarrow> (nat \<Rightarrow> nat \<times> nat) \<Rightarrow> (nat \<Rightarrow> u64) \<Rightarrow> nat \<Rightarrow> nat \<Rightarrow>
   (Syn \<times> Operand) list \<Rightarrow> bool" where
  "says a rels st regs imms j k [] \<longleftrightarrow> True"
| "says a rels st regs imms j k ((syn, operand) # rest) \<longleftrightarrow>
     (let sh = shape_info (oi_shape (opcode_info (st_opcode st)))
      in (operand_syn syn \<longrightarrow> regs j = register_says operand) \<and>
         (immediate_syn syn \<longrightarrow>
            field_says a rels (st_address st + of_nat (st_length st)) (field_offset st k) (si_immediate_bytes sh ! k)
              syn operand (imms k)) \<and>
         says a rels st regs imms (if operand_syn syn then Suc j else j) (if immediate_syn syn then Suc k else k) rest)"

section \<open>What the encoder gathers\<close>

text \<open>Only diagnostics and, in a module with sections, relocations are added while operands are gathered.\<close>

definition only_reports :: "Assembler \<Rightarrow> Assembler \<Rightarrow> bool" where
  "only_reports a a' \<longleftrightarrow>
     (\<exists>ds rs. a' = a\<lparr>as_diags := as_diags a @ ds, as_relocations := as_relocations a @ rs\<rparr> \<and>
              (as_mode a \<noteq> Sectioned \<longrightarrow> rs = []))"

lemma only_reports_refl [simp]: "only_reports a a"
  unfolding only_reports_def by (rule exI [of _ "[]"], rule exI [of _ "[]"]) simp

lemma only_reports_trans: "only_reports a b \<Longrightarrow> only_reports b c \<Longrightarrow> only_reports a c"
  unfolding only_reports_def
proof (elim exE conjE)
  fix ds rs ds' rs'
  assume "b = a\<lparr>as_diags := as_diags a @ ds, as_relocations := as_relocations a @ rs\<rparr>" "as_mode a \<noteq> Sectioned \<longrightarrow> rs = []"
    and "c = b\<lparr>as_diags := as_diags b @ ds', as_relocations := as_relocations b @ rs'\<rparr>" "as_mode b \<noteq> Sectioned \<longrightarrow> rs' = []"
  then show "\<exists>ds rs. c = a\<lparr>as_diags := as_diags a @ ds, as_relocations := as_relocations a @ rs\<rparr> \<and> (as_mode a \<noteq> Sectioned \<longrightarrow> rs = [])"
    by (intro exI [of _ "ds @ ds'"] exI [of _ "rs @ rs'"]) simp
qed

lemma only_reports_add_error [simp]: "only_reports a (add_error loc e a)"
  unfolding only_reports_def add_error_def report_def by (rule exI, rule exI [of _ "[]"]) simp

lemma only_reports_add_relocation [simp]: "only_reports a (add_relocation offset s t c loc a)"
proof (cases "as_mode a = Sectioned")
  case True
  then show ?thesis unfolding only_reports_def add_relocation_def by (intro exI [of _ "[]"] exI) simp
next
  case False
  then show ?thesis unfolding add_relocation_def by (simp only: if_True not_False_eq_True only_reports_add_error)
qed

lemma add_error_diags: "as_diags (add_error loc m a) \<noteq> as_diags a"
  by (simp add: add_error_def report_def)

lemma evaluate_fail: "evaluate s loc a = (None, a') \<Longrightarrow> as_diags a' \<noteq> as_diags a"
  unfolding evaluate_def by (auto split: sum.splits simp: add_error_diags)

lemma evaluate_reports: "evaluate s loc a = (r, a') \<Longrightarrow> only_reports a a'"
  unfolding evaluate_def by (auto split: sum.splits)

lemma evaluate_Some: "evaluate s loc a = (Some v, a') \<longleftrightarrow> a' = a \<and> operand_value a s = Some v"
  unfolding evaluate_def operand_value_def by (auto split: sum.splits)

lemma fail_with_None: "fail_with loc m a = (r, a') \<longleftrightarrow> r = None \<and> a' = add_error loc m a"
  unfolding fail_with_def by auto

lemma only_reports_fields:
  assumes "only_reports a a'"
  shows "as_symbols a' = as_symbols a" "as_address a' = as_address a" "as_current_section a' = as_current_section a"
    "as_mode a' = as_mode a" "as_second_pass a' = as_second_pass a" "as_flat_image a' = as_flat_image a"
    "as_flat_base a' = as_flat_base a" "as_sections a' = as_sections a"
    "\<exists>ds. as_diags a' = as_diags a @ ds" "\<exists>rs. as_relocations a' = as_relocations a @ rs"
    "as_mode a \<noteq> Sectioned \<Longrightarrow> as_relocations a' = as_relocations a"
  using assms unfolding only_reports_def by auto

lemma quiet_between:
  assumes "only_reports a b" and "only_reports b c" and "as_diags c = as_diags a"
  shows "as_diags b = as_diags a"
proof -
  obtain ds ds' where "as_diags b = as_diags a @ ds" "as_diags c = as_diags b @ ds'"
    using only_reports_fields(9) [OF assms(1)] only_reports_fields(9) [OF assms(2)] by blast
  then show ?thesis using assms(3) by simp
qed

lemma encode_operand_reports: "encode_operand st syn operand g a = (r, a') \<Longrightarrow> only_reports a a'"
  unfolding encode_operand_def encode_memory_def encode_immediate_def encode_absolute_def encode_target_def Let_def
  by (cases g; cases syn)
     (auto simp: fail_with_None evaluate_Some evaluate_reports simp del: append_Cons append.simps
      split: sum.splits if_splits prod.splits option.splits)


lemma register_byte:
  assumes "r < 32" and "i \<le> (7 :: u8)"
  shows "operand_register (r OR push_bit 5 i) = r" "operand_form (r OR push_bit 5 i) = i"
proof -
  have r: "take_bit 5 r = r" using assms(1) by (intro take_bit_word_self) (simp add: word_less_nat_alt)
  have i: "take_bit 3 i = i" using assms(2) by (intro take_bit_word_self) (simp add: word_le_nat_alt)
  have rb: "bit r n \<longleftrightarrow> n < 5 \<and> bit r n" and ib: "bit i n \<longleftrightarrow> n < 3 \<and> bit i n" for n
    using bit_take_bit_iff [of 5 r n] bit_take_bit_iff [of 3 i n] r i by auto
  show "operand_register (r OR push_bit 5 i) = r"
    unfolding operand_register_def
  proof (rule bit_word_eqI)
    fix n assume n: "n < LENGTH(8)"
    have "bit (0x1F :: u8) n \<longleftrightarrow> n < 5"
      using bit_mask_iff [of 5 n, where 'a = u8] n by (simp add: mask_eq_exp_minus_1)
    then show "bit ((r OR push_bit 5 i) AND 0x1F) n = bit r n" using n rb [of n] by (auto simp: bit_simps)
  qed
  show "operand_form (r OR push_bit 5 i) = i"
    unfolding operand_form_def
  proof (rule bit_word_eqI)
    fix n assume n: "n < LENGTH(8)"
    then show "bit (drop_bit 5 (r OR push_bit 5 i)) n = bit i n"
      using rb [of "5 + n"] ib [of n] by (auto simp: bit_simps)
  qed
qed

lemma take_bit_le_mask: "v \<le> mask n \<Longrightarrow> n \<le> 64 \<Longrightarrow> take_bit n v = (v :: u64)"
proof (rule take_bit_word_self)
  assume "v \<le> mask n" and "n \<le> 64"
  then have "uint v \<le> 2 ^ n - 1" using uint_mask [of n] by (simp add: word_le_def)
  then have "uint v < 2 ^ n" by simp
  then have "int (unat v) < int (2 ^ n)" by simp
  then show "unat v < 2 ^ n" by (simp only: of_nat_less_iff)
qed

lemma fits_reads:
  assumes "fits v (8 * w)" and "0 < w" and "w \<le> 8"
  shows "reads_as w (take_bit (8 * w) v) v"
proof (cases "w = 8")
  case True
  then show ?thesis by (simp add: reads_as_def take_bit_word_beyond_length_eq)
next
  case False
  let ?n = "8 * w"
  have n: "0 < ?n" "?n < 64" using False assms by auto
  show ?thesis
  proof (cases "v \<le> mask ?n")
    case True
    then show ?thesis using n by (simp add: reads_as_def take_bit_le_mask)
  next
    case False
    then have "NOT (mask (?n - 1)) \<le> v" using assms(1) fits_ranges [OF n] by blast
    then have "NOT v \<le> mask (?n - 1)"
      using uint_not [of v] uint_not [of "mask (?n - 1)"] unfolding word_le_def by linarith
    then have "take_bit (?n - 1) (NOT v) = NOT v" using n by (intro take_bit_le_mask) auto
    then have h: "bit v k" if "?n - 1 \<le> k" "k < 64" for k
      using that bit_take_bit_iff [of "?n - 1" "NOT v" k] by (auto simp: bit_not_iff)
    have "sign_extend (take_bit ?n v) ?n = v"
      unfolding sign_extend_signed_take_bit [OF n(1) order_less_imp_le [OF n(2)]]
    proof (rule bit_word_eqI)
      fix k assume "k < LENGTH(64)"
      then show "bit (signed_take_bit (?n - 1) (take_bit ?n v)) k = bit v k"
        using h [of k] h [of "?n - 1"] n by (auto simp: bit_simps min_def)
    qed
    then show ?thesis by (simp add: reads_as_def)
  qed
qed


lemma encode_register_says:
  assumes "encode_register slot operand = Inr b" and "slot \<noteq> Slot_None" and "od_reg operand < 32"
  shows "(unat (operand_register b), unat (operand_form b)) = register_says operand \<and> form_is_legal slot (operand_form b)"
proof (cases "slot = Plain")
  case True
  then have "od_kind operand = Register" "b = od_reg operand"
    using assms(1) unfolding encode_register_def by (auto split: if_splits simp del: append_Cons append.simps)
  then show ?thesis
    using True register_byte [OF assms(3), of 0] by (simp add: register_says_def)
next
  case False
  let ?limit = "case slot of ByteSliced \<Rightarrow> 7 | QuarterSliced \<Rightarrow> 3 | HalfSliced \<Rightarrow> 1 | _ \<Rightarrow> (0 :: nat)"
  have k: "od_kind operand = Slice" and i: "unat (od_slice_index operand) \<le> ?limit"
    and b: "b = od_reg operand OR push_bit 5 (od_slice_index operand)"
    using assms(1) False unfolding encode_register_def
    by (cases slot; auto split: if_splits simp: Let_def simp del: append_Cons append.simps)+
  have "?limit \<le> 7" by (cases slot) simp_all
  then have "od_slice_index operand \<le> 7" using i by (simp add: word_le_nat_alt)
  note rb = register_byte [OF assms(3) this]
  have "form_is_legal slot (od_slice_index operand)"
    using i False assms(2) by (cases slot) (simp_all add: word_le_nat_alt)
  then show ?thesis using rb k b by (simp add: register_says_def)
qed


lemma distance_field:
  fixes d :: int
  assumes "- (2 ^ 31) \<le> d" and "d < 2 ^ 31"
  shows "sign_extend (take_bit 32 (of_int d)) 32 = (of_int d :: u64)"
proof -
  have d: "signed_take_bit 31 d = d" using assms by (intro signed_take_bit_int_eq_self) simp_all
  have "signed_take_bit 31 (take_bit 32 (of_int d)) = (of_int (signed_take_bit 31 d) :: u64)"
    by (rule bit_word_eqI) (auto simp: bit_simps min_def)
  then show ?thesis unfolding d by (simp add: sign_extend_signed_take_bit)
qed

lemma distance_reaches:
  fixes target following :: u64
  shows "following + of_int (sint target - sint following) = target"
  by simp

lemma quiet_relocation:
  assumes "as_diags (add_relocation offset s t c loc a) = as_diags a"
  shows "\<lparr>rl_section = as_current_section a, rl_offset = offset, rl_symbol = s, rl_type = t, rl_addend = c\<rparr>
    \<in> set (as_relocations (add_relocation offset s t c loc a))"
proof -
  have "as_mode a = Sectioned"
  proof (rule ccontr)
    assume "as_mode a \<noteq> Sectioned"
    then have "as_diags a @ [d] = as_diags a \<or> False" for d
      using assms unfolding add_relocation_def add_error_def report_def by simp
    then show False by simp
  qed
  then show ?thesis by (simp add: add_relocation_def)
qed

lemma gather_memory:
  assumes "encode_memory st sh displaced operand (ob, ims) a = (Some (ob', ims'), a')"
    and "displaced \<longrightarrow> length ims < si_immediates sh \<and> 0 < si_immediate_bytes sh ! length ims \<and> si_immediate_bytes sh ! length ims \<le> 8"
  shows "ob' = ob @ [od_reg operand] \<and> od_kind operand = Memory \<and> a' = a \<and>
    (if displaced then \<exists>v. ims' = ims @ [(v, si_immediate_bytes sh ! length ims)] \<and>
        field_says a rels following offset (si_immediate_bytes sh ! length ims) MemDisp operand
          (take_bit (8 * si_immediate_bytes sh ! length ims) v)
     else ims' = ims)"
  using assms unfolding encode_memory_def Let_def
  by (auto simp: fail_with_None evaluate_Some immediate_width_def field_says_def fits_reads mult.commute [of _ 8]
      simp del: append_Cons append.simps split: if_splits prod.splits option.splits)


lemma gather_immediate:
  assumes "encode_immediate st sh operand (ob, ims) a = (Some (ob', ims'), a')"
    and "length ims < si_immediates sh" and "0 < si_immediate_bytes sh ! length ims" and "si_immediate_bytes sh ! length ims \<le> 8"
  shows "ob' = ob \<and> a' = a \<and> (\<exists>v. ims' = ims @ [(v, si_immediate_bytes sh ! length ims)] \<and>
    field_says a rels following offset (si_immediate_bytes sh ! length ims) Imm operand
      (take_bit (8 * si_immediate_bytes sh ! length ims) v))"
  using assms unfolding encode_immediate_def Let_def
  by (auto simp: fail_with_None evaluate_Some immediate_width_def field_says_def fits_reads mult.commute [of _ 8]
      simp del: append_Cons append.simps split: if_splits prod.splits option.splits)

lemma gather_absolute:
  assumes "encode_absolute st sh operand (ob, ims) a = (Some (ob', ims'), a')" and "as_diags a' = as_diags a"
    and "length ims < si_immediates sh" and "si_immediate_bytes sh ! length ims = 8"
    and "map snd ims = take (length ims) (si_immediate_bytes sh)"
  shows "ob' = ob \<and> (\<exists>v. ims' = ims @ [(v, 8)] \<and>
    field_says a (as_relocations a') following
      (st_address st + 1 + of_nat (si_operands sh) + of_nat (sum_list (take (length ims) (si_immediate_bytes sh))))
      8 ImmAbs operand (take_bit 64 v))"
proof -
  obtain v where v: "operand_value a (od_expression_text operand) = Some v" and ob: "ob' = ob"
    and im: "if is_relocatable v
      then ims' = ims @ [(0, 8)] \<and> a' = add_relocation (next_immediate_offset st sh ims) (ev_symbol v) R_MAIZE_ABS64 (ev_constant v) (st_where st) a
      else ims' = ims @ [(ev_constant v, 8)] \<and> a' = a"
    using assms(1,3,4) unfolding encode_absolute_def Let_def
    by (auto simp: fail_with_None evaluate_Some immediate_width_def
        simp del: append_Cons append.simps split: if_splits prod.splits option.splits)
  show ?thesis
  proof (cases "is_relocatable v")
    case True
    then have "a' = add_relocation (next_immediate_offset st sh ims) (ev_symbol v) R_MAIZE_ABS64 (ev_constant v) (st_where st) a"
      "ims' = ims @ [(0, 8)]" using im by simp_all
    with quiet_relocation [OF assms(2) [unfolded this(1)]] True v ob assms(5) show ?thesis
      by (simp add: field_says_def left_to_linker_def next_immediate_offset_def)
  next
    case False
    with im v ob show ?thesis by (simp add: field_says_def take_bit_word_beyond_length_eq)
  qed
qed

lemma gather_target:
  assumes "encode_target st sh operand (ob, ims) a = (Some (ob', ims'), a')" and "as_diags a' = as_diags a"
    and "length ims < si_immediates sh" and "si_immediate_bytes sh ! length ims = 4"
    and "map snd ims = take (length ims) (si_immediate_bytes sh)"
  shows "ob' = ob \<and> (\<exists>v. ims' = ims @ [(v, 4)] \<and> (plain_literals a [(Target, operand)] \<longrightarrow>
    field_says a (as_relocations a') (st_address st + of_nat (st_length st))
      (st_address st + 1 + of_nat (si_operands sh) + of_nat (sum_list (take (length ims) (si_immediate_bytes sh))))
      4 Target operand (take_bit 32 v)))"
proof -
  let ?lit = "target_is_literal_displacement (od_expression_text operand)"
    and ?next = "st_address st + of_nat (st_length st) :: u64"
  obtain v where v: "operand_value a (od_expression_text operand) = Some v" and ob: "ob' = ob"
    and im: "if ?lit then fits (ev_constant v) 32 \<and> ims' = ims @ [(ev_constant v, 4)] \<and> a' = a
      else (case target_address a v of
        None \<Rightarrow> ims' = ims @ [(0, 4)] \<and> a' = add_relocation (next_immediate_offset st sh ims) (ev_symbol v) R_MAIZE_REL32 (ev_constant v) (st_where st) a
      | Some t \<Rightarrow> ims' = ims @ [(of_int (sint t - sint ?next), 4)] \<and> - 2147483648 \<le> sint t - sint ?next \<and> sint t - sint ?next \<le> 2147483647)"
    using assms(1,3,4) unfolding encode_target_def Let_def
    by (auto simp: fail_with_None evaluate_Some immediate_width_def not_less
        simp del: append_Cons append.simps split: if_splits prod.splits option.splits)
  show ?thesis
  proof (cases ?lit)
    case True
    with im v ob fits_reads [of "ev_constant v" 4] show ?thesis by (simp add: field_says_def plain_literals_def)
  next
    case lit: False
    show ?thesis
    proof (cases "target_address a v")
      case None
      then have "a' = add_relocation (next_immediate_offset st sh ims) (ev_symbol v) R_MAIZE_REL32 (ev_constant v) (st_where st) a"
        "ims' = ims @ [(0, 4)]" using im lit by simp_all
      with quiet_relocation [OF assms(2) [unfolded this(1)]] lit None v ob assms(5) show ?thesis
        by (simp add: field_says_def left_to_linker_def next_immediate_offset_def)
    next
      case (Some t)
      let ?d = "sint t - sint ?next"
      have "ims' = ims @ [(of_int ?d, 4)]" "- (2 ^ 31) \<le> ?d" "?d < 2 ^ 31" using im lit Some by simp_all
      with distance_field [OF this(2,3)] distance_reaches [of ?next t] lit Some v ob show ?thesis
        by (simp add: field_says_def del: of_int_diff)
    qed
  qed
qed


lemma gather_operand:
  fixes st :: Statement
  defines "slots \<equiv> oi_slots (opcode_info (st_opcode st))" and "sh \<equiv> shape_info (oi_shape (opcode_info (st_opcode st)))"
  assumes "encode_operand st syn operand (ob, ims) a = (Some (ob', ims'), a')" and "as_diags a' = as_diags a"
    and "od_reg operand < 32" and "pattern_fits slots sh (length ob) (length ims) (syn # ss)"
    and "map snd ims = take (length ims) (si_immediate_bytes sh)"
  shows "(if operand_syn syn then \<exists>b. ob' = ob @ [b] \<and> (unat (operand_register b), unat (operand_form b)) = register_says operand \<and>
             form_is_legal (slots ! length ob) (operand_form b) else ob' = ob) \<and>
    (if immediate_syn syn then \<exists>v. ims' = ims @ [(v, si_immediate_bytes sh ! length ims)] \<and>
       (plain_literals a [(syn, operand)] \<longrightarrow>
        field_says a (as_relocations a') (st_address st + of_nat (st_length st)) (field_offset st (length ims))
          (si_immediate_bytes sh ! length ims) syn operand (take_bit (8 * si_immediate_bytes sh ! length ims) v))
     else ims' = ims)"
proof -
  have mem: "register_says operand = (unat (operand_register (od_reg operand)), 0) \<and> operand_form (od_reg operand) = 0"
    if "od_kind operand = Memory"
    using that register_byte [OF assms(5), of 0] by (simp add: register_says_def)
  note defs = encode_operand_def Let_def slots_def [symmetric] sh_def [symmetric]
  note facts = assms(3) [unfolded defs] assms(6)
  show ?thesis
  proof (cases syn)
    case Reg
    with facts encode_register_says [of "slots ! length ob" operand] assms(5) show ?thesis
      by (auto simp: operand_syn_def immediate_syn_def fail_with_None split: sum.splits)
  next
    case MemBare
    with facts gather_memory [of st sh False operand ob ims a ob' ims' a'] mem show ?thesis
      by (simp add: operand_syn_def immediate_syn_def)
  next
    case MemDisp
    with facts gather_memory [of st sh True operand ob ims a ob' ims' a'] mem show ?thesis
      by (simp add: operand_syn_def immediate_syn_def Let_def) blast
  next
    case Imm
    with facts gather_immediate [of st sh operand ob ims a ob' ims' a'] show ?thesis
      by (simp add: operand_syn_def immediate_syn_def Let_def) blast
  next
    case Target
    with facts gather_target [of st sh operand ob ims a ob' ims' a'] assms(4,7) show ?thesis
      by (simp add: operand_syn_def immediate_syn_def Let_def field_offset_def sh_def)
  next
    case ImmAbs
    with facts gather_absolute [of st sh operand ob ims a ob' ims' a'] assms(4,7) show ?thesis
      by (simp add: operand_syn_def immediate_syn_def Let_def field_offset_def sh_def) blast
  qed
qed

lemma field_says_reports:
  assumes "only_reports a a'"
  shows "field_says a' = field_says a"
proof -
  note f = only_reports_fields [OF assms]
  have "lookup_in_assembler a' = lookup_in_assembler a" by (rule ext) (simp add: lookup_in_assembler_def f)
  then have "operand_value a' = operand_value a" by (intro ext) (simp add: operand_value_def f)
  moreover have "target_address a' = target_address a" by (rule ext) (simp add: target_address_def f split: option.splits)
  moreover have "left_to_linker a' = left_to_linker a" by (intro ext) (simp add: left_to_linker_def f)
  ultimately show ?thesis by (intro ext) (simp only: field_says_def)
qed

lemma plain_literals_Cons:
  "plain_literals a (item # items) \<longleftrightarrow> plain_literals a [item] \<and> plain_literals a items"
  unfolding plain_literals_def by auto

lemma plain_literals_cong:
  assumes "as_symbols a' = as_symbols a" and "as_address a' = as_address a"
  shows "plain_literals a' items = plain_literals a items"
proof -
  have "lookup_in_assembler a' = lookup_in_assembler a" by (rule ext) (simp add: lookup_in_assembler_def assms)
  then have "operand_value a' = operand_value a" by (intro ext) (simp add: operand_value_def assms)
  then show ?thesis by (simp add: plain_literals_def)
qed

lemma says_reports: "only_reports a a' \<Longrightarrow> says a' rels st regs imms j k items = says a rels st regs imms j k items"
  by (induction items arbitrary: j k) (auto simp: field_says_reports Let_def)

lemma field_says_more:
  assumes "field_says a rels following offset w syn operand field" and "set rels \<subseteq> set rels'"
  shows "field_says a rels' following offset w syn operand field"
  using assms unfolding field_says_def left_to_linker_def
  by (auto split: option.splits Syn.splits if_splits)

lemma encode_operands_reports: "encode_operands st items g a = (r, a') \<Longrightarrow> only_reports a a'"
proof (induction items arbitrary: g a)
  case (Cons item items)
  obtain syn operand where item: "item = (syn, operand)" by (cases item)
  obtain g1 a1 where e: "encode_operand st syn operand g a = (g1, a1)" by (cases "encode_operand st syn operand g a")
  from Cons e item show ?case
    by (cases g1) (auto intro: only_reports_trans [OF encode_operand_reports [OF e]] encode_operand_reports)
qed simp

lemma encode_operand_fail: "encode_operand st syn operand g a = (None, a') \<Longrightarrow> as_diags a' \<noteq> as_diags a"
  unfolding encode_operand_def encode_memory_def encode_immediate_def encode_absolute_def encode_target_def Let_def
  by (cases g; cases syn)
     (auto simp: fail_with_None evaluate_Some evaluate_fail add_error_diags simp del: append_Cons append.simps
      split: sum.splits if_splits prod.splits option.splits)

lemma encode_operands_fail: "encode_operands st items g a = (None, a') \<Longrightarrow> as_diags a' \<noteq> as_diags a"
proof (induction items arbitrary: g a)
  case (Cons item items)
  obtain syn operand where item: "item = (syn, operand)" by (cases item)
  obtain g1 a1 where e: "encode_operand st syn operand g a = (g1, a1)" by (cases "encode_operand st syn operand g a")
  show ?case
  proof (cases g1)
    case None
    then show ?thesis using Cons.prems e item encode_operand_fail by auto
  next
    case (Some g')
    then have es: "encode_operands st items g' a1 = (None, a')" using Cons.prems e item by simp
    from quiet_between [OF encode_operand_reports [OF e] encode_operands_reports [OF es]] Cons.IH [OF es]
    show ?thesis by auto
  qed
qed simp

lemma gather_operands:
  fixes st :: Statement
  defines "slots \<equiv> oi_slots (opcode_info (st_opcode st))" and "sh \<equiv> shape_info (oi_shape (opcode_info (st_opcode st)))"
  defines "regs \<equiv> \<lambda>bs j. (unat (operand_register (bs ! j)), unat (operand_form (bs ! j)))"
    and "imms \<equiv> \<lambda>vs k. take_bit (8 * snd (vs ! k)) (fst (vs ! k))"
  assumes "encode_operands st items (ob, ims) a = (Some (ob', ims'), a')" and "as_diags a' = as_diags a"
    and "\<forall>(s, operand) \<in> set items. od_reg operand < 32"
    and "pattern_fits slots sh (length ob) (length ims) (map fst items)"
    and "map snd ims = take (length ims) (si_immediate_bytes sh)"
  shows "\<exists>bs vs. ob' = ob @ bs \<and> ims' = ims @ vs \<and> length ob' = si_operands sh \<and> length ims' = si_immediates sh \<and>
    map snd ims' = take (length ims') (si_immediate_bytes sh) \<and>
    (\<forall>j. length ob \<le> j \<and> j < length ob' \<longrightarrow> form_is_legal (slots ! j) (operand_form (ob' ! j))) \<and>
    (plain_literals a items \<longrightarrow>
     says a (as_relocations a') st (regs ob') (imms ims') (length ob) (length ims) items)"
  using assms(5-)
proof (induction items arbitrary: ob ims a)
  case Nil
  then show ?case by auto
next
  case (Cons item items)
  obtain syn operand where item: "item = (syn, operand)" by (cases item)
  obtain ob1 ims1 a1 where e: "encode_operand st syn operand (ob, ims) a = (Some (ob1, ims1), a1)"
    and es: "encode_operands st items (ob1, ims1) a1 = (Some (ob', ims'), a')"
    using Cons.prems(1) item by (auto split: prod.splits option.splits)
  have r1: "only_reports a a1" using e by (rule encode_operand_reports)
  have r2: "only_reports a1 a'" using es by (rule encode_operands_reports)
  have d: "as_diags a1 = as_diags a" "as_diags a' = as_diags a1"
    using quiet_between [OF r1 r2 Cons.prems(2)] Cons.prems(2) by simp_all
  obtain rs where rs: "as_relocations a' = as_relocations a1 @ rs" using only_reports_fields(10) [OF r2] by blast
  have fit: "pattern_fits slots sh (length ob) (length ims) (syn # map fst items)" using Cons.prems(4) item by simp
  have "od_reg operand < 32" using Cons.prems(3) item by simp
  note g = gather_operand [OF e d(1) this fit [unfolded slots_def sh_def] Cons.prems(5) [unfolded sh_def], folded slots_def sh_def]
  let ?w = "si_immediate_bytes sh ! length ims"
  have n2: "si_immediates sh \<le> 2" "length (si_immediate_bytes sh) = 2" unfolding sh_def by (simp_all add: shape_immediates_le_2)
  have l1: "length ob1 = (if operand_syn syn then Suc (length ob) else length ob)"
    "length ims1 = (if immediate_syn syn then Suc (length ims) else length ims)" using g by (auto split: if_splits)
  have "map snd ims1 = take (length ims1) (si_immediate_bytes sh)"
    using g Cons.prems(5) fit n2 by (auto split: if_splits simp: take_Suc_conv_app_nth)
  note s1 = this
  have p3: "\<forall>(s, operand) \<in> set items. od_reg operand < 32" using Cons.prems(3) by simp
  have fit1: "pattern_fits slots sh (length ob1) (length ims1) (map fst items)" using fit l1 by simp
  from Cons.IH [OF es d(2) p3 fit1 s1] obtain bs vs
    where ih: "ob' = ob1 @ bs" "ims' = ims1 @ vs" "length ob' = si_operands sh" "length ims' = si_immediates sh"
      "map snd ims' = take (length ims') (si_immediate_bytes sh)"
      "\<forall>j. length ob1 \<le> j \<and> j < length ob' \<longrightarrow> form_is_legal (slots ! j) (operand_form (ob' ! j))"
      "plain_literals a1 items \<longrightarrow> says a1 (as_relocations a') st (regs ob') (imms ims') (length ob1) (length ims1) items"
    by blast
  have head: "(operand_syn syn \<longrightarrow> regs ob' (length ob) = register_says operand) \<and>
    (operand_syn syn \<longrightarrow> form_is_legal (slots ! length ob) (operand_form (ob' ! length ob)))"
    using g ih(1) by (auto simp: regs_def nth_append)
  have lits: "plain_literals a1 items = plain_literals a items"
    using only_reports_fields(1,2) [OF r1] by (rule plain_literals_cong)
  have field: "immediate_syn syn \<longrightarrow> plain_literals a [item] \<longrightarrow> field_says a (as_relocations a') (st_address st + of_nat (st_length st))
      (field_offset st (length ims)) ?w syn operand (imms ims' (length ims))"
  proof (intro impI)
    assume "immediate_syn syn" and "plain_literals a [item]"
    with g item obtain v where "ims1 = ims @ [(v, ?w)]" and v: "field_says a (as_relocations a1) (st_address st + of_nat (st_length st))
      (field_offset st (length ims)) ?w syn operand (take_bit (8 * ?w) v)" by auto
    then have "ims' ! length ims = (v, ?w)" using ih(2) by (simp add: nth_append)
    then show "field_says a (as_relocations a') (st_address st + of_nat (st_length st))
      (field_offset st (length ims)) ?w syn operand (imms ims' (length ims))"
      using field_says_more [OF v, of "as_relocations a'"] rs by (simp add: imms_def)
  qed
  have rest: "plain_literals a items \<longrightarrow> says a (as_relocations a') st (regs ob') (imms ims') (length ob1) (length ims1) items"
    using ih(7) says_reports [OF r1] lits by simp
  have legal: "\<forall>j. length ob \<le> j \<and> j < length ob' \<longrightarrow> form_is_legal (slots ! j) (operand_form (ob' ! j))"
  proof (intro allI impI)
    fix j assume j: "length ob \<le> j \<and> j < length ob'"
    show "form_is_legal (slots ! j) (operand_form (ob' ! j))"
    proof (cases "length ob1 \<le> j")
      case False
      then have "operand_syn syn \<and> j = length ob" using j l1(1) by (auto split: if_splits)
      then show ?thesis using head by simp
    qed (use ih(6) j in blast)
  qed
  have "\<exists>bs. ob1 = ob @ bs" "\<exists>vs. ims1 = ims @ vs" using g by (auto split: if_splits)
  then obtain bs0 vs0 where "ob1 = ob @ bs0" "ims1 = ims @ vs0" by blast
  moreover have "plain_literals a (item # items) \<longrightarrow>
      says a (as_relocations a') st (regs ob') (imms ims') (length ob) (length ims) (item # items)"
    using head field rest l1 plain_literals_Cons [of a item items] by (simp add: item Let_def sh_def)
  ultimately show ?case using ih(1-5) legal by (intro exI [of _ "bs0 @ bs"] exI [of _ "vs0 @ vs"]) simp
qed


section \<open>What is emitted\<close>

definition immediate_bytes :: "u64 \<times> nat \<Rightarrow> u8 list" where
  "immediate_bytes vn = map (\<lambda>i. ucast (drop_bit (8 * i) (fst vn))) [0..<snd vn]"

lemma emit_immediate_bytes: "emit_immediate v n a = emit_bytes (immediate_bytes (v, n)) a"
proof -
  have "ucast (w AND 0xFF) = (ucast w :: u8)" for w :: u64
  proof (rule bit_word_eqI)
    fix k assume "k < LENGTH(8)"
    moreover have "bit (0xFF :: u64) k" if "k < 8"
      using that bit_mask_iff [of 8 k, where 'a = u64] by (simp add: mask_eq_exp_minus_1)
    ultimately show "bit (ucast (w AND 0xFF) :: u8) k = bit (ucast w :: u8) k"
      by (auto simp: bit_simps)
  qed
  then show ?thesis
    by (simp add: emit_immediate_def emit_bytes_def immediate_bytes_def fold_map comp_def)
qed

lemma emit_bytes_append: "emit_bytes (xs @ ys) a = emit_bytes ys (emit_bytes xs a)"
  by (simp add: emit_bytes_def)

lemma emit_immediates: "fold (\<lambda>(v, n). emit_immediate v n) ims a = emit_bytes (concat (map immediate_bytes ims)) a"
  by (induction ims arbitrary: a) (auto simp: emit_immediate_bytes emit_bytes_append emit_bytes_def)

definition encoding :: "u8 \<Rightarrow> u8 list \<Rightarrow> (u64 \<times> nat) list \<Rightarrow> u8 list" where
  "encoding opcode ob ims = opcode # ob @ concat (map immediate_bytes ims)"

lemma length_concat_immediates: "length (concat (map immediate_bytes ims)) = sum_list (map snd ims)"
  by (induction ims) (auto simp: immediate_bytes_def)

text \<open>The byte \<open>t\<close> of the immediate \<open>k\<close> in the concatenation of all of them.\<close>

lemma nth_concat_immediates:
  "k < length ims \<Longrightarrow> t < snd (ims ! k) \<Longrightarrow>
   concat (map immediate_bytes ims) ! (sum_list (map snd (take k ims)) + t) = ucast (drop_bit (8 * t) (fst (ims ! k)))"
proof (induction ims arbitrary: k)
  case (Cons x ims)
  show ?case
  proof (cases k)
    case 0
    then show ?thesis using Cons.prems by (simp add: nth_append immediate_bytes_def)
  next
    case (Suc k')
    then show ?thesis using Cons by (simp add: nth_append immediate_bytes_def add.assoc)
  qed
qed simp

lemma emit_byte_keeps [simp]:
  "as_diags (emit_byte b a) = as_diags a" "as_relocations (emit_byte b a) = as_relocations a"
  "as_symbols (emit_byte b a) = as_symbols a" "as_mode (emit_byte b a) = as_mode a"
  "as_current_section (emit_byte b a) = as_current_section a" "as_second_pass (emit_byte b a) = as_second_pass a"
  "as_flat_base (emit_byte b a) = as_flat_base a" "as_statements (emit_byte b a) = as_statements a"
  "as_address (emit_byte b a) = as_address a + 1"
  unfolding emit_byte_def Let_def by (simp_all split: if_split)

lemma emit_bytes_keeps [simp]:
  "as_diags (emit_bytes bs a) = as_diags a" "as_relocations (emit_bytes bs a) = as_relocations a"
  "as_symbols (emit_bytes bs a) = as_symbols a" "as_mode (emit_bytes bs a) = as_mode a"
  "as_current_section (emit_bytes bs a) = as_current_section a" "as_second_pass (emit_bytes bs a) = as_second_pass a"
  "as_flat_base (emit_bytes bs a) = as_flat_base a" "as_statements (emit_bytes bs a) = as_statements a"
  "as_address (emit_bytes bs a) = as_address a + of_nat (length bs)"
  unfolding emit_bytes_def by (induction bs arbitrary: a) simp_all

text \<open>A statement that adds no diagnostic has emitted an encoding that says what its operands say.\<close>

lemma encode_instruction_emits:
  fixes st :: Statement
  defines "info \<equiv> opcode_info (st_opcode st)" and "sh \<equiv> shape_info (oi_shape (opcode_info (st_opcode st)))"
  assumes "as_diags (encode_instruction st a) = as_diags a" and "oi_kind info = Assigned"
    and "\<forall>operand \<in> set (st_operands st). od_reg operand < 32"
  shows "\<exists>ob ims a'. encode_instruction st a = emit_bytes (encoding (st_opcode st) ob ims) a' \<and> only_reports a a' \<and>
    length ob = si_operands sh \<and> map snd ims = take (si_immediates sh) (si_immediate_bytes sh) \<and>
    length (st_operands st) = length (pattern_for (st_opcode st)) \<and>
    (\<forall>j < length ob. form_is_legal (oi_slots info ! j) (operand_form (ob ! j))) \<and>
    (plain_literals a (zip (pattern_for (st_opcode st)) (st_operands st)) \<longrightarrow>
     says a (as_relocations a') st (\<lambda>j. (unat (operand_register (ob ! j)), unat (operand_form (ob ! j))))
      (\<lambda>k. take_bit (8 * snd (ims ! k)) (fst (ims ! k))) 0 0 (zip (pattern_for (st_opcode st)) (st_operands st)))"
proof -
  let ?pattern = "pattern_for (st_opcode st)"
  have n: "length (st_operands st) = length ?pattern"
    using assms(3) unfolding encode_instruction_def Let_def by (auto split: if_splits simp: add_error_diags simp del: append_Cons append.simps)
  let ?items = "zip ?pattern (st_operands st)"
  obtain r a' where e: "encode_operands st ?items ([], []) a = (r, a')" by (cases "encode_operands st ?items ([], []) a")
  have rep: "only_reports a a'" using e by (rule encode_operands_reports)
  have "r \<noteq> None"
  proof
    assume "r = None"
    then have "as_diags a' = as_diags a" using assms(3) e n by (simp add: encode_instruction_def)
    moreover have "as_diags a' \<noteq> as_diags a" using encode_operands_fail e \<open>r = None\<close> by blast
    ultimately show False by contradiction
  qed
  then obtain ob ims where r: "r = Some (ob, ims)" by auto
  have enc: "encode_instruction st a =
      (if length ob \<noteq> si_operands sh \<or> length ims \<noteq> si_immediates sh then
         add_error (st_where st) (''internal: the assembly form of '' @ quoted (st_name st) @
           '' does not match the shape its opcode declares'') a'
       else emit_bytes (encoding (st_opcode st) ob ims) a')"
    unfolding encode_instruction_def Let_def n e r prod.case option.case sh_def [symmetric] emit_immediates
    by (simp add: encoding_def emit_bytes_def)
  have diags: "as_diags a' = as_diags a"
  proof (cases "length ob \<noteq> si_operands sh \<or> length ims \<noteq> si_immediates sh")
    case True
    obtain ds where "as_diags a' = as_diags a @ ds" using only_reports_fields(9) [OF rep] by blast
    then show ?thesis using assms(3) True unfolding enc by (simp add: add_error_def report_def)
  qed (use assms(3) enc in simp)
  have "pattern_fits (oi_slots info) sh 0 0 (map fst ?items)"
    using pattern_for_fits [of "st_opcode st"] assms(4) n by (simp add: info_def sh_def)
  moreover have "\<forall>(s, operand) \<in> set ?items. od_reg operand < 32" using assms(5) by (auto dest: set_zip_rightD)
  ultimately have g: "length ob = si_operands sh \<and> length ims = si_immediates sh \<and>
      map snd ims = take (length ims) (si_immediate_bytes sh) \<and>
      (\<forall>j. 0 \<le> j \<and> j < length ob \<longrightarrow> form_is_legal (oi_slots info ! j) (operand_form (ob ! j))) \<and>
      (plain_literals a ?items \<longrightarrow>
       says a (as_relocations a') st (\<lambda>j. (unat (operand_register (ob ! j)), unat (operand_form (ob ! j))))
        (\<lambda>k. take_bit (8 * snd (ims ! k)) (fst (ims ! k))) 0 0 ?items)"
    using gather_operands [OF e [unfolded r] diags] by (simp add: info_def sh_def)
  then show ?thesis using enc rep n by (intro exI [of _ ob] exI [of _ ims] exI [of _ a']) simp
qed

section \<open>Encodings decode\<close>

lemma says_cong:
  fixes st :: Statement
  defines "sh \<equiv> shape_info (oi_shape (opcode_info (st_opcode st)))"
  assumes "pattern_fits slots sh j k (map fst items)"
    and "\<And>j. j < si_operands sh \<Longrightarrow> regs j = regs' j" and "\<And>k. k < si_immediates sh \<Longrightarrow> imms k = imms' k"
  shows "says a rels st regs imms j k items = says a rels st regs' imms' j k items"
  using assms(2)
proof (induction items arbitrary: j k)
  case (Cons item items)
  obtain syn operand where item: "item = (syn, operand)" by (cases item)
  have "operand_syn syn \<Longrightarrow> j < si_operands sh" "immediate_syn syn \<Longrightarrow> k < si_immediates sh"
    using Cons.prems item by (auto simp: Let_def)
  moreover have "says a rels st regs imms (if operand_syn syn then Suc j else j) (if immediate_syn syn then Suc k else k) items =
      says a rels st regs' imms' (if operand_syn syn then Suc j else j) (if immediate_syn syn then Suc k else k) items"
    using Cons.prems item by (intro Cons.IH) simp
  ultimately show ?case by (auto simp: item Let_def assms(3,4) simp del: if_split)
qed simp

lemma length_encoding:
  fixes opcode :: u8
  defines "sh \<equiv> shape_info (oi_shape (opcode_info opcode))"
  assumes "oi_kind (opcode_info opcode) = Assigned" and "length ob = si_operands sh"
    and "map snd ims = take (si_immediates sh) (si_immediate_bytes sh)"
  shows "length (encoding opcode ob ims) = oi_length (opcode_info opcode)"
proof -
  have "wf_opcode_info (opcode_info opcode)" by (rule wf_opcode_info_opcode_info)
  then show ?thesis using assms by (simp add: encoding_def length_concat_immediates wf_opcode_info_def Let_def)
qed

lemma encoding_decodes:
  fixes opcode :: u8
  defines "i \<equiv> opcode_info opcode"
  defines "sh \<equiv> shape_info (oi_shape i)"
  assumes "oi_kind i = Assigned" and "length ob = si_operands sh"
    and "map snd ims = take (si_immediates sh) (si_immediate_bytes sh)"
    and "\<forall>j < length ob. form_is_legal (oi_slots i ! j) (operand_form (ob ! j))"
    and "\<forall>t < oi_length i. fetch_spec m root level (pc + of_nat t) = Inr (encoding opcode ob ims ! t)"
  shows "\<exists>d. decode_spec m root level pc = Inr d \<and> d_opcode d = opcode \<and> d_pc d = pc \<and>
    (\<forall>j < si_operands sh. (d_reg d ! j, d_form d ! j) = (unat (operand_register (ob ! j)), unat (operand_form (ob ! j)))) \<and>
    (\<forall>k < si_immediates sh. d_immediate d ! k = take_bit (8 * snd (ims ! k)) (fst (ims ! k)))"
proof -
  let ?ws = "si_immediate_bytes sh" and ?bytes = "concat (map immediate_bytes ims)"
  have n2: "si_immediates sh \<le> 2" "length ?ws = 2" unfolding sh_def by (simp_all add: shape_immediates_le_2)
  then have li: "length ims = si_immediates sh" using arg_cong [OF assms(5), of length] by simp
  have lb: "length ?bytes = sum_list (take (si_immediates sh) ?ws)"
    using length_concat_immediates [of ims] assms(5) by simp
  have "length (opcode # ob @ ?bytes) = oi_length i"
    using length_encoding [of opcode ob ims] assms by (simp add: encoding_def)
  then have f: "\<forall>t < length (opcode # ob @ ?bytes). fetch_spec m root level (pc + of_nat t) = Inr ((opcode # ob @ ?bytes) ! t)"
    using assms(7) unfolding encoding_def by simp
  obtain d where d: "decode_spec m root level pc = Inr d" "d_opcode d = opcode" "d_pc d = pc"
    "\<forall>j < si_operands sh. d_reg d ! j = unat (operand_register (ob ! j)) \<and> d_form d ! j = unat (operand_form (ob ! j))"
    "\<forall>k < si_immediates sh. d_immediate d ! k =
       le_value (\<lambda>t. ?bytes ! (sum_list (map (nth ?ws) [0..<k]) + t)) (?ws ! k)"
    using decode_spec_bytes [OF assms(3) [unfolded i_def] assms(4) [unfolded sh_def i_def] lb [unfolded sh_def i_def]
        assms(6) [unfolded i_def] f] unfolding sh_def i_def by blast
  have "d_immediate d ! k = take_bit (8 * snd (ims ! k)) (fst (ims ! k))" if k: "k < si_immediates sh" for k
  proof -
    have w: "snd (ims ! k) = ?ws ! k" using assms(5) k li n2 by (metis nth_map nth_take)
    have "map (nth ?ws) [0..<k] = take k ?ws" using k n2 by (intro nth_equalityI) auto
    also have "\<dots> = take k (take (si_immediates sh) ?ws)" using k by (simp add: min_def)
    also have "\<dots> = map snd (take k ims)" unfolding assms(5) [symmetric] by (simp add: take_map)
    finally have p: "map (nth ?ws) [0..<k] = map snd (take k ims)" .
    have le8: "?ws ! k \<le> 8" using shape_immediate_bytes_le_8 k unfolding sh_def by blast
    have "d_immediate d ! k = le_value (\<lambda>t. ?bytes ! (sum_list (map snd (take k ims)) + t)) (?ws ! k)"
      using d(5) k p by simp
    also have "\<dots> = le_value (\<lambda>t. ucast (drop_bit (t * 8) (fst (ims ! k)))) (?ws ! k)"
      using nth_concat_immediates [of k ims] w k li by (intro le_value_cong) (simp add: mult.commute)
    also have "\<dots> = take_bit (8 * (?ws ! k)) (fst (ims ! k))" using le8 by (rule le_value_bytes)
    finally show ?thesis using w by simp
  qed
  with d show ?thesis by (intro exI [of _ d]) simp
qed


text \<open>A decoded instruction says what a statement says, as it stands in the assembler \<open>a\<close>.\<close>

definition decoded_says :: "Assembler \<Rightarrow> Relocation list \<Rightarrow> Statement \<Rightarrow> DecodedV2 \<Rightarrow> bool" where
  "decoded_says a rels st d \<longleftrightarrow>
     d_opcode d = st_opcode st \<and> d_pc d = st_address st \<and>
     length (st_operands st) = length (pattern_for (st_opcode st)) \<and>
     says a rels st (\<lambda>j. (d_reg d ! j, d_form d ! j)) (\<lambda>k. d_immediate d ! k) 0 0
       (zip (pattern_for (st_opcode st)) (st_operands st))"

lemma encoded_instruction_decodes:
  assumes "as_diags (encode_instruction st a) = as_diags a" and "oi_kind (opcode_info (st_opcode st)) = Assigned"
    and "\<forall>operand \<in> set (st_operands st). od_reg operand < 32"
  shows "\<exists>bs a'. encode_instruction st a = emit_bytes bs a' \<and> only_reports a a' \<and>
    length bs = oi_length (opcode_info (st_opcode st)) \<and>
    (plain_literals a (zip (pattern_for (st_opcode st)) (st_operands st)) \<longrightarrow>
     (\<forall>m root level. (\<forall>t < length bs. fetch_spec m root level (st_address st + of_nat t) = Inr (bs ! t)) \<longrightarrow>
       (\<exists>d. decode_spec m root level (st_address st) = Inr d \<and> decoded_says a (as_relocations a') st d)))"
proof -
  let ?sh = "shape_info (oi_shape (opcode_info (st_opcode st)))" and ?items = "zip (pattern_for (st_opcode st)) (st_operands st)"
  obtain ob ims a' where e: "encode_instruction st a = emit_bytes (encoding (st_opcode st) ob ims) a'" "only_reports a a'"
    "length ob = si_operands ?sh" "map snd ims = take (si_immediates ?sh) (si_immediate_bytes ?sh)"
    "length (st_operands st) = length (pattern_for (st_opcode st))"
    "\<forall>j < length ob. form_is_legal (oi_slots (opcode_info (st_opcode st)) ! j) (operand_form (ob ! j))"
    "plain_literals a ?items \<longrightarrow>
     says a (as_relocations a') st (\<lambda>j. (unat (operand_register (ob ! j)), unat (operand_form (ob ! j))))
      (\<lambda>k. take_bit (8 * snd (ims ! k)) (fst (ims ! k))) 0 0 ?items"
    using encode_instruction_emits [OF assms] by blast
  let ?bs = "encoding (st_opcode st) ob ims"
  have len: "length ?bs = oi_length (opcode_info (st_opcode st))" using assms(2) e(3,4) by (rule length_encoding)
  have fit: "pattern_fits (oi_slots (opcode_info (st_opcode st))) ?sh 0 0 (map fst ?items)"
    using pattern_for_fits [OF assms(2)] e(5) by simp
  have "\<exists>d. decode_spec m root level (st_address st) = Inr d \<and> decoded_says a (as_relocations a') st d"
    if lits: "plain_literals a ?items" and f: "\<forall>t < length ?bs. fetch_spec m root level (st_address st + of_nat t) = Inr (?bs ! t)" for m root level
  proof -
    obtain d where d: "decode_spec m root level (st_address st) = Inr d" "d_opcode d = st_opcode st" "d_pc d = st_address st"
      "\<forall>j < si_operands ?sh. (d_reg d ! j, d_form d ! j) = (unat (operand_register (ob ! j)), unat (operand_form (ob ! j)))"
      "\<forall>k < si_immediates ?sh. d_immediate d ! k = take_bit (8 * snd (ims ! k)) (fst (ims ! k))"
      using encoding_decodes [OF assms(2) e(3,4,6) f [unfolded len]] by blast
    have "says a (as_relocations a') st (\<lambda>j. (d_reg d ! j, d_form d ! j)) (\<lambda>k. d_immediate d ! k) 0 0 ?items"
      by (rule says_cong [OF fit, THEN iffD2, OF _ _ mp [OF e(7) lits]]) (use d(4,5) in blast)+
    then show ?thesis using d(1-3) e(5) by (simp add: decoded_says_def)
  qed
  then show ?thesis using e(1,2) len by blast
qed

end
