(* ===== verification/Expression_Settling.thy ===== *)
theory Expression_Settling
  imports Expressions
begin

text \<open>
  The evaluator of \<^verbatim>\<open>src/v2/mzasm_lexer.cpp\<close> over a growing symbol table: an expression that has a constant
  value in the first pass has the same value in the second.
\<close>

section \<open>Expressions while symbols are being defined\<close>

text \<open>
  A value that names a symbol with no definition yet can only end as such a value or as a
  diagnostic.  So an expression that had a value without one keeps it when more symbols are defined.
\<close>

definition pending_value :: "LookupBinding \<Rightarrow> ExprValue \<Rightarrow> bool" where
  "pending_value b v \<longleftrightarrow>
     is_relocatable v \<and> (case lb_lookup b of None \<Rightarrow> True | Some query \<Rightarrow> \<not> sq_defined (query (ev_symbol v)))"

definition settled_by :: "LookupBinding \<Rightarrow> LookupBinding \<Rightarrow> bool" where
  "settled_by b b' \<longleftrightarrow>
     (\<exists>query query'. lb_lookup b = Some query \<and> lb_lookup b' = Some query' \<and>
       (\<forall>name. (sq_defined (query name) \<longrightarrow> query' name = query name) \<and>
               (sq_is_constant (query name) \<longrightarrow> sq_defined (query name)))) \<and>
     lb_here b' = lb_here b"

definition settles :: "(ExprValue \<Rightarrow> bool) \<Rightarrow> parser \<Rightarrow> parser \<Rightarrow> bool" where
  "settles p old new \<longleftrightarrow> (\<forall>inp v rest. old inp = Inr (v, rest) \<longrightarrow> \<not> p v \<longrightarrow> new inp = Inr (v, rest))"

lemma settles_level:
  assumes "settles p old new"
    and "\<And>name out rhs v. comb name out rhs = Inr v \<Longrightarrow> \<not> p v \<Longrightarrow> \<not> p out \<and> \<not> p rhs \<and> comb' name out rhs = Inr v"
  shows "settles p (binary_level operators comb old) (binary_level operators comb' new)"
proof -
  have loop: "\<not> p out \<and> binary_loop operators comb' new n out inp = Inr (v, rest)"
    if "binary_loop operators comb old n out inp = Inr (v, rest)" "\<not> p v" for n out inp v rest
    using that
  proof (induction n arbitrary: out inp)
    case (Suc n)
    show ?case
    proof (cases "find (\<lambda>o'. take (length o') inp = o') operators")
      case None
      with Suc.prems show ?thesis by simp
    next
      case (Some name)
      with Suc.prems(1) obtain rhs inp' out' where s: "old (drop (length name) inp) = Inr (rhs, inp')"
        "comb name out rhs = Inr out'" "binary_loop operators comb old n out' inp' = Inr (v, rest)"
        by (auto split: sum.splits prod.splits)
      have o': "\<not> p out'" "binary_loop operators comb' new n out' inp' = Inr (v, rest)"
        using Suc.IH [OF s(3) Suc.prems(2)] by simp_all
      have c: "\<not> p out" "\<not> p rhs" "comb' name out rhs = Inr out'" using assms(2) [OF s(2) o'(1)] by simp_all
      have "new (drop (length name) inp) = Inr (rhs, inp')" using assms(1) s(1) c(2) by (simp add: settles_def)
      then show ?thesis using Some c(1,3) o'(2) by simp
    qed
  qed simp
  show ?thesis
    unfolding settles_def
  proof (intro allI impI)
    fix inp v rest assume "binary_level operators comb old inp = Inr (v, rest)" and v: "\<not> p v"
    then obtain out inp' where s: "old inp = Inr (out, inp')" "binary_loop operators comb old (length inp') out inp' = Inr (v, rest)"
      by (auto simp: binary_level_def split: sum.splits prod.splits)
    note l = loop [OF s(2) v]
    then have "new inp = Inr (out, inp')" using assms(1) s(1) by (simp add: settles_def)
    then show "binary_level operators comb' new inp = Inr (v, rest)" using l by (simp add: binary_level_def)
  qed
qed

lemma require_constant_None: "require_constant v operation = None \<longleftrightarrow> \<not> is_relocatable v"
  by (simp add: require_constant_def del: append_Cons append.simps)

lemma on_constants_settles:
  assumes "on_constants name f out rhs = Inr v"
  shows "\<not> pending_value b out \<and> \<not> pending_value b rhs \<and> on_constants name f out rhs = Inr v"
proof -
  have "require_constant out name = None" "require_constant rhs name = None"
    using assms by (auto simp: on_constants_def split: option.splits)
  then show ?thesis using assms by (simp add: require_constant_None pending_value_def)
qed

lemma combine_additive_settles:
  assumes "settled_by b b'" and "combine_additive b subtract out rhs = Inr v" and "\<not> pending_value b v"
  shows "\<not> pending_value b out \<and> \<not> pending_value b rhs \<and> combine_additive b' subtract out rhs = Inr v"
proof -
  obtain l l' where l: "lb_lookup b = Some l" "lb_lookup b' = Some l'" "\<And>name. sq_defined (l name) \<Longrightarrow> l' name = l name"
    using assms(1) unfolding settled_by_def by blast
  show ?thesis
  proof (cases "is_relocatable rhs \<and> is_relocatable out")
    case True
    then have "fold_symbol_difference b out rhs = Inr v" using assms(2) by (auto simp: combine_additive_def split: if_splits)
    then have "sq_defined (l (ev_symbol out))" "sq_defined (l (ev_symbol rhs))"
      using l(1) by (auto simp: fold_symbol_difference_def Let_def split: if_splits)
    moreover from this have "fold_symbol_difference b' out rhs = fold_symbol_difference b out rhs"
      using l by (simp add: fold_symbol_difference_def)
    ultimately show ?thesis using assms(2) True l by (auto simp: combine_additive_def pending_value_def split: if_splits)
  next
    case False
    then show ?thesis
      using assms(2,3) l(1) by (auto simp: combine_additive_def pending_value_def is_relocatable_def split: if_splits)
  qed
qed

lemma settles_levels:
  assumes "settled_by b b'" and "settles (pending_value b) u u'"
  shows "settles (pending_value b) (parse_or b u) (parse_or b' u')"
  unfolding parse_or_def parse_xor_def parse_and_def parse_shift_def parse_additive_def parse_multiplicative_def
  using assms(2) on_constants_settles combine_additive_settles [OF assms(1)]
  by (intro settles_level) blast+

lemma parse_symbol_settles:
  assumes "settled_by b b'" and "parse_symbol b name = Inr v" and "\<not> pending_value b v" and "name \<noteq> []"
  shows "parse_symbol b' name = Inr v"
proof -
  obtain l l' where l: "lb_lookup b = Some l" "lb_lookup b' = Some l'" "\<And>name. sq_defined (l name) \<Longrightarrow> l' name = l name"
    "\<And>name. sq_is_constant (l name) \<Longrightarrow> sq_defined (l name)" and h: "lb_here b' = lb_here b"
    using assms(1) unfolding settled_by_def by blast
  show ?thesis
  proof (cases "name = ''here''")
    case True
    then show ?thesis using assms(2) h by (simp add: parse_symbol_def)
  next
    case False
    have "sq_defined (l name)"
    proof (cases "sq_is_constant (l name)")
      case notc: False
      then have "v = \<lparr>ev_constant = 0, ev_symbol = name\<rparr>"
        using assms(2) False l(1) unfolding parse_symbol_def Let_def by (auto split: if_splits simp del: append_Cons append.simps)
      then show ?thesis using assms(3,4) l(1) by (simp add: pending_value_def is_relocatable_def)
    qed (rule l(4))
    then have "l' name = l name" by (rule l(3))
    then have "parse_symbol b' name = parse_symbol b name" unfolding parse_symbol_def l(1,2) option.case h by (rule arg_cong)
    then show ?thesis using assms(2) by simp
  qed
qed

lemma parse_primary_literal:
  assumes "c \<noteq> CHR ''(''" and "c = CHR ''#'' \<or> c = CHR ''$'' \<or> c = CHR ''%'' \<or> c = quote \<or> isdigit c \<or> \<not> (isalpha c \<or> c = CHR ''_'')"
  shows "parse_primary b e (c # cs) = parse_primary b' e' (c # cs)"
proof -
  consider "c = CHR ''#'' \<or> c = CHR ''$'' \<or> c = CHR ''%''"
    | "\<not> (c = CHR ''#'' \<or> c = CHR ''$'' \<or> c = CHR ''%'')" "c = quote"
    | "\<not> (c = CHR ''#'' \<or> c = CHR ''$'' \<or> c = CHR ''%'')" "c \<noteq> quote" "isdigit c"
    | "\<not> (c = CHR ''#'' \<or> c = CHR ''$'' \<or> c = CHR ''%'')" "c \<noteq> quote" "\<not> isdigit c" "\<not> (isalpha c \<or> c = CHR ''_'')"
    using assms(2) by blast
  then show ?thesis
  proof cases
    case 2
    then show ?thesis by (simp add: parse_primary_def)
  qed (simp_all only: parse_primary_def list.case assms(1) if_True if_False)
qed

lemma parse_primary_name:
  assumes "c \<noteq> CHR ''(''" and "\<not> (c = CHR ''#'' \<or> c = CHR ''$'' \<or> c = CHR ''%'' \<or> c = quote \<or> isdigit c \<or> \<not> (isalpha c \<or> c = CHR ''_''))"
  shows "parse_primary b e (c # cs) =
    (case parse_symbol b (takeWhile (\<lambda>x. isalnum x \<or> x = CHR ''_'') (c # cs)) of
       Inl m \<Rightarrow> Inl m | Inr v \<Rightarrow> Inr (v, dropWhile (\<lambda>x. isalnum x \<or> x = CHR ''_'') (c # cs)))"
  using assms unfolding parse_primary_def list.case Let_def by simp

lemma parse_primary_group:
  "parse_primary b e (CHR ''('' # cs) = Inr (v, rest) \<longleftrightarrow>
   (\<exists>rest'. e cs = Inr (v, rest') \<and> rest' \<noteq> [] \<and> hd rest' = CHR '')'' \<and> rest = tl rest')"
proof (cases "e cs")
  case (Inr r)
  then show ?thesis
    unfolding parse_primary_def list.case
    by (cases r) (auto simp del: append_Cons append.simps split: if_splits)
qed (simp add: parse_primary_def)

lemma parse_primary_settles:
  assumes "settled_by b b'" and "settles (pending_value b) e e'"
  shows "settles (pending_value b) (parse_primary b e) (parse_primary b' e')"
  unfolding settles_def
proof (intro allI impI)
  fix inp v rest assume p: "parse_primary b e inp = Inr (v, rest)" and v: "\<not> pending_value b v"
  have "parse_primary b e [] = Inl ''an expression is missing''" by (simp add: parse_primary_def)
  then obtain c cs where inp: "inp = c # cs" using p by (cases inp) simp_all
  let ?lit = "c = CHR ''#'' \<or> c = CHR ''$'' \<or> c = CHR ''%'' \<or> c = quote \<or> isdigit c \<or> \<not> (isalpha c \<or> c = CHR ''_'')"
  let ?name = "takeWhile (\<lambda>x. isalnum x \<or> x = CHR ''_'') (c # cs)"
  show "parse_primary b' e' inp = Inr (v, rest)"
  proof (cases "c = CHR ''(''")
    case 1: True
    then obtain rest' where r: "e cs = Inr (v, rest')" "rest' \<noteq> []" "hd rest' = CHR '')''" "rest = tl rest'"
      using p unfolding inp 1 parse_primary_group by blast
    moreover have "e' cs = Inr (v, rest')" using assms(2) v r(1) unfolding settles_def by blast
    ultimately show ?thesis unfolding inp 1 parse_primary_group by blast
  next
    case group: False
    show ?thesis
    proof (cases ?lit)
      case True
      then show ?thesis using p parse_primary_literal [OF group True, of b e cs b' e'] inp by simp
    next
      case False
      note 3 = group False
      have "isalnum c \<or> c = CHR ''_''" using 3(2) unfolding isalnum_def by blast
      then have ne: "?name \<noteq> []" by simp
      note n = p [unfolded inp parse_primary_name [OF 3]]
      then obtain w where w: "parse_symbol b ?name = Inr w" by (cases "parse_symbol b ?name") simp_all
      then have "v = w" using n by simp
      with parse_symbol_settles [OF assms(1) w _ ne] v have "parse_symbol b' ?name = Inr w" by blast
      then show ?thesis using n w unfolding inp parse_primary_name [OF 3] by simp
    qed
  qed
qed

lemma parse_unary_settles:
  assumes "settled_by b b'"
  shows "settles (pending_value b) (parse_unary b n) (parse_unary b' n)"
proof (induction n)
  case 0
  show ?case by (simp add: settles_def)
next
  case (Suc n)
  note prim = parse_primary_settles [OF assms settles_levels [OF assms Suc]]
  show ?case
    unfolding settles_def
  proof (intro allI impI)
    fix inp v rest assume p: "parse_unary b (Suc n) inp = Inr (v, rest)" and v: "\<not> pending_value b v"
    show "parse_unary b' (Suc n) inp = Inr (v, rest)"
    proof (cases "inp \<noteq> [] \<and> (hd inp = CHR ''-'' \<or> hd inp = CHR ''~'')")
      case True
      then obtain w where w: "parse_unary b n (tl inp) = Inr (w, rest)" "\<not> is_relocatable w"
        using p by (auto split: if_splits sum.splits option.splits simp: require_constant_None)
      then have "parse_unary b' n (tl inp) = Inr (w, rest)" using Suc by (auto simp: settles_def pending_value_def)
      then show ?thesis using p True w by auto
    next
      case False
      then have "parse_primary b (parse_or b (parse_unary b n)) inp = Inr (v, rest)" using p by auto
      then have "parse_primary b' (parse_or b' (parse_unary b' n)) inp = Inr (v, rest)" using prim v by (simp add: settles_def)
      then show ?thesis using False by auto
    qed
  qed
qed

lemma parse_expression_settles:
  assumes "settled_by b b'" and "parse_expression b s = Inr v" and "\<not> is_relocatable v"
  shows "parse_expression b' s = Inr v"
proof -
  have "parse_or b (parse_unary b (length s)) s = Inr (v, [])"
    using assms(2) unfolding parse_expression_def by (auto split: sum.splits prod.splits if_splits simp del: append_Cons append.simps)
  then have "parse_or b' (parse_unary b' (length s)) s = Inr (v, [])"
    using settles_levels [OF assms(1) parse_unary_settles [OF assms(1)]] assms(3) by (simp add: settles_def pending_value_def)
  then show ?thesis by (simp add: parse_expression_def)
qed

end
