(* ===== verification/Layout.thy ===== *)
theory Layout
  imports Encoder Expression_Settling
begin

text \<open>
  The two passes of \<^verbatim>\<open>src/v2/mzasm_assemble.cpp\<close> on a flat module: when neither reports a diagnostic, the
  second pass emits every statement at the address the first pass gave it, so the image holds each
  instruction where its label says it is.
\<close>

section \<open>The symbol table of a flat module\<close>

lemma map_of_put_symbol: "map_of (put_symbol k v t) = (map_of t)(k \<mapsto> v)"
  by (induction k v t rule: put_symbol.induct) (auto simp: fun_upd_twist)

definition query_of :: "Symbol \<Rightarrow> SymbolQuery" where
  "query_of s = \<lparr>sq_known = True, sq_defined = sy_defined s, sq_is_constant = sy_is_constant s,
                 sq_value = sy_value s, sq_section = sy_section s\<rparr>"

lemma lookup_set_symbol:
  "lookup_in_assembler (set_symbol n s a) name = (if name = n then query_of s else lookup_in_assembler a name)"
  by (simp add: lookup_in_assembler_def set_symbol_def map_of_put_symbol query_of_def)

lemma lookup_symbol_at:
  "sy_defined (symbol_at a name) = sq_defined (lookup_in_assembler a name)"
  "sy_is_constant (symbol_at a name) = sq_is_constant (lookup_in_assembler a name)"
  "sy_value (symbol_at a name) = sq_value (lookup_in_assembler a name)"
  "sy_section (symbol_at a name) = sq_section (lookup_in_assembler a name)"
  by (auto simp: lookup_in_assembler_def symbol_at_def unknown_symbol_def new_symbol_def split: option.splits)

text \<open>Every constant has a value and every symbol is in the section a flat module has.\<close>

definition symbols_ok :: "Assembler \<Rightarrow> bool" where
  "symbols_ok a \<longleftrightarrow>
     (\<forall>name. (sq_is_constant (lookup_in_assembler a name) \<longrightarrow> sq_defined (lookup_in_assembler a name)) \<and>
             sq_section (lookup_in_assembler a name) = SEC_NULL \<and>
             (sq_defined (lookup_in_assembler a name) \<longrightarrow> sq_known (lookup_in_assembler a name)))"

definition symbols_kept :: "Assembler \<Rightarrow> Assembler \<Rightarrow> bool" where
  "symbols_kept a a' \<longleftrightarrow>
     (\<forall>name. sq_defined (lookup_in_assembler a name) \<longrightarrow> lookup_in_assembler a' name = lookup_in_assembler a name)"

lemma symbols_kept_refl [simp]: "symbols_kept a a"
  by (simp add: symbols_kept_def)

lemma symbols_kept_trans: "symbols_kept a b \<Longrightarrow> symbols_kept b c \<Longrightarrow> symbols_kept a c"
  by (simp add: symbols_kept_def)

lemma lookup_cong: "as_symbols a' = as_symbols a \<Longrightarrow> lookup_in_assembler a' = lookup_in_assembler a"
  by (rule ext) (simp add: lookup_in_assembler_def)

lemma symbols_cong:
  assumes "as_symbols a' = as_symbols a"
  shows "symbols_ok a' = symbols_ok a" "symbols_kept a a'" "symbols_kept b a' = symbols_kept b a" "symbols_kept a' b = symbols_kept a b"
  unfolding symbols_ok_def symbols_kept_def lookup_cong [OF assms] by simp_all

lemma set_symbol_steps:
  assumes "symbols_ok a" and "sq_defined (lookup_in_assembler a n) \<longrightarrow> query_of s = lookup_in_assembler a n"
    and "sy_is_constant s \<longrightarrow> sy_defined s" and "sy_section s = SEC_NULL"
  shows "symbols_ok (set_symbol n s a)" "symbols_kept a (set_symbol n s a)"
  using assms unfolding symbols_ok_def symbols_kept_def lookup_set_symbol by (auto simp: query_of_def)

lemma operand_value_settles:
  assumes "symbols_ok a" and "symbols_kept a a'" and "as_address a' = as_address a"
    and "operand_value a s = Some v" and "\<not> is_relocatable v"
  shows "operand_value a' s = Some v"
proof -
  let ?b = "\<lambda>a. \<lparr>lb_lookup = Some (lookup_in_assembler a), lb_here = as_address a\<rparr>"
  have "settled_by (?b a) (?b a')"
    using assms(1-3) by (auto simp: settled_by_def symbols_ok_def symbols_kept_def)
  moreover have "parse_expression (?b a) s = Inr v"
    using assms(4) by (auto simp: operand_value_def split: sum.splits)
  ultimately have "parse_expression (?b a') s = Inr v" using assms(5) by (rule parse_expression_settles)
  then show ?thesis by (simp add: operand_value_def)
qed

section \<open>Sizes in both passes\<close>

text \<open>What pass 1 has found out about a counted directive.\<close>

definition counted_by :: "Statement \<Rightarrow> Assembler \<Rightarrow> u64 \<Rightarrow> bool" where
  "counted_by st a n \<longleftrightarrow>
     (\<exists>v. st_operands st \<noteq> [] \<and> operand_value a (od_expression_text (hd (st_operands st))) = Some v \<and> \<not> is_relocatable v \<and>
        (if st_name st = ''align'' then
           length (st_operands st) = 1 \<and>
           n = (if as_address a mod ev_constant v = 0 then 0 else ev_constant v - as_address a mod ev_constant v)
         else n = ev_constant v \<and> length (st_operands st) = (if st_name st = ''reserve'' then 1 else 2)))"

lemma counted_size_Some:
  assumes "counted_size st a = (Some n, a')"
  shows "a' = a \<and> counted_by st a n"
proof -
  let ?s = "od_expression_text (hd (st_operands st))"
  obtain v where v: "st_operands st \<noteq> []" "operand_value a ?s = Some v"
    using assms unfolding counted_size_def Let_def
    by (auto simp: fail_with_None evaluate_Some simp del: append_Cons append.simps split: if_splits prod.splits option.splits)
  then have e: "evaluate ?s (st_where st) a = (Some v, a)" by (simp add: evaluate_Some)
  have "a' = a \<and> \<not> is_relocatable v \<and>
      (if st_name st = ''align'' then
           length (st_operands st) = 1 \<and>
           n = (if as_address a mod ev_constant v = 0 then 0 else ev_constant v - as_address a mod ev_constant v)
         else n = ev_constant v \<and> length (st_operands st) = (if st_name st = ''reserve'' then 1 else 2))"
    using assms v(1) unfolding counted_size_def Let_def e
    by (auto simp: fail_with_None simp del: append_Cons append.simps split: if_splits)
  with v show ?thesis unfolding counted_by_def by blast
qed

definition sized_by :: "Statement \<Rightarrow> Assembler \<Rightarrow> u64 \<Rightarrow> bool" where
  "sized_by st a n \<longleftrightarrow>
     (if data_directive_width (st_name st) \<noteq> 0 then n = of_nat (length (st_operands st) * data_directive_width (st_name st))
      else if st_name st = ''data_string'' \<or> st_name st = ''data_string_zero'' then
        n = of_nat (length (od_string_value (hd (st_operands st))) + (if st_name st = ''data_string_zero'' then 1 else 0))
      else (st_name st = ''data_fill'' \<or> st_name st = ''reserve'' \<or> st_name st = ''align'') \<and> counted_by st a n)"

lemma directive_size_Some:
  assumes "directive_size st a = (Some n, a')"
  shows "a' = a \<and> sized_by st a n"
proof -
  consider "data_directive_width (st_name st) \<noteq> 0" | "data_directive_width (st_name st) = 0" "st_name st = ''data_string'' \<or> st_name st = ''data_string_zero''"
    | "data_directive_width (st_name st) = 0" "\<not> (st_name st = ''data_string'' \<or> st_name st = ''data_string_zero'')" by blast
  then show ?thesis
  proof cases
    case 3
    then have "(st_name st = ''data_fill'' \<or> st_name st = ''reserve'' \<or> st_name st = ''align'') \<and> counted_size st a = (Some n, a')"
      using assms unfolding directive_size_def Let_def
      by (auto simp: fail_with_None simp del: append_Cons append.simps split: if_splits)
    then show ?thesis using 3 counted_size_Some by (auto simp: sized_by_def)
  qed (use assms in \<open>auto simp: directive_size_def Let_def sized_by_def fail_with_None simp del: append_Cons append.simps split: if_splits\<close>)
qed

lemma counted_size_fail: "counted_size st a = (None, a') \<Longrightarrow> as_diags a' \<noteq> as_diags a"
  unfolding counted_size_def Let_def
  by (auto simp: fail_with_None evaluate_Some evaluate_fail add_error_diags simp del: append_Cons append.simps
      split: if_splits prod.splits option.splits)

lemma directive_size_fail: "directive_size st a = (None, a') \<Longrightarrow> as_diags a' \<noteq> as_diags a"
  unfolding directive_size_def Let_def
  by (auto simp: fail_with_None counted_size_fail add_error_diags simp del: append_Cons append.simps split: if_splits)

section \<open>A quiet first pass\<close>

text \<open>
  The first pass over a flat module: nothing is placed yet and the address is still zero, or the
  start of the image is settled.
\<close>

definition p1_flat :: "PassOne \<Rightarrow> bool" where
  "p1_flat p \<longleftrightarrow>
     (let a = p1_assembler p
      in as_current_section a = SEC_NULL \<and> symbols_ok a \<and>
         (if p1_flat_base_pending p then as_mode a = Undecided \<and> as_address a = 0 else as_mode a = Flat))"

definition label_query :: "u64 \<Rightarrow> SymbolQuery" where
  "label_query x = \<lparr>sq_known = True, sq_defined = True, sq_is_constant = False, sq_value = x, sq_section = SEC_NULL\<rparr>"

text \<open>What one statement, as the pass leaves it, does to the pass.\<close>

definition follows :: "Statement \<Rightarrow> PassOne \<Rightarrow> PassOne \<Rightarrow> bool" where
  "follows st p p' \<longleftrightarrow>
     (let a = p1_assembler p; a' = p1_assembler p'; pending = p1_flat_base_pending p;
          starts = (\<lambda>base. \<not> p1_flat_base_pending p' \<and> as_flat_base a' = (if pending then base else as_flat_base a));
          stays = (p1_flat_base_pending p' = pending \<and> as_flat_base a' = as_flat_base a \<and> as_address a' = as_address a)
      in p1_flat p' \<and> symbols_kept a a' \<and> as_relocations a' = as_relocations a \<and>
         (case st_kind st of
            Label \<Rightarrow> stays \<and> lookup_in_assembler a' (st_name st) = label_query (as_address a)
          | Directive \<Rightarrow>
              if st_name st = ''section'' then False
              else if st_name st = ''origin'' then starts (st_address st) \<and> as_address a' = st_address st
              else if st_name st = ''constant'' \<or> st_name st = ''global'' \<or> st_name st = ''extern'' then stays
              else starts (as_address a) \<and> st_address st = as_address a \<and>
                   (\<exists>n. as_address a' = as_address a + n \<and> sized_by st a n)
          | Instruction \<Rightarrow>
              starts (as_address a) \<and> st_address st = as_address a \<and> resolve_opcode st = Inr (st_opcode st) \<and>
              st_length st = oi_length (opcode_info (st_opcode st)) \<and>
              as_address a' = as_address a + of_nat (st_length st)))"

definition same_source :: "Statement \<Rightarrow> Statement \<Rightarrow> bool" where
  "same_source st st' \<longleftrightarrow> st_kind st' = st_kind st \<and> st_name st' = st_name st \<and> st_operands st' = st_operands st"

lemma resolve_opcode_cong: "st_name st' = st_name st \<Longrightarrow> st_operands st' = st_operands st \<Longrightarrow> resolve_opcode st' = resolve_opcode st"
  by (simp only: resolve_opcode_def select_sibling_def)

lemma sized_by_cong:
  assumes "st_name st' = st_name st" and "st_operands st' = st_operands st" and "as_symbols a' = as_symbols a"
    and "as_address a' = as_address a"
  shows "sized_by st' a' = sized_by st a"
proof -
  have "operand_value a' = operand_value a" by (rule ext) (simp add: operand_value_def lookup_cong [OF assms(3)] assms(4))
  then show ?thesis by (intro ext) (simp add: sized_by_def counted_by_def assms)
qed

abbreviation (input) p1_diags :: "PassOne \<Rightarrow> Diagnostics" where
  "p1_diags p \<equiv> as_diags (p1_assembler p)"

lemma p1_error_diags: "p1_diags (p1_error loc m p) \<noteq> p1_diags p"
  by (simp add: p1_error_def add_error_diags)

lemma quiet_label:
  assumes "pass_one_label st p = (st', p')" and "p1_diags p' = p1_diags p" and "p1_flat p" and "st_kind st = Label"
  shows "follows st' p p' \<and> same_source st st'"
proof -
  let ?a = "p1_assembler p" and ?st = "st\<lparr>st_address := as_address (p1_assembler p)\<rparr>"
  let ?s = "(symbol_at ?a (st_name st))\<lparr>sy_name := st_name st, sy_value := as_address ?a, sy_section := as_current_section ?a,
      sy_defined := True, sy_where := st_where st\<rparr>"
  have u: "\<not> sy_defined (symbol_at ?a (st_name st))"
    using assms(1,2) unfolding pass_one_label_def Let_def
    by (auto simp: p1_error_diags simp del: append_Cons append.simps split: if_splits)
  have p': "p' = p\<lparr>p1_assembler := set_symbol (st_name st) ?s ?a\<rparr>" "st' = ?st"
    using assms(1) u unfolding pass_one_label_def Let_def by auto
  have ok: "symbols_ok ?a" "as_current_section ?a = SEC_NULL" using assms(3) by (simp_all add: p1_flat_def Let_def)
  have "symbols_ok (set_symbol (st_name st) ?s ?a)" "symbols_kept ?a (set_symbol (st_name st) ?s ?a)"
    using u ok by (intro set_symbol_steps; simp add: lookup_symbol_at)+
  moreover have "lookup_in_assembler (set_symbol (st_name st) ?s ?a) (st_name st) = label_query (as_address ?a)"
    using u ok unfolding symbols_ok_def by (auto simp: lookup_set_symbol query_of_def label_query_def lookup_symbol_at)
  ultimately show ?thesis
    using assms(3,4) by (simp add: follows_def p' same_source_def p1_flat_def Let_def) (simp add: set_symbol_def)
qed

lemma settled:
  assumes "p1_flat p"
  shows "settle_flat_base (p\<lparr>p1_assembler := if as_mode (p1_assembler p) = Undecided then (p1_assembler p)\<lparr>as_mode := Flat\<rparr> else p1_assembler p\<rparr>) =
    p\<lparr>p1_flat_base_pending := False,
      p1_assembler := (p1_assembler p)\<lparr>as_mode := Flat,
        as_flat_base := if p1_flat_base_pending p then as_address (p1_assembler p) else as_flat_base (p1_assembler p),
        as_flat_base_set := as_flat_base_set (p1_assembler p) \<or> p1_flat_base_pending p\<rparr>\<rparr>"
  using assms by (cases "p1_flat_base_pending p") (simp_all add: p1_flat_def settle_flat_base_def Let_def)

lemma quiet_instruction:
  assumes "pass_one_instruction st p = (st', p')" and "p1_diags p' = p1_diags p" and "p1_flat p" and "st_kind st = Instruction"
  shows "follows st' p p' \<and> same_source st st'"
proof -
  let ?a = "p1_assembler p" and ?st = "st\<lparr>st_address := as_address (p1_assembler p)\<rparr>"
  let ?b = "?a\<lparr>as_mode := Flat, as_flat_base := if p1_flat_base_pending p then as_address ?a else as_flat_base ?a,
        as_flat_base_set := as_flat_base_set ?a \<or> p1_flat_base_pending p\<rparr>"
  have r: "pass_one_instruction st p =
      (case resolve_opcode ?st of
         Inl e \<Rightarrow> (?st, p1_error (st_where st) e (p\<lparr>p1_flat_base_pending := False, p1_assembler := ?b\<rparr>))
       | Inr opcode \<Rightarrow>
           (?st\<lparr>st_opcode := opcode, st_length := oi_length (opcode_info opcode)\<rparr>,
            p\<lparr>p1_flat_base_pending := False, p1_assembler := ?b\<lparr>as_address := as_address ?b + of_nat (oi_length (opcode_info opcode))\<rparr>\<rparr>))"
    unfolding pass_one_instruction_def Let_def settled [OF assms(3)]
    by (simp del: append_Cons append.simps split: sum.split)
  obtain opcode where o: "resolve_opcode ?st = Inr opcode"
  proof (cases "resolve_opcode ?st")
    case (Inl e)
    then have "p' = p1_error (st_where st) e (p\<lparr>p1_flat_base_pending := False, p1_assembler := ?b\<rparr>)" using r assms(1) by simp
    then have False using assms(2) p1_error_diags [of "st_where st" e "p\<lparr>p1_flat_base_pending := False, p1_assembler := ?b\<rparr>"] by simp
    then show ?thesis ..
  qed (rule that)
  have e: "st' = ?st\<lparr>st_opcode := opcode, st_length := oi_length (opcode_info opcode)\<rparr>"
    "p' = p\<lparr>p1_flat_base_pending := False, p1_assembler := ?b\<lparr>as_address := as_address ?b + of_nat (oi_length (opcode_info opcode))\<rparr>\<rparr>"
    using assms(1) r o by simp_all
  have "resolve_opcode st' = Inr opcode" using o by (subst resolve_opcode_cong [of _ ?st]) (simp_all add: e(1))
  moreover have "symbols_ok (p1_assembler p') = symbols_ok ?a" "symbols_kept ?a (p1_assembler p')"
    by (rule symbols_cong, simp add: e(2))+
  ultimately show ?thesis
    using assms(3,4) by (simp add: follows_def e same_source_def p1_flat_def Let_def)
qed


lemma quiet_constant:
  assumes "p1_diags (pass_one_constant st p) = p1_diags p" and "symbols_ok (p1_assembler p)"
  shows "\<exists>n s. pass_one_constant st p = p\<lparr>p1_assembler := set_symbol n s (p1_assembler p)\<rparr> \<and>
    symbols_ok (set_symbol n s (p1_assembler p)) \<and> symbols_kept (p1_assembler p) (set_symbol n s (p1_assembler p))"
proof -
  let ?a = "p1_assembler p"
  define n where "n = od_text (st_operands st ! 0)"
  let ?e = "evaluate (od_expression_text (st_operands st ! 1)) (st_where st) ?a"
  have u: "\<not> sy_defined (symbol_at ?a n)"
    using assms(1) unfolding pass_one_constant_def Let_def n_def [symmetric]
    by (auto simp: p1_error_diags simp del: append_Cons append.simps split: if_splits)
  obtain v where v: "?e = (Some v, ?a)" "\<not> is_relocatable v"
  proof (cases ?e)
    case (Pair r a')
    show ?thesis
    proof (cases r)
      case None
      then show ?thesis using assms(1) Pair evaluate_fail [of _ _ ?a a'] unfolding pass_one_constant_def Let_def
        by (auto simp: p1_error_diags simp del: append_Cons append.simps split: if_splits)
    next
      case (Some v)
      then have "a' = ?a" using Pair evaluate_Some by simp
      moreover have "\<not> is_relocatable v"
        using assms(1) Pair Some unfolding pass_one_constant_def Let_def
        by (auto simp: p1_error_diags simp del: append_Cons append.simps split: if_splits)
      ultimately show ?thesis using that Pair Some by simp
    qed
  qed
  let ?s = "(symbol_at ?a n)\<lparr>sy_name := n, sy_value := ev_constant v,
      sy_defined := True, sy_is_constant := True, sy_section := SEC_NULL, sy_where := st_where st\<rparr>"
  have "pass_one_constant st p = p\<lparr>p1_assembler := set_symbol n ?s ?a\<rparr>"
    using assms(1) v unfolding pass_one_constant_def Let_def n_def [symmetric]
    by (auto simp: p1_error_diags simp del: append_Cons append.simps split: if_splits)
  moreover have "symbols_ok (set_symbol n ?s ?a)" "symbols_kept ?a (set_symbol n ?s ?a)"
    using u assms(2) by (intro set_symbol_steps; simp add: lookup_symbol_at)+
  ultimately show ?thesis by blast
qed

lemma quiet_linkage:
  assumes "p1_diags (pass_one_linkage st p) = p1_diags p" and "symbols_ok (p1_assembler p)"
  shows "\<exists>n s. pass_one_linkage st p = p\<lparr>p1_assembler := set_symbol n s (p1_assembler p)\<rparr> \<and>
    symbols_ok (set_symbol n s (p1_assembler p)) \<and> symbols_kept (p1_assembler p) (set_symbol n s (p1_assembler p))"
proof -
  let ?a = "p1_assembler p"
  define n where "n = od_text (st_operands st ! 0)"
  let ?t = "(symbol_at ?a n)\<lparr>sy_name := n\<rparr>"
  let ?s = "if st_name st = ''global'' then ?t\<lparr>sy_exported := True\<rparr> else ?t\<lparr>sy_external := True, sy_section := SEC_NULL\<rparr>"
  have "pass_one_linkage st p = p\<lparr>p1_assembler := set_symbol n ?s ?a\<rparr>"
    using assms(1) unfolding pass_one_linkage_def Let_def n_def [symmetric]
    by (auto simp: p1_error_diags simp del: append_Cons append.simps split: if_splits)
  moreover have q: "sq_defined (lookup_in_assembler ?a n) \<longrightarrow> query_of ?s = lookup_in_assembler ?a n"
    using assms(2) unfolding symbols_ok_def by (auto simp: query_of_def lookup_symbol_at)
  moreover have "sy_is_constant ?s \<longrightarrow> sy_defined ?s" "sy_section ?s = SEC_NULL"
    using assms(2) unfolding symbols_ok_def by (auto simp: lookup_symbol_at)
  ultimately show ?thesis using set_symbol_steps [OF assms(2)] by blast
qed


lemma quiet_origin:
  assumes "pass_one_origin st p = (st', p')" and "p1_diags p' = p1_diags p" and "p1_flat p"
    and "st_kind st = Directive" and "st_name st = ''origin''"
  shows "follows st' p p' \<and> same_source st st'"
proof -
  let ?a = "p1_assembler p"
  let ?b = "?a\<lparr>as_mode := Flat\<rparr>"
  let ?e = "evaluate (od_expression_text (hd (st_operands st))) (st_where st) ?b"
  have m: "as_mode ?a \<noteq> Sectioned" using assms(3) by (auto simp: p1_flat_def Let_def split: if_splits)
  have b: "as_diags ?b = as_diags ?a" by simp
  obtain v where v: "?e = (Some v, ?b)" "\<not> is_relocatable v"
  proof (cases ?e)
    case (Pair r a')
    show ?thesis
    proof (cases r)
      case None
      then show ?thesis using assms(1,2) m Pair evaluate_fail [of _ _ ?b a'] unfolding pass_one_origin_def Let_def
        by (auto simp: p1_error_def add_error_def report_def simp del: append_Cons append.simps split: if_splits)
    next
      case (Some v)
      then have "a' = ?b" using Pair evaluate_Some by simp
      moreover have "\<not> is_relocatable v"
        using assms(1,2) m Pair Some unfolding pass_one_origin_def Let_def
        by (auto simp: p1_error_def add_error_def report_def simp del: append_Cons append.simps split: if_splits)
      ultimately show ?thesis using that Pair Some by simp
    qed
  qed
  let ?c = "?b\<lparr>as_address := ev_constant v\<rparr>"
  have e: "st' = st\<lparr>st_address := ev_constant v\<rparr> \<and> \<not> p1_flat_base_pending p' \<and>
      p1_assembler p' = (if p1_flat_base_pending p then ?c\<lparr>as_flat_base := ev_constant v, as_flat_base_set := True\<rparr> else ?c)"
    using assms(1,2) m v unfolding pass_one_origin_def Let_def
    by (auto simp: p1_error_def add_error_def report_def simp del: append_Cons append.simps split: if_splits)
  have sy: "as_symbols (p1_assembler p') = as_symbols ?a" using e by simp
  have "symbols_ok (p1_assembler p')" "symbols_kept ?a (p1_assembler p')"
    using symbols_cong(1,2) [OF sy] assms(3) by (simp_all add: p1_flat_def Let_def)
  then show ?thesis
    using assms(3-5) e by (simp add: follows_def same_source_def p1_flat_def Let_def)
qed

lemma quiet_section:
  assumes "pass_one_section st p = (st', p')" and "p1_diags p' = p1_diags p" and "as_mode (p1_assembler p') \<noteq> Sectioned"
  shows False
  using assms unfolding pass_one_section_def Let_def
  by (auto simp: p1_error_def add_error_def report_def simp del: append_Cons append.simps split: if_splits)

lemma quiet_directive:
  assumes "pass_one_directive st p = (st', p')" and "p1_diags p' = p1_diags p" and "p1_flat p"
    and "as_mode (p1_assembler p') \<noteq> Sectioned" and "st_kind st = Directive"
  shows "follows st' p p' \<and> same_source st st'"
proof -
  let ?a = "p1_assembler p" and ?st = "st\<lparr>st_address := as_address (p1_assembler p)\<rparr>"
  consider "st_name st = ''section''" | "st_name st = ''origin''"
    | "st_name st \<noteq> ''section''" "st_name st \<noteq> ''origin''" "st_name st = ''constant'' \<or> st_name st = ''global'' \<or> st_name st = ''extern''"
    | "st_name st \<noteq> ''section''" "st_name st \<noteq> ''origin''" "\<not> (st_name st = ''constant'' \<or> st_name st = ''global'' \<or> st_name st = ''extern'')"
    by argo
  then show ?thesis
  proof cases
    case 1
    then show ?thesis using quiet_section [of st p st' p'] assms(1,2,4) by (simp add: pass_one_directive_def)
  next
    case 2
    then show ?thesis using quiet_origin assms by (simp add: pass_one_directive_def)
  next
    case 3
    have same: "settle_flat_base (p\<lparr>p1_assembler := ?a\<rparr>) = p"
      using assms(3) by (auto simp: p1_flat_def settle_flat_base_def Let_def)
    define q where "q = (if st_name st = ''constant'' then pass_one_constant ?st p else pass_one_linkage ?st p)"
    have e: "st' = ?st" "p' = q"
      using assms(1) 3 same unfolding pass_one_directive_def Let_def q_def by (auto simp del: append_Cons append.simps)
    have ok: "symbols_ok ?a" using assms(3) by (simp add: p1_flat_def Let_def)
    have "\<exists>n s. q = p\<lparr>p1_assembler := set_symbol n s ?a\<rparr> \<and> symbols_ok (set_symbol n s ?a) \<and> symbols_kept ?a (set_symbol n s ?a)"
    proof (cases "st_name st = ''constant''")
      case True
      then have "q = pass_one_constant ?st p" by (simp add: q_def)
      then show ?thesis using quiet_constant [OF _ ok, of ?st] assms(2) unfolding e(2) by simp
    next
      case False
      then have "q = pass_one_linkage ?st p" by (simp add: q_def)
      then show ?thesis using quiet_linkage [OF _ ok, of ?st] assms(2) unfolding e(2) by simp
    qed
    then obtain n s where q: "q = p\<lparr>p1_assembler := set_symbol n s ?a\<rparr>" "symbols_ok (set_symbol n s ?a)" "symbols_kept ?a (set_symbol n s ?a)"
      by blast
    show ?thesis
      using assms(3,5) 3 q(2,3) by (auto simp: follows_def e q(1) same_source_def p1_flat_def Let_def set_symbol_def)
  next
    case 4
    let ?b = "?a\<lparr>as_mode := Flat, as_flat_base := if p1_flat_base_pending p then as_address ?a else as_flat_base ?a,
        as_flat_base_set := as_flat_base_set ?a \<or> p1_flat_base_pending p\<rparr>"
    have cond: "(as_mode ?a = Undecided \<and> st_name st \<noteq> ''constant'' \<and> st_name st \<noteq> ''global'' \<and> st_name st \<noteq> ''extern'') =
        (as_mode ?a = Undecided)" using 4 by simp
    have e: "pass_one_directive st p =
      (case directive_size ?st ?b of
         (None, a) \<Rightarrow> (?st, p\<lparr>p1_flat_base_pending := False, p1_assembler := a\<rparr>)
       | (Some bytes, a) \<Rightarrow> (?st, p\<lparr>p1_flat_base_pending := False, p1_assembler := a\<lparr>as_address := as_address a + bytes\<rparr>\<rparr>))"
      using 4 unfolding pass_one_directive_def Let_def cond settled [OF assms(3)]
      by (simp split: prod.split option.split del: if_split)
    obtain n where n: "directive_size ?st ?b = (Some n, ?b)"
    proof (cases "directive_size ?st ?b")
      case (Pair r a')
      show ?thesis
      proof (cases r)
        case None
        then have "as_diags a' = as_diags ?b" using Pair e assms(1,2) by auto
        then show ?thesis using directive_size_fail Pair None by blast
      next
        case (Some n)
        then show ?thesis using that Pair directive_size_Some by auto
      qed
    qed
    have p': "st' = ?st" "p' = p\<lparr>p1_flat_base_pending := False, p1_assembler := ?b\<lparr>as_address := as_address ?b + n\<rparr>\<rparr>"
      using assms(1) e n by simp_all
    have "sized_by ?st ?b n" using directive_size_Some [OF n] by simp
    then have "sized_by ?st ?a n" by (subst (asm) sized_by_cong [of _ ?st _ ?a]) simp_all
    moreover have "symbols_ok (p1_assembler p') = symbols_ok ?a" "symbols_kept ?a (p1_assembler p')"
      by (rule symbols_cong, simp add: p'(2))+
    ultimately show ?thesis
      using assms(3,5) 4 by (auto simp: follows_def p' same_source_def p1_flat_def Let_def)
  qed
qed


section \<open>Diagnostics of the first pass\<close>

text \<open>Diagnostics only grow, and a module that has sections keeps having them.\<close>

definition grows :: "PassOne \<Rightarrow> PassOne \<Rightarrow> bool" where
  "grows p p' \<longleftrightarrow>
     (\<exists>ds. p1_diags p' = p1_diags p @ ds) \<and>
     (as_mode (p1_assembler p) = Sectioned \<longrightarrow> as_mode (p1_assembler p') = Sectioned)"

lemma grows_refl [simp]: "grows p p"
  by (simp add: grows_def)

lemma grows_trans: "grows p q \<Longrightarrow> grows q r \<Longrightarrow> grows p r"
  by (auto simp: grows_def)

lemma grows_error [simp]: "grows p (p1_error loc m p)"
  by (simp add: grows_def p1_error_def add_error_def report_def)

lemma grows_assembler:
  assumes "\<exists>ds. as_diags a = p1_diags p @ ds" and "as_mode (p1_assembler p) = Sectioned \<longrightarrow> as_mode a = Sectioned"
  shows "grows p (p\<lparr>p1_assembler := a\<rparr>)" "grows p (p\<lparr>p1_flat_base_pending := x, p1_assembler := a\<rparr>)"
    "grows p (p\<lparr>p1_counters := c, p1_assembler := a\<rparr>)"
  using assms by (simp_all add: grows_def)

lemma grows_label: "grows p (snd (pass_one_label st p))"
  unfolding pass_one_label_def Let_def
  by (auto simp: grows_assembler(1) set_symbol_def simp del: append_Cons append.simps)

lemma grows_section: "grows p (snd (pass_one_section st p))"
  unfolding pass_one_section_def Let_def
  by (auto simp: grows_assembler(3) simp del: append_Cons append.simps)

text \<open>Diagnostics grow; the placement mode and the statements stay.\<close>

definition later :: "Assembler \<Rightarrow> Assembler \<Rightarrow> bool" where
  "later a a' \<longleftrightarrow> (\<exists>ds. as_diags a' = as_diags a @ ds) \<and> as_mode a' = as_mode a \<and> as_statements a' = as_statements a"

lemma later_refl [simp]: "later a a"
  by (simp add: later_def)

lemma later_trans: "later a b \<Longrightarrow> later b c \<Longrightarrow> later a c"
  by (auto simp: later_def)

lemma later_error [simp]: "later a (add_error loc m a)"
  by (simp add: later_def add_error_def report_def)

lemma later_emit [simp]: "later a (emit_bytes bs a)"
  by (simp add: later_def)

lemma later_address [simp]: "later a (a\<lparr>as_address := x\<rparr>)"
  by (simp add: later_def)

lemma only_reports_later: "only_reports a a' \<Longrightarrow> later a a'"
  by (auto simp: only_reports_def later_def)

lemma later_quiet:
  assumes "later a b" and "later b c" and "as_diags c = as_diags a"
  shows "as_diags b = as_diags a"
proof -
  obtain ds es where "as_diags b = as_diags a @ ds" "as_diags c = as_diags b @ es" using assms(1,2) unfolding later_def by blast
  then show ?thesis using assms(3) by simp
qed

lemma evaluate_later: "evaluate s loc a = (r, a') \<Longrightarrow> later a a'"
  by (rule only_reports_later [OF evaluate_reports])

lemma evaluate_diags: "evaluate s loc a = (r, a') \<Longrightarrow> (\<exists>ds. as_diags a' = as_diags a @ ds) \<and> as_mode a' = as_mode a"
  using only_reports_fields(4,9) [OF evaluate_reports] by blast

lemma grows_origin: "grows p (snd (pass_one_origin st p))"
proof (cases "as_mode (p1_assembler p) = Sectioned")
  case True
  then show ?thesis by (simp add: pass_one_origin_def del: append_Cons append.simps)
next
  case False
  let ?p = "p\<lparr>p1_assembler := (p1_assembler p)\<lparr>as_mode := Flat\<rparr>\<rparr>"
  have p: "grows p ?p" using False by (simp add: grows_def)
  obtain r a' where e: "evaluate (od_expression_text (hd (st_operands st))) (st_where st) ((p1_assembler p)\<lparr>as_mode := Flat\<rparr>) = (r, a')"
    by fastforce
  have "grows ?p (snd (pass_one_origin st p))"
    using False e evaluate_diags [OF e] unfolding pass_one_origin_def Let_def
    by (cases r) (auto simp: grows_def p1_error_def add_error_def report_def simp del: append_Cons append.simps)
  with p show ?thesis by (rule grows_trans)
qed

lemma grows_constant: "grows p (pass_one_constant st p)"
proof -
  obtain r a' where e: "evaluate (od_expression_text (st_operands st ! 1)) (st_where st) (p1_assembler p) = (r, a')" by fastforce
  show ?thesis
    using e evaluate_diags [OF e] unfolding pass_one_constant_def Let_def
    by (cases r) (auto simp: grows_def p1_error_def add_error_def report_def set_symbol_def simp del: append_Cons append.simps)
qed

lemma grows_linkage: "grows p (pass_one_linkage st p)"
  unfolding pass_one_linkage_def Let_def
  by (auto simp: grows_assembler(1) set_symbol_def simp del: append_Cons append.simps)

lemma grows_settle: "grows p (settle_flat_base p)"
  by (auto simp: settle_flat_base_def Let_def grows_assembler(2))

lemma directive_size_diags: "directive_size st a = (r, a') \<Longrightarrow> (\<exists>ds. as_diags a' = as_diags a @ ds) \<and> as_mode a' = as_mode a"
  unfolding directive_size_def counted_size_def Let_def
  by (auto simp: fail_with_None evaluate_Some add_error_def report_def dest: evaluate_diags simp del: append_Cons append.simps
      split: if_splits prod.splits option.splits)

lemma grows_directive: "grows p (snd (pass_one_directive st p))"
proof -
  define b where "b = (if as_mode (p1_assembler p) = Undecided \<and> st_name st \<noteq> ''constant'' \<and> st_name st \<noteq> ''global'' \<and> st_name st \<noteq> ''extern''
    then (p1_assembler p)\<lparr>as_mode := Flat\<rparr> else p1_assembler p)"
  define q where "q = settle_flat_base (p\<lparr>p1_assembler := b\<rparr>)"
  define st1 where "st1 = st\<lparr>st_address := as_address (p1_assembler p)\<rparr>"
  have "grows p (p\<lparr>p1_assembler := b\<rparr>)" by (simp add: grows_def b_def)
  then have q: "grows p q" unfolding q_def by (rule grows_trans [OF _ grows_settle])
  obtain r a' where d: "directive_size st1 (p1_assembler q) = (r, a')" by fastforce
  define f where "f = (case r of None \<Rightarrow> q\<lparr>p1_assembler := a'\<rparr> | Some n \<Rightarrow> q\<lparr>p1_assembler := a'\<lparr>as_address := as_address a' + n\<rparr>\<rparr>)"
  have dq: "grows q f"
    using directive_size_diags [OF d] unfolding f_def by (auto intro!: grows_assembler(1) split: option.splits)
  have "snd (pass_one_directive st p) =
      (if st_name st = ''section'' then snd (pass_one_section st p)
       else if st_name st = ''origin'' then snd (pass_one_origin st p)
       else if st_name st = ''constant'' then pass_one_constant st1 q
       else if st_name st = ''global'' \<or> st_name st = ''extern'' then pass_one_linkage st1 q
       else f)"
    unfolding pass_one_directive_def Let_def b_def [symmetric] q_def [symmetric] st1_def [symmetric] d prod.case f_def
    by (cases r) simp_all
  then show ?thesis
    using grows_section [of p st] grows_origin [of p st] grows_trans [OF q grows_constant [of q st1]]
      grows_trans [OF q grows_linkage [of q st1]] grows_trans [OF q dq] by presburger
qed

lemma grows_instruction: "grows p (snd (pass_one_instruction st p))"
proof -
  let ?a = "p1_assembler p" and ?st = "st\<lparr>st_address := as_address (p1_assembler p)\<rparr>"
  let ?b = "if as_mode ?a = Undecided then ?a\<lparr>as_mode := Flat\<rparr> else ?a"
  let ?q = "settle_flat_base (p\<lparr>p1_assembler := ?b\<rparr>)"
  have "grows p (p\<lparr>p1_assembler := ?b\<rparr>)" by (simp add: grows_def)
  then have q: "grows p ?q" by (rule grows_trans [OF _ grows_settle])
  have "grows ?q (snd (pass_one_instruction st p))"
    unfolding pass_one_instruction_def Let_def
    by (auto intro!: grows_assembler(1) simp del: append_Cons append.simps split: sum.split)
  with q show ?thesis by (rule grows_trans)
qed

lemma grows_statement: "grows p (snd (pass_one_statement st p))"
  unfolding pass_one_statement_def Let_def
  by (simp add: grows_label grows_directive grows_instruction split: StatementKind.split)

lemma grows_loop: "grows p (snd (pass_one_loop sts p))"
proof (induction sts arbitrary: p)
  case (Cons st sts)
  obtain st' q where s: "pass_one_statement st p = (st', q)" by fastforce
  have "grows p q" using grows_statement [of p st] s by simp
  then have "grows p (snd (pass_one_loop sts q))" by (rule grows_trans [OF _ Cons.IH])
  then show ?case using s by (cases "pass_one_loop sts q") simp
qed simp

lemma quiet_statement:
  assumes "pass_one_statement st p = (st', p')" and "p1_diags p' = p1_diags p" and "p1_flat p"
    and "as_mode (p1_assembler p') \<noteq> Sectioned"
  shows "follows st' p p' \<and> same_source st st'"
proof -
  let ?st = "st\<lparr>st_section := as_current_section (p1_assembler p)\<rparr>"
  have "follows st' p p' \<and> same_source ?st st'"
    using assms quiet_label [of ?st p st' p'] quiet_directive [of ?st p st' p'] quiet_instruction [of ?st p st' p']
    unfolding pass_one_statement_def Let_def by (cases "st_kind st") simp_all
  then show ?thesis by (simp add: same_source_def)
qed

section \<open>A quiet second pass\<close>

lemma emit_byte_repeated: "(emit_byte x ^^ k) a = emit_bytes (replicate k x) a"
  unfolding emit_bytes_def by (induction k arbitrary: a) (simp_all add: funpow_swap1)

lemma emit_data_later: "later a (emit_data st w operands a)"
proof (induction operands arbitrary: a)
  case (Cons operand operands)
  obtain r a1 where e: "evaluate (od_expression_text operand) (st_where st) a = (r, a1)" by fastforce
  have imm: "later b (emit_data st w operands (emit_immediate c n b))" for c n b
    using later_trans [OF later_emit Cons.IH] by (simp add: emit_immediate_bytes)
  have rel: "later a1 (emit_data st w operands (emit_immediate 0 w (add_relocation x s t c l a1)))" for x s t c l
    using later_trans [OF only_reports_later [OF only_reports_add_relocation] imm] .
  have "later a1 (emit_data st w (operand # operands) a)" if "od_kind operand = Expression"
    using e imm rel that by (cases r) (auto simp: Let_def simp del: append_Cons append.simps)
  then show ?case using later_trans [OF evaluate_later [OF e]] by (cases "od_kind operand = Expression") (auto simp del: append_Cons append.simps)
qed simp

lemma quiet_data:
  assumes "as_diags (emit_data st w operands a) = as_diags a" and "as_mode a \<noteq> Sectioned"
  shows "\<exists>bs. emit_data st w operands a = emit_bytes bs a \<and> length bs = length operands * w"
  using assms
proof (induction operands arbitrary: a)
  case Nil
  then show ?case by (intro exI [of _ "[]"]) (simp add: emit_bytes_def)
next
  case (Cons operand operands)
  obtain r a1 where e: "evaluate (od_expression_text operand) (st_where st) a = (r, a1)" by fastforce
  have k: "od_kind operand = Expression" using Cons.prems(1) by (auto simp: add_error_diags simp del: append_Cons append.simps split: if_splits)
  obtain v where v: "r = Some v" "a1 = a"
    using e evaluate_Some [of _ _ a] evaluate_fail [of _ _ a] Cons.prems(1) k by (cases r) auto
  have nr: "\<not> is_relocatable v"
  proof
    assume r: "is_relocatable v"
    let ?b = "add_relocation (as_address a) (ev_symbol v) (if w = 4 then R_MAIZE_ABS32 else R_MAIZE_ABS64) (ev_constant v) (st_where st) a"
    have w: "w = 4 \<or> w = 8" using Cons.prems(1) k e v r by (auto simp: add_error_diags simp del: append_Cons append.simps split: if_splits)
    obtain m where "?b = add_error (st_where st) m a" using Cons.prems(2) unfolding add_relocation_def by auto
    then obtain d where "as_diags ?b = as_diags a @ [d]" by (auto simp: add_error_def report_def)
    moreover obtain ds where "as_diags (emit_data st w operands (emit_immediate 0 w ?b)) = as_diags (emit_immediate 0 w ?b) @ ds"
      using emit_data_later [of "emit_immediate 0 w ?b" st w operands] unfolding later_def by blast
    ultimately show False
      using Cons.prems(1) k e v r w by (auto simp: emit_immediate_bytes Let_def simp del: append_Cons append.simps)
  qed
  have eq: "emit_data st w (operand # operands) a = emit_data st w operands (emit_immediate (ev_constant v) w a)"
    using Cons.prems(1) k e v nr by (auto simp: add_error_diags simp del: append_Cons append.simps split: if_splits)
  then obtain bs where "emit_data st w operands (emit_immediate (ev_constant v) w a) = emit_bytes bs (emit_immediate (ev_constant v) w a)"
    "length bs = length operands * w"
    using Cons.IH [of "emit_immediate (ev_constant v) w a"] Cons.prems by (auto simp: emit_immediate_bytes)
  then show ?case
    unfolding eq by (intro exI [of _ "immediate_bytes (ev_constant v, w) @ bs"])
      (simp add: emit_immediate_bytes emit_bytes_append immediate_bytes_def)
qed

text \<open>A directive emits, or skips, exactly the size that the first pass counted.\<close>

lemma flat_directive:
  assumes "sized_by st a1 n" and "symbols_ok a1" and "symbols_kept a1 a" and "as_address a = as_address a1"
    and "as_mode a = Flat" and "as_diags (emit_directive st a) = as_diags a"
    and "st_name st \<noteq> ''constant'' \<and> st_name st \<noteq> ''global'' \<and> st_name st \<noteq> ''extern''"
  shows "(\<exists>bs. emit_directive st a = emit_bytes bs a \<and> n = of_nat (length bs)) \<or> emit_directive st a = reserve_space n a"
proof -
  let ?s = "od_expression_text (hd (st_operands st))"
  have counted: "\<exists>v. evaluate ?s (st_where st) a = (Some v, a) \<and> st_operands st \<noteq> [] \<and>
      (if st_name st = ''align'' then n = (if as_address a mod ev_constant v = 0 then 0 else ev_constant v - as_address a mod ev_constant v)
       else n = ev_constant v)" if c: "counted_by st a1 n"
  proof -
    obtain v where v: "st_operands st \<noteq> []" "operand_value a1 ?s = Some v" "\<not> is_relocatable v"
      and n: "if st_name st = ''align'' then
           length (st_operands st) = 1 \<and>
           n = (if as_address a1 mod ev_constant v = 0 then 0 else ev_constant v - as_address a1 mod ev_constant v)
         else n = ev_constant v \<and> length (st_operands st) = (if st_name st = ''reserve'' then 1 else 2)"
      using c unfolding counted_by_def by blast
    have "evaluate ?s (st_where st) a = (Some v, a)"
      using operand_value_settles [OF assms(2-4) v(2,3)] evaluate_Some by blast
    moreover have "if st_name st = ''align'' then n = (if as_address a mod ev_constant v = 0 then 0 else ev_constant v - as_address a mod ev_constant v)
       else n = ev_constant v"
      using n unfolding assms(4) by presburger
    ultimately show ?thesis using v(1) by blast
  qed
  consider (data) "data_directive_width (st_name st) \<noteq> 0" | (str) "st_name st = ''data_string'' \<or> st_name st = ''data_string_zero''"
    | (align) "st_name st = ''align''" "counted_by st a1 n" | (reserve) "st_name st = ''reserve''" "counted_by st a1 n"
    | (fill) "st_name st = ''data_fill''" "counted_by st a1 n"
    using assms(1) unfolding sized_by_def if_bool_eq_conj by argo
  then show ?thesis
  proof cases
    case data
    then have e: "emit_directive st a = emit_data st (data_directive_width (st_name st)) (st_operands st) a"
      by (auto simp: data_directive_width_def emit_directive_def Let_def split: if_splits)
    have n: "n = of_nat (length (st_operands st) * data_directive_width (st_name st))" using assms(1) data by (simp add: sized_by_def)
    from quiet_data [of st "data_directive_width (st_name st)" "st_operands st" a] assms(5,6) obtain bs where
      "emit_directive st a = emit_bytes bs a" "length bs = length (st_operands st) * data_directive_width (st_name st)"
      unfolding e by auto
    then show ?thesis using n by auto
  next
    case str
    let ?bs = "map (\<lambda>c. of_nat (code c)) (od_string_value (hd (st_operands st))) @ (if st_name st = ''data_string_zero'' then [0] else [])"
    have "data_directive_width (st_name st) = 0" using str by (auto simp: data_directive_width_def)
    then have "n = of_nat (length ?bs)" using assms(1) str by (auto simp: sized_by_def)
    moreover have "emit_directive st a = emit_bytes ?bs a"
      using str by (auto simp: emit_directive_def Let_def emit_bytes_def)
    ultimately show ?thesis by blast
  next
    case align
    then obtain v where v: "evaluate ?s (st_where st) a = (Some v, a)"
      "n = (if as_address a mod ev_constant v = 0 then 0 else ev_constant v - as_address a mod ev_constant v)" using counted by auto
    have "emit_directive st a = emit_bytes (replicate (unat n) op_kNop) a"
      using align(1) v(1) assms(5) unfolding v(2) by (simp add: emit_directive_def emit_align_def Let_def emit_byte_repeated del: if_split)
    then show ?thesis by auto
  next
    case reserve
    then obtain v where v: "evaluate ?s (st_where st) a = (Some v, a)" "n = ev_constant v" using counted by auto
    then show ?thesis using reserve(1) by (simp add: emit_directive_def Let_def)
  next
    case fill
    then obtain v where v: "evaluate ?s (st_where st) a = (Some v, a)" "n = ev_constant v" "st_operands st \<noteq> []" using counted by auto
    then have h: "st_operands st ! 0 = hd (st_operands st)" by (simp add: hd_conv_nth)
    have e: "emit_directive st a = emit_fill st a" using fill(1) by (simp add: emit_directive_def Let_def)
    obtain r a2 where w: "evaluate (od_expression_text (st_operands st ! 1)) (st_where st) a = (r, a2)" by fastforce
    show ?thesis
    proof (cases r)
      case None
      then show ?thesis using assms(6) e v(1) w h evaluate_fail [of _ _ a a2] by (simp add: emit_fill_def)
    next
      case (Some x)
      then have "a2 = a" using w evaluate_Some by simp
      then have "emit_fill st a = emit_bytes (replicate (unat n) (ucast (ev_constant x AND 0xFF))) a"
        using assms(6) e v(1,2) w h Some
        by (auto simp: emit_fill_def emit_byte_repeated add_error_diags simp del: append_Cons append.simps split: if_splits)
      then show ?thesis using e by auto
    qed
  qed
qed


lemma resolve_opcode_row:
  assumes "resolve_opcode st = Inr b"
  shows "\<exists>e \<in> set kMnemonics. me_text e = st_name st \<and> me_opcode e = b"
proof -
  let ?c = "mnemonic_index (st_name st)"
  have "\<exists>e \<in> set ?c. me_opcode e = b"
  proof (cases "length ?c = 1")
    case True
    then have "?c \<noteq> []" "me_opcode (hd ?c) = b"
      using assms unfolding resolve_opcode_def Let_def by (auto simp del: append_Cons append.simps split: if_splits)
    then show ?thesis by auto
  next
    case False
    then obtain s e where "find (\<lambda>e. me_select e = s) ?c = Some e" "me_opcode e = b"
      using assms unfolding resolve_opcode_def Let_def
      by (auto simp del: append_Cons append.simps split: if_splits sum.splits option.splits)
    then show ?thesis by (auto simp: find_Some_iff)
  qed
  then show ?thesis by (auto simp: mnemonic_index_def)
qed

lemma mnemonic_assigned:
  assumes "e \<in> set kMnemonics"
  shows "oi_kind (opcode_info (me_opcode e)) = Assigned"
proof -
  have "uint (me_opcode e) \<in> set (map (\<lambda>e. uint (me_opcode e)) kMnemonics)" using assms by simp
  then obtain i where i: "(uint (me_opcode e), i) \<in> set (zip [0..255] kOpcodeTable)" "oi_kind i = Assigned"
    unfolding mnemonic_opcodes by auto
  then obtain k where k: "k < length (zip [0..255] kOpcodeTable)" "zip [0..255] kOpcodeTable ! k = (uint (me_opcode e), i)"
    by (auto simp: in_set_conv_nth)
  have "length kOpcodeTable = 256" using kOpcodeTable_checked by simp
  then have "k < 256" "[0..255] ! k = uint (me_opcode e)" "kOpcodeTable ! k = i" using k by simp_all
  then have "int k = uint (me_opcode e)" by (subst (asm) nth_upto) simp_all
  then have "unat (me_opcode e) = k" by (metis nat_int nat_uint_eq)
  then show ?thesis using i(2) \<open>kOpcodeTable ! k = i\<close> by (simp add: opcode_info_def)
qed

lemma resolve_opcode_assigned: "resolve_opcode st = Inr b \<Longrightarrow> oi_kind (opcode_info b) = Assigned"
  using resolve_opcode_row mnemonic_assigned by blast

section \<open>The passes in step\<close>

definition places :: "Statement \<Rightarrow> bool" where
  "places st \<longleftrightarrow>
     st_kind st = Instruction \<or>
     st_kind st = Directive \<and> st_name st \<notin> set [''section'', ''origin'', ''constant'', ''global'', ''extern'']"

definition in_step :: "PassOne \<Rightarrow> Assembler \<Rightarrow> bool" where
  "in_step p a \<longleftrightarrow>
     as_mode a = Flat \<and> as_current_section a = SEC_NULL \<and> as_second_pass a \<and> symbols_kept (p1_assembler p) a \<and>
     (if p1_flat_base_pending p then as_address a = as_flat_base a
      else as_address a = as_address (p1_assembler p) \<and> as_flat_base a = as_flat_base (p1_assembler p))"

text \<open>What a statement does to the image: it emits bytes at the address, or it only moves the address.\<close>

definition image_step :: "Assembler \<Rightarrow> Assembler \<Rightarrow> bool" where
  "image_step a a' \<longleftrightarrow> (\<exists>bs r. only_reports a r \<and> a' = emit_bytes bs r) \<or> (\<exists>x. a' = a\<lparr>as_address := x\<rparr>)"

lemma flat_statement:
  assumes "follows st p p'" and "p1_flat p" and "in_step p a" and "symbols_kept (p1_assembler p') a"
    and "\<not> p1_flat_base_pending p' \<longrightarrow> as_flat_base a = as_flat_base (p1_assembler p')"
    and "\<forall>operand \<in> set (st_operands st). od_reg operand < 32"
    and "pass_two_statement st (c, a) = (c', a')" and "as_diags a' = as_diags a"
  shows "in_step p' a' \<and> (if places st then as_address a = st_address st \<and> image_step a a' else \<exists>x. a' = a\<lparr>as_address := x\<rparr>)"
proof -
  let ?a = "p1_assembler p"
  have addr: "as_address a = as_address ?a" if "\<not> p1_flat_base_pending p'" "as_flat_base (p1_assembler p') = (if p1_flat_base_pending p then as_address ?a else as_flat_base ?a)"
    using that assms(2,3,5) by (auto simp: in_step_def split: if_splits)
  have inst: "in_step p' a'" if "\<not> p1_flat_base_pending p'" "as_address a' = as_address (p1_assembler p')" "as_symbols a' = as_symbols a"
      "as_mode a' = as_mode a" "as_current_section a' = as_current_section a" "as_second_pass a' = as_second_pass a" "as_flat_base a' = as_flat_base a"
    using that assms(3-5) symbols_cong(3) [OF that(3)] by (simp add: in_step_def)
  have moved: "in_step p' a" if "p1_flat_base_pending p' = p1_flat_base_pending p" "as_flat_base (p1_assembler p') = as_flat_base ?a"
      "as_address (p1_assembler p') = as_address ?a"
    using that assms(3,4) by (auto simp: in_step_def)
  show ?thesis
  proof (cases "st_kind st")
    case Label
    then have "a' = a" using assms(7) by (simp add: pass_two_statement_def)
    moreover have "in_step p' a" using Label assms(1) by (intro moved) (simp_all add: follows_def Let_def)
    ultimately show ?thesis using Label by (auto simp: places_def intro!: exI [of _ "as_address a"])
  next
    case Instruction
    then have f: "\<not> p1_flat_base_pending p'" "as_flat_base (p1_assembler p') = (if p1_flat_base_pending p then as_address ?a else as_flat_base ?a)"
      "st_address st = as_address ?a" "resolve_opcode st = Inr (st_opcode st)" "st_length st = oi_length (opcode_info (st_opcode st))"
      "as_address (p1_assembler p') = as_address ?a + of_nat (st_length st)"
      using assms(1) by (simp_all add: follows_def Let_def)
    have as: "oi_kind (opcode_info (st_opcode st)) = Assigned" using f(4) by (rule resolve_opcode_assigned)
    then have "st_length st \<noteq> 0" using assigned_length_bounds(1) [OF as] f(5) by simp
    then have e: "a' = encode_instruction st a" using Instruction assms(7) by (simp add: pass_two_statement_def)
    obtain bs r where b: "a' = emit_bytes bs r" "only_reports a r" "length bs = st_length st"
      using encoded_instruction_decodes [of st a, OF _ as assms(6)] assms(8) f(5) unfolding e by auto
    note rf = only_reports_fields [OF b(2)]
    have ad: "as_address a = as_address ?a" using f(1,2) by (rule addr)
    have "in_step p' a'" using f(1,6) ad b(1,3) rf by (intro inst) simp_all
    then show ?thesis using ad f(3) b(1,2) Instruction unfolding places_def image_step_def by auto
  next
    case Directive
    consider (origin) "st_name st = ''origin''" | (bind) "st_name st = ''constant'' \<or> st_name st = ''global'' \<or> st_name st = ''extern''"
      | (data) "places st"
      using assms(1) Directive by (auto simp: follows_def places_def Let_def split: if_splits)
    then show ?thesis
    proof cases
      case origin
      then have e: "a' = a\<lparr>as_address := st_address st\<rparr>" using assms(7) Directive by (simp add: pass_two_statement_def)
      have "\<not> p1_flat_base_pending p'" "as_address (p1_assembler p') = st_address st"
        using assms(1) origin Directive by (simp_all add: follows_def Let_def)
      then have "in_step p' a'" by (intro inst) (simp_all add: e)
      then show ?thesis using e origin Directive by (auto simp: places_def)
    next
      case bind
      then have "st_name st \<noteq> ''section''" "st_name st \<noteq> ''origin''" by auto
      then have "a' = a" using assms(7) Directive bind by (auto simp: pass_two_statement_def emit_directive_def Let_def)
      moreover have "in_step p' a"
        using Directive assms(1) bind \<open>st_name st \<noteq> ''section''\<close> \<open>st_name st \<noteq> ''origin''\<close> by (intro moved) (simp_all add: follows_def Let_def)
      ultimately show ?thesis using bind Directive by (auto simp: places_def intro!: exI [of _ "as_address a"])
    next
      case data
      then have nm: "st_name st \<noteq> ''section''" "st_name st \<noteq> ''origin''"
        "st_name st \<noteq> ''constant'' \<and> st_name st \<noteq> ''global'' \<and> st_name st \<noteq> ''extern''" using Directive by (simp_all add: places_def)
      obtain n where f: "\<not> p1_flat_base_pending p'" "as_flat_base (p1_assembler p') = (if p1_flat_base_pending p then as_address ?a else as_flat_base ?a)"
        "st_address st = as_address ?a" "as_address (p1_assembler p') = as_address ?a + n" "sized_by st ?a n"
        using assms(1) Directive nm by (auto simp: follows_def Let_def)
      have ad: "as_address a = as_address ?a" using f(1,2) by (rule addr)
      have e: "a' = emit_directive st a" using assms(7) Directive nm by (simp add: pass_two_statement_def)
      have ok: "symbols_ok ?a" "symbols_kept ?a a" "as_mode a = Flat" using assms(2,3) by (simp_all add: p1_flat_def in_step_def Let_def)
      consider (emit) bs where "a' = emit_bytes bs a" "n = of_nat (length bs)" | (skip) "a' = reserve_space n a"
        using flat_directive [OF f(5) ok(1,2) ad ok(3) _ nm(3)] assms(8) unfolding e by blast
      then have "in_step p' a' \<and> image_step a a'"
      proof cases
        case emit
        then have "in_step p' a'" using f(1,4) ad by (intro inst) simp_all
        then show ?thesis using emit only_reports_refl unfolding image_step_def by blast
      next
        case skip
        then have "in_step p' a'" using f(1,4) ad by (intro inst) (simp_all add: reserve_space_def)
        then show ?thesis using skip unfolding image_step_def reserve_space_def by blast
      qed
      then show ?thesis using data ad f(3) by simp
    qed
  qed
qed

section \<open>The flat image\<close>

definition image_index :: "Assembler \<Rightarrow> nat" where
  "image_index a = unat (as_address a - as_flat_base a)"

lemma place_byte_facts:
  shows "length (place_byte img i v) = max (length img) (Suc (unat i))"
    and "place_byte img i v ! unat i = v"
    and "k < length img \<Longrightarrow> k \<noteq> unat i \<Longrightarrow> place_byte img i v ! k = img ! k"
  by (auto simp: place_byte_def Let_def nth_append max_def nth_list_update)

lemma emit_byte_flat:
  assumes "as_second_pass a" and "as_mode a = Flat"
  shows "as_flat_image (emit_byte b a) = place_byte (as_flat_image a) (as_address a - as_flat_base a) b"
  using assms by (simp add: emit_byte_def Let_def)

lemma unat_successor: "Suc (unat x) < 2 ^ 64 \<Longrightarrow> unat (x + 1 :: u64) = Suc (unat x)"
  by (simp add: unat_word_ariths)

lemma emit_bytes_length: "length (as_flat_image a) \<le> length (as_flat_image (emit_bytes bs a))"
proof (induction bs arbitrary: a)
  case (Cons b bs)
  have "length (as_flat_image a) \<le> length (as_flat_image (emit_byte b a))"
    by (simp add: emit_byte_def Let_def place_byte_facts(1))
  also have "\<dots> \<le> length (as_flat_image (emit_bytes bs (emit_byte b a)))" by (rule Cons.IH)
  finally show ?case by (simp add: emit_bytes_def)
qed (simp add: emit_bytes_def)

text \<open>Bytes that stay within the address space land one after the other and leave the image before them alone.\<close>

lemma emit_bytes_flat:
  assumes "as_second_pass a" and "as_mode a = Flat" and "length (as_flat_image (emit_bytes bs a)) < 2 ^ 64"
  shows "(bs \<noteq> [] \<longrightarrow> image_index a + length bs \<le> length (as_flat_image (emit_bytes bs a))) \<and>
    (\<forall>t < length bs. as_flat_image (emit_bytes bs a) ! (image_index a + t) = bs ! t) \<and>
    (\<forall>k < length (as_flat_image a). k < image_index a \<longrightarrow> as_flat_image (emit_bytes bs a) ! k = as_flat_image a ! k)"
  using assms
proof (induction bs arbitrary: a)
  case Nil
  then show ?case by (simp add: emit_bytes_def)
next
  case (Cons b bs)
  let ?a = "emit_byte b a" and ?i = "image_index a"
  have e: "emit_bytes (b # bs) a = emit_bytes bs ?a" by (simp add: emit_bytes_def)
  have im: "as_flat_image ?a = place_byte (as_flat_image a) (as_address a - as_flat_base a) b"
    using Cons.prems(1,2) by (rule emit_byte_flat)
  have len: "Suc ?i \<le> length (as_flat_image ?a)" "length (as_flat_image a) \<le> length (as_flat_image ?a)"
    unfolding im by (simp_all add: place_byte_facts(1) image_index_def)
  have l2: "length (as_flat_image ?a) \<le> length (as_flat_image (emit_bytes bs ?a))" by (rule emit_bytes_length)
  have "Suc ?i < 2 ^ 64" using len(1) l2 Cons.prems(3) unfolding e by linarith
  then have i: "image_index ?a = Suc ?i"
    using unat_successor [of "as_address a - as_flat_base a"] by (simp add: image_index_def algebra_simps)
  have ih: "(bs \<noteq> [] \<longrightarrow> image_index ?a + length bs \<le> length (as_flat_image (emit_bytes bs ?a))) \<and>
    (\<forall>t < length bs. as_flat_image (emit_bytes bs ?a) ! (image_index ?a + t) = bs ! t) \<and>
    (\<forall>k < length (as_flat_image ?a). k < image_index ?a \<longrightarrow> as_flat_image (emit_bytes bs ?a) ! k = as_flat_image ?a ! k)"
    using Cons.IH [of ?a] Cons.prems by (simp add: e)
  have "as_flat_image (emit_bytes bs ?a) ! (?i + t) = (b # bs) ! t" if "t < length (b # bs)" for t
  proof (cases t)
    case 0
    have "as_flat_image (emit_bytes bs ?a) ! ?i = as_flat_image ?a ! ?i" using ih len(1) i by simp
    then show ?thesis using 0 place_byte_facts(2) by (simp add: im image_index_def)
  next
    case (Suc t')
    then show ?thesis using ih i that by simp
  qed
  moreover have "as_flat_image (emit_bytes bs ?a) ! k = as_flat_image a ! k" if "k < length (as_flat_image a)" "k < ?i" for k
  proof -
    have "as_flat_image (emit_bytes bs ?a) ! k = as_flat_image ?a ! k" using ih i that len by simp
    also have "\<dots> = as_flat_image a ! k" using that unfolding im by (intro place_byte_facts(3)) (simp_all add: image_index_def)
    finally show ?thesis .
  qed
  ultimately show ?case using ih i len(1) l2 unfolding e by (cases bs) auto
qed

lemma image_step_before:
  assumes "image_step a a'" and "as_second_pass a" and "as_mode a = Flat" and "length (as_flat_image a') < 2 ^ 64"
  shows "length (as_flat_image a) \<le> length (as_flat_image a') \<and>
    (\<forall>k < length (as_flat_image a). k < image_index a \<longrightarrow> as_flat_image a' ! k = as_flat_image a ! k)"
proof -
  consider bs r where "only_reports a r" "a' = emit_bytes bs r" | x where "a' = a\<lparr>as_address := x\<rparr>"
    using assms(1) unfolding image_step_def by blast
  then show ?thesis
  proof cases
    case 1
    note f = only_reports_fields [OF 1(1)]
    have "image_index r = image_index a" by (simp add: image_index_def f)
    then show ?thesis using emit_bytes_flat [of r bs] emit_bytes_length [of r bs] assms(2-4) 1(2) f by simp
  qed simp
qed

section \<open>Diagnostics of the second pass\<close>

lemma encode_instruction_later: "later a (encode_instruction st a)"
proof -
  obtain r a1 where e: "encode_operands st (zip (pattern_for (st_opcode st)) (st_operands st)) ([], []) a = (r, a1)" by fastforce
  have l: "later a a1" by (rule only_reports_later [OF encode_operands_reports [OF e]])
  have "later a1 (fold (\<lambda>(v, n). emit_immediate v n) ims (fold emit_byte ob (emit_byte b a1)))" for ims ob b
    using later_emit [of a1 "b # ob @ concat (map immediate_bytes ims)"] unfolding emit_immediates emit_bytes_def by simp
  then have "later a1 (case (r, a1) of (None, a) \<Rightarrow> a
      | (Some (ob, ims), a) \<Rightarrow> if c ob ims then add_error (st_where st) m a
          else fold (\<lambda>(v, n). emit_immediate v n) ims (fold emit_byte ob (emit_byte (st_opcode st) a)))" for c m
    by (auto split: option.split prod.split)
  from later_trans [OF l this] show ?thesis
    using e unfolding encode_instruction_def Let_def by (simp del: append_Cons append.simps)
qed

lemma emit_directive_later: "later a (emit_directive st a)"
proof -
  obtain r a1 where e: "evaluate (od_expression_text (hd (st_operands st))) (st_where st) a = (r, a1)" by fastforce
  note l = evaluate_later [OF e]
  have al: "later a (emit_align st a)"
    using e l later_trans [OF l] by (cases r) (auto simp: emit_align_def Let_def emit_byte_repeated reserve_space_def)
  have fi: "later a (emit_fill st a)"
  proof -
    obtain r a1 where e: "evaluate (od_expression_text (st_operands st ! 0)) (st_where st) a = (r, a1)" by fastforce
    obtain s a2 where f: "evaluate (od_expression_text (st_operands st ! 1)) (st_where st) a1 = (s, a2)" by fastforce
    note l = evaluate_later [OF e] and l2 = later_trans [OF evaluate_later [OF e] evaluate_later [OF f]]
    show ?thesis using e f l l2 later_trans [OF l2]
      by (cases r; cases s) (auto simp: emit_fill_def Let_def emit_byte_repeated simp del: append_Cons append.simps)
  qed
  have re: "later a (case (r, a1) of (None, a) \<Rightarrow> a | (Some count, a) \<Rightarrow> reserve_space (ev_constant count) a)"
    using l later_trans [OF l] by (cases r) (auto simp: reserve_space_def)
  have str: "later a (emit_byte 0 (emit_bytes bs a))" for bs
    using later_emit [of a "bs @ [0]"] by (simp add: emit_bytes_def)
  show ?thesis
    using al fi re str emit_data_later [of a st "data_directive_width (st_name st)" "st_operands st"]
    unfolding emit_directive_def Let_def e by (simp del: append_Cons append.simps)
qed

lemma pass_two_later: "later (snd s) (snd (pass_two_statement st s))"
  using emit_directive_later [of "snd s" st] encode_instruction_later [of "snd s" st]
  by (cases s) (auto simp: pass_two_statement_def Let_def later_def split: StatementKind.split)

lemma pass_two_fold_later: "later (snd s) (snd (fold pass_two_statement sts s))"
proof (induction sts arbitrary: s)
  case (Cons st sts)
  show ?case using later_trans [OF pass_two_later Cons.IH] by simp
qed simp

lemma pass_two_between:
  assumes "as_diags (snd (fold pass_two_statement sts (pass_two_statement st s))) = as_diags (snd s)"
  shows "as_diags (snd (pass_two_statement st s)) = as_diags (snd s)"
  using later_quiet [OF pass_two_later pass_two_fold_later assms] .

section \<open>Whole passes\<close>

lemma follows_base:
  assumes "follows st p p'" and "\<not> p1_flat_base_pending p"
  shows "\<not> p1_flat_base_pending p' \<and> as_flat_base (p1_assembler p') = as_flat_base (p1_assembler p)"
  using assms by (auto simp: follows_def Let_def split: StatementKind.splits if_splits)

lemma grows_between:
  assumes "grows p q" and "grows q r" and "p1_diags r = p1_diags p"
  shows "p1_diags q = p1_diags p"
proof -
  obtain ds es where "p1_diags q = p1_diags p @ ds" "p1_diags r = p1_diags q @ es" using assms(1,2) unfolding grows_def by blast
  then show ?thesis using assms(3) by simp
qed

lemma quiet_loop:
  assumes "pass_one_loop sts p = (sts', pf)" and "p1_diags pf = p1_diags p" and "p1_flat p" and "as_mode (p1_assembler pf) \<noteq> Sectioned"
  shows "p1_flat pf \<and> symbols_kept (p1_assembler p) (p1_assembler pf) \<and> list_all2 same_source sts sts' \<and>
    as_relocations (p1_assembler pf) = as_relocations (p1_assembler p) \<and>
    (\<not> p1_flat_base_pending p \<longrightarrow> \<not> p1_flat_base_pending pf \<and> as_flat_base (p1_assembler pf) = as_flat_base (p1_assembler p))"
  using assms
proof (induction sts arbitrary: p sts')
  case (Cons st sts)
  obtain st' q rest where s: "pass_one_statement st p = (st', q)" "pass_one_loop sts q = (rest, pf)" "sts' = st' # rest"
    using Cons.prems(1) by (auto split: prod.splits)
  have g: "grows p q" "grows q pf" using grows_statement [of p st] grows_loop [of q sts] s(1,2) by simp_all
  then have d: "p1_diags q = p1_diags p" "p1_diags pf = p1_diags q" "as_mode (p1_assembler q) \<noteq> Sectioned"
    using grows_between [OF g Cons.prems(2)] g(2) Cons.prems(2,4) unfolding grows_def by simp_all
  note f = quiet_statement [OF s(1) d(1) Cons.prems(3) d(3)]
  then have "p1_flat q" "symbols_kept (p1_assembler p) (p1_assembler q)"
    "as_relocations (p1_assembler q) = as_relocations (p1_assembler p)" by (simp_all add: follows_def Let_def)
  then show ?case
    using Cons.IH [OF s(2) d(2) \<open>p1_flat q\<close> Cons.prems(4)] f follows_base [of st' p q] s(3) symbols_kept_trans by auto
qed simp

lemma flat_loop:
  assumes "pass_one_loop sts p = (sts', pf)" and "p1_diags pf = p1_diags p" and "p1_flat p" and "as_mode (p1_assembler pf) \<noteq> Sectioned"
    and "in_step p a" and "symbols_kept (p1_assembler pf) a"
    and "\<not> p1_flat_base_pending pf \<longrightarrow> as_flat_base a = as_flat_base (p1_assembler pf)"
    and "\<forall>st \<in> set sts. \<forall>operand \<in> set (st_operands st). od_reg operand < 32"
    and "fold pass_two_statement sts' (c, a) = (c', a')" and "as_diags a' = as_diags a"
  shows "in_step pf a' \<and> as_flat_base a' = as_flat_base a \<and> as_symbols a' = as_symbols a \<and> as_relocations a' = as_relocations a \<and>
    (length (as_flat_image a') < 2 ^ 64 \<longrightarrow> length (as_flat_image a) \<le> length (as_flat_image a') \<and>
       (\<forall>k < length (as_flat_image a). (\<forall>st \<in> set sts'. places st \<longrightarrow> k < unat (st_address st - as_flat_base a)) \<longrightarrow>
          as_flat_image a' ! k = as_flat_image a ! k))"
  using assms
proof (induction sts arbitrary: p sts' c a)
  case (Cons st sts)
  obtain st' q rest where s: "pass_one_statement st p = (st', q)" "pass_one_loop sts q = (rest, pf)" "sts' = st' # rest"
    using Cons.prems(1) by (auto split: prod.splits)
  obtain c1 a1 where t: "pass_two_statement st' (c, a) = (c1, a1)" "fold pass_two_statement rest (c1, a1) = (c', a')"
    using Cons.prems(9) s(3) by (cases "pass_two_statement st' (c, a)") simp
  have g: "grows p q" "grows q pf" using grows_statement [of p st] grows_loop [of q sts] s(1,2) by simp_all
  then have d: "p1_diags q = p1_diags p" "p1_diags pf = p1_diags q" "as_mode (p1_assembler q) \<noteq> Sectioned"
    using grows_between [OF g Cons.prems(2)] g(2) Cons.prems(2,4) unfolding grows_def by simp_all
  have d2: "as_diags a1 = as_diags a" "as_diags a' = as_diags a1"
    using pass_two_between [of rest st' "(c, a)"] t Cons.prems(10) by simp_all
  note f = quiet_statement [OF s(1) d(1) Cons.prems(3) d(3)]
  then have q: "p1_flat q" by (simp add: follows_def Let_def)
  note ql = quiet_loop [OF s(2) d(2) q Cons.prems(4)]
  have kept: "symbols_kept (p1_assembler q) a" using ql Cons.prems(6) symbols_kept_trans by blast
  have base: "\<not> p1_flat_base_pending q \<longrightarrow> as_flat_base a = as_flat_base (p1_assembler q)" using ql Cons.prems(7) by simp
  have regs: "\<forall>operand \<in> set (st_operands st'). od_reg operand < 32" using Cons.prems(8) f by (simp add: same_source_def)
  note fs = flat_statement [OF conjunct1 [OF f] Cons.prems(3,5) kept base regs t(1) d2(1)]
  have st: "as_flat_base a1 = as_flat_base a" "as_symbols a1 = as_symbols a" "as_relocations a1 = as_relocations a"
    using fs only_reports_fields(1,7,11) Cons.prems(5) by (auto simp: image_step_def in_step_def split: if_splits)
  have ih: "in_step pf a' \<and> as_flat_base a' = as_flat_base a1 \<and> as_symbols a' = as_symbols a1 \<and> as_relocations a' = as_relocations a1 \<and>
    (length (as_flat_image a') < 2 ^ 64 \<longrightarrow> length (as_flat_image a1) \<le> length (as_flat_image a') \<and>
       (\<forall>k < length (as_flat_image a1). (\<forall>st \<in> set rest. places st \<longrightarrow> k < unat (st_address st - as_flat_base a1)) \<longrightarrow>
          as_flat_image a' ! k = as_flat_image a1 ! k))"
    using Cons.prems(6-8) symbols_cong(3) [OF st(2)] st(1) fs
    by (intro Cons.IH [OF s(2) d(2) q Cons.prems(4) _ _ _ _ t(2) d2(2)]) simp_all
  have here: "length (as_flat_image a1) < 2 ^ 64 \<longrightarrow> length (as_flat_image a) \<le> length (as_flat_image a1) \<and>
      (\<forall>k < length (as_flat_image a). (places st' \<longrightarrow> k < unat (st_address st' - as_flat_base a)) \<longrightarrow> as_flat_image a1 ! k = as_flat_image a ! k)"
  proof (cases "places st'")
    case True
    then have "image_step a a1" "as_address a = st_address st'" using fs by simp_all
    then show ?thesis using image_step_before [of a a1] Cons.prems(5) True by (simp add: in_step_def image_index_def)
  next
    case False
    then show ?thesis using fs by auto
  qed
  show ?case
  proof (intro conjI impI)
    assume l: "length (as_flat_image a') < 2 ^ 64"
    then have l1: "length (as_flat_image a1) \<le> length (as_flat_image a')" "length (as_flat_image a1) < 2 ^ 64" using ih by auto
    then show "length (as_flat_image a) \<le> length (as_flat_image a')" using here by auto
    show "\<forall>k < length (as_flat_image a). (\<forall>st \<in> set sts'. places st \<longrightarrow> k < unat (st_address st - as_flat_base a)) \<longrightarrow>
          as_flat_image a' ! k = as_flat_image a ! k"
      using ih here l l1 st(1) s(3) by auto
  qed (use ih st in simp_all)
qed simp

section \<open>An instruction in the image\<close>

lemma pass_one_loop_append:
  "pass_one_loop (xs @ ys) p =
   (case pass_one_loop xs p of (xs', q) \<Rightarrow> case pass_one_loop ys q of (ys', r) \<Rightarrow> (xs' @ ys', r))"
  by (induction xs arbitrary: p) (auto split: prod.splits)

lemma pass_one_loop_length: "pass_one_loop xs p = (xs', q) \<Longrightarrow> length xs' = length xs"
  by (induction xs arbitrary: p xs') (auto split: prod.splits)

lemma pass_one_loop_split:
  assumes "pass_one_loop sts p = (pre' @ st' # post', pf)"
  obtains pre st post q1 q2 where "sts = pre @ st # post" "pass_one_loop pre p = (pre', q1)"
    "pass_one_statement st q1 = (st', q2)" "pass_one_loop post q2 = (post', pf)"
proof -
  let ?n = "length pre'"
  have n: "length sts = Suc (?n + length post')" using pass_one_loop_length [OF assms] by simp
  obtain pre'' q1 where a: "pass_one_loop (take ?n sts) p = (pre'', q1)" by fastforce
  obtain rest r where b: "pass_one_loop (drop ?n sts) q1 = (rest, r)" by fastforce
  have "(pre'' @ rest, r) = (pre' @ st' # post', pf)"
    using assms pass_one_loop_append [of "take ?n sts" "drop ?n sts" p] a b by simp
  moreover have "length pre'' = ?n" using pass_one_loop_length [OF a] n by simp
  ultimately have e: "pre'' = pre'" "rest = st' # post'" "r = pf" by auto
  obtain st post where d: "drop ?n sts = st # post" using n by (cases "drop ?n sts") auto
  obtain q2 where "pass_one_statement st q1 = (st', q2)" "pass_one_loop post q2 = (post', pf)"
    using b unfolding d e by (auto split: prod.splits)
  then show ?thesis using that [of "take ?n sts" st post q1 q2] a e d by (metis append_take_drop_id)
qed

lemma fold_pass_two_split:
  assumes "fold pass_two_statement (pre @ st # post) (c, a) = (c', a')" and "as_diags a' = as_diags a"
  obtains c1 a1 c2 a2 where "fold pass_two_statement pre (c, a) = (c1, a1)" "pass_two_statement st (c1, a1) = (c2, a2)"
    "fold pass_two_statement post (c2, a2) = (c', a')" "as_diags a1 = as_diags a" "as_diags a2 = as_diags a1" "as_diags a' = as_diags a2"
proof -
  obtain c1 a1 where p: "fold pass_two_statement pre (c, a) = (c1, a1)" by fastforce
  obtain c2 a2 where s: "pass_two_statement st (c1, a1) = (c2, a2)" by fastforce
  have r: "fold pass_two_statement post (c2, a2) = (c', a')" using assms(1) p s by simp
  have l: "later a a1" "later a1 a2" "later a2 a'"
    using pass_two_fold_later [of "(c, a)" pre] pass_two_later [of "(c1, a1)" st] pass_two_fold_later [of "(c2, a2)" post] p s r by simp_all
  have "as_diags a1 = as_diags a" using later_quiet [OF l(1) later_trans [OF l(2,3)] assms(2)] .
  moreover have "as_diags a2 = as_diags a1" using later_quiet [OF l(2,3)] assms(2) calculation by simp
  ultimately show ?thesis using that [OF p s r] assms(2) by simp
qed

text \<open>A quiet first pass around one statement, and the label that stands before the next placed one.\<close>

lemma quiet_split:
  assumes "pass_one_loop sts p = (pre @ st # post, pf)" and "p1_diags pf = p1_diags p" and "p1_flat p"
    and "as_mode (p1_assembler pf) \<noteq> Sectioned"
  obtains pre0 st0 post0 q1 q2 where "sts = pre0 @ st0 # post0" "pass_one_loop pre0 p = (pre, q1)"
    "pass_one_loop post0 q2 = (post, pf)" "follows st q1 q2" "same_source st0 st" "p1_flat q1" "p1_flat q2"
    "p1_diags q1 = p1_diags p" "p1_diags pf = p1_diags q2" "as_mode (p1_assembler q1) \<noteq> Sectioned"
    "symbols_kept (p1_assembler q2) (p1_assembler pf)"
    "\<not> p1_flat_base_pending q2 \<longrightarrow> \<not> p1_flat_base_pending pf \<and> as_flat_base (p1_assembler pf) = as_flat_base (p1_assembler q2)"
proof -
  obtain pre0 st0 post0 q1 q2 where sp: "sts = pre0 @ st0 # post0" "pass_one_loop pre0 p = (pre, q1)"
    "pass_one_statement st0 q1 = (st, q2)" "pass_one_loop post0 q2 = (post, pf)"
    using pass_one_loop_split [OF assms(1)] .
  have g: "grows p q1" "grows q1 q2" "grows q2 pf"
    using grows_loop [of p pre0] grows_statement [of q1 st0] grows_loop [of q2 post0] sp by simp_all
  have d: "p1_diags q1 = p1_diags p" "p1_diags q2 = p1_diags q1" "p1_diags pf = p1_diags q2"
    using grows_between [OF g(1) grows_trans [OF g(2,3)] assms(2)] grows_between [OF g(2,3)] assms(2) by simp_all
  have m: "as_mode (p1_assembler q1) \<noteq> Sectioned" "as_mode (p1_assembler q2) \<noteq> Sectioned" using g assms(4) by (auto simp: grows_def)
  note l1 = quiet_loop [OF sp(2) d(1) assms(3) m(1)]
  note f = quiet_statement [OF sp(3) d(2) conjunct1 [OF l1] m(2)]
  then have q2: "p1_flat q2" by (simp add: follows_def Let_def)
  note l2 = quiet_loop [OF sp(4) d(3) q2 assms(4)]
  show ?thesis using that [OF sp(1,2,4)] f l1 l2 q2 d m(1) by blast
qed

definition stands_still :: "Statement \<Rightarrow> bool" where
  "stands_still st \<longleftrightarrow>
     st_kind st = Label \<or> st_kind st = Directive \<and> st_name st \<in> set [''constant'', ''global'', ''extern'']"

lemma next_placed:
  assumes "pass_one_loop sts p = (pre @ st # post, pf)" and "p1_diags pf = p1_diags p" and "p1_flat p"
    and "as_mode (p1_assembler pf) \<noteq> Sectioned" and "\<forall>s \<in> set pre. stands_still s" and "places st"
  shows "st_address st = as_address (p1_assembler p)"
  using assms
proof (induction pre arbitrary: sts p)
  case Nil
  obtain q1 q2 where "pass_one_loop [] p = ([], q1)" "follows st q1 q2"
    using quiet_split [OF Nil.prems(1-4)] by (metis pass_one_loop_length list.size(3) length_0_conv)
  then show ?case using Nil.prems(6) by (auto simp: follows_def places_def Let_def)
next
  case (Cons s pre)
  obtain sts' q q2 where q: "pass_one_loop sts' q2 = (pre @ st # post, pf)" "pass_one_loop [] p = ([], q)" "follows s q q2" "p1_flat q2"
    "p1_diags pf = p1_diags q2"
    using quiet_split [of sts p "[]" s "pre @ st # post" pf] Cons.prems(1-4)
    by (metis append_Nil append_Cons pass_one_loop_length list.size(3) length_0_conv)
  have "as_address (p1_assembler q2) = as_address (p1_assembler p)"
    using q(2,3) Cons.prems(5) by (auto simp: follows_def stands_still_def Let_def)
  then show ?case using Cons.IH [OF q(1,5,4)] Cons.prems(4-6) by simp
qed

lemma label_value:
  assumes "pass_one_loop sts p = (pre @ label # between @ st # post, pf)" and "p1_diags pf = p1_diags p" and "p1_flat p"
    and "as_mode (p1_assembler pf) \<noteq> Sectioned" and "st_kind label = Label"
    and "\<forall>s \<in> set between. stands_still s" and "places st"
  shows "lookup_in_assembler (p1_assembler pf) (st_name label) = label_query (st_address st)"
proof -
  obtain post0 q1 q2 where q: "pass_one_loop post0 q2 = (between @ st # post, pf)" "follows label q1 q2" "p1_flat q2"
    "p1_diags pf = p1_diags q2" "symbols_kept (p1_assembler q2) (p1_assembler pf)"
    using quiet_split [OF assms(1-4)] .
  have "lookup_in_assembler (p1_assembler q2) (st_name label) = label_query (as_address (p1_assembler q2))"
    using q(2) assms(5) by (simp add: follows_def Let_def)
  moreover have "st_address st = as_address (p1_assembler q2)"
    by (rule next_placed [OF q(1,4,3) assms(4,6,7)])
  ultimately show ?thesis using q(5) by (simp add: symbols_kept_def label_query_def)
qed

text \<open>Both passes around one statement.\<close>

lemma flat_around:
  assumes "pass_one_loop sts p = (pre @ st # post, pf)" and "p1_diags pf = p1_diags p" and "p1_flat p"
    and "as_mode (p1_assembler pf) \<noteq> Sectioned" and "in_step p a" and "symbols_kept (p1_assembler pf) a"
    and "\<not> p1_flat_base_pending pf \<longrightarrow> as_flat_base a = as_flat_base (p1_assembler pf)"
    and "\<forall>st \<in> set sts. \<forall>operand \<in> set (st_operands st). od_reg operand < 32"
    and "fold pass_two_statement (pre @ st # post) (c, a) = (c', a')" and "as_diags a' = as_diags a"
  shows "\<exists>c1 a1 c2 a2 q1 q2. follows st q1 q2 \<and> in_step q1 a1 \<and> in_step q2 a2 \<and>
    pass_two_statement st (c1, a1) = (c2, a2) \<and> as_diags a2 = as_diags a1 \<and>
    as_symbols a1 = as_symbols a \<and> as_flat_base a1 = as_flat_base a \<and> as_relocations a1 = as_relocations a \<and>
    (\<forall>operand \<in> set (st_operands st). od_reg operand < 32) \<and> (places st \<longrightarrow> as_address a1 = st_address st) \<and>
    (length (as_flat_image a') < 2 ^ 64 \<longrightarrow> length (as_flat_image a2) \<le> length (as_flat_image a') \<and>
       (\<forall>k < length (as_flat_image a2). (\<forall>s \<in> set post. places s \<longrightarrow> k < unat (st_address s - as_flat_base a)) \<longrightarrow>
          as_flat_image a' ! k = as_flat_image a2 ! k))"
proof -
  obtain pre0 st0 post0 q1 q2 where sp: "sts = pre0 @ st0 # post0" "pass_one_loop pre0 p = (pre, q1)"
    "pass_one_loop post0 q2 = (post, pf)" "follows st q1 q2" "same_source st0 st" "p1_flat q1" "p1_flat q2"
    "p1_diags q1 = p1_diags p" "p1_diags pf = p1_diags q2" "as_mode (p1_assembler q1) \<noteq> Sectioned"
    "symbols_kept (p1_assembler q2) (p1_assembler pf)"
    "\<not> p1_flat_base_pending q2 \<longrightarrow> \<not> p1_flat_base_pending pf \<and> as_flat_base (p1_assembler pf) = as_flat_base (p1_assembler q2)"
    using quiet_split [OF assms(1-4)] .
  obtain c1 a1 c2 a2 where t: "fold pass_two_statement pre (c, a) = (c1, a1)" "pass_two_statement st (c1, a1) = (c2, a2)"
    "fold pass_two_statement post (c2, a2) = (c', a')" "as_diags a1 = as_diags a" "as_diags a2 = as_diags a1" "as_diags a' = as_diags a2"
    using fold_pass_two_split [OF assms(9,10)] .
  have k2: "symbols_kept (p1_assembler q2) a" using sp(11) assms(6) symbols_kept_trans by blast
  have k1: "symbols_kept (p1_assembler q1) a" using sp(4) k2 symbols_kept_trans by (auto simp: follows_def Let_def)
  have b2: "\<not> p1_flat_base_pending q2 \<longrightarrow> as_flat_base a = as_flat_base (p1_assembler q2)" using sp(12) assms(7) by simp
  have b1: "\<not> p1_flat_base_pending q1 \<longrightarrow> as_flat_base a = as_flat_base (p1_assembler q1)" using follows_base [OF sp(4)] b2 by auto
  have r1: "\<forall>st \<in> set pre0. \<forall>operand \<in> set (st_operands st). od_reg operand < 32"
    and r2: "\<forall>st \<in> set post0. \<forall>operand \<in> set (st_operands st). od_reg operand < 32"
    and r: "\<forall>operand \<in> set (st_operands st). od_reg operand < 32"
    using assms(8) sp(1,5) by (auto simp: same_source_def)
  note w1 = flat_loop [OF sp(2,8) assms(3) sp(10) assms(5) k1 b1 r1 t(1,4)]
  have a1: "as_symbols a1 = as_symbols a" "as_flat_base a1 = as_flat_base a" "as_relocations a1 = as_relocations a" using w1 by simp_all
  have k2': "symbols_kept (p1_assembler q2) a1" using k2 symbols_cong(3) [OF a1(1)] by blast
  have w: "in_step q2 a2 \<and> (if places st then as_address a1 = st_address st \<and> image_step a1 a2 else \<exists>x. a2 = a1\<lparr>as_address := x\<rparr>)"
    using flat_statement [OF sp(4,6) conjunct1 [OF w1] k2' _ r t(2,5)] b2 a1(2) by simp
  have a2: "as_symbols a2 = as_symbols a1" "as_flat_base a2 = as_flat_base a1"
    using w only_reports_fields(1,7) by (auto simp: image_step_def split: if_splits)
  have k3: "symbols_kept (p1_assembler pf) a2" using assms(6) symbols_cong(3) [of a2 a] a1(1) a2(1) by simp
  note w2 = flat_loop [OF sp(3,9,7) assms(4) conjunct1 [OF w] k3 _ r2 t(3,6)]
  show ?thesis
    using sp(4) w1 w t(2,5) a1 a2 r w2 assms(7)
    by (intro exI [of _ c1] exI [of _ a1] exI [of _ c2] exI [of _ a2] exI [of _ q1] exI [of _ q2] conjI) simp_all
qed

text \<open>
  In a flat module that assembles quietly, an instruction that nothing later overlaps is in the
  image as its encoding, and the encoding decodes to it.
\<close>

lemma flat_instruction:
  assumes "pass_one_loop sts p = (pre @ st # post, pf)" and "p1_diags pf = p1_diags p" and "p1_flat p"
    and "as_mode (p1_assembler pf) \<noteq> Sectioned" and "in_step p a" and "symbols_kept (p1_assembler pf) a"
    and "\<not> p1_flat_base_pending pf \<longrightarrow> as_flat_base a = as_flat_base (p1_assembler pf)"
    and "\<forall>st \<in> set sts. \<forall>operand \<in> set (st_operands st). od_reg operand < 32"
    and "fold pass_two_statement (pre @ st # post) (c, a) = (c', a')" and "as_diags a' = as_diags a"
    and "st_kind st = Instruction" and "length (as_flat_image a') < 2 ^ 64"
    and "\<forall>s \<in> set post. places s \<longrightarrow> unat (st_address st - as_flat_base a) + st_length st \<le> unat (st_address s - as_flat_base a)"
    and "plain_literals (a\<lparr>as_address := st_address st\<rparr>) (zip (pattern_for (st_opcode st)) (st_operands st))"
  shows "resolve_opcode st = Inr (st_opcode st) \<and>
    (\<exists>bs b. length bs = st_length st \<and> unat (st_address st - as_flat_base a) + st_length st \<le> length (as_flat_image a') \<and>
    (\<forall>t < length bs. as_flat_image a' ! (unat (st_address st - as_flat_base a) + t) = bs ! t) \<and>
    as_symbols b = as_symbols a \<and> as_address b = st_address st \<and> as_current_section b = SEC_NULL \<and>
    (\<forall>m root level. (\<forall>t < length bs. fetch_spec m root level (st_address st + of_nat t) = Inr (bs ! t)) \<longrightarrow>
       (\<exists>d. decode_spec m root level (st_address st) = Inr d \<and> decoded_says b (as_relocations a) st d)))"
proof -
  let ?i = "unat (st_address st - as_flat_base a)"
  have pl: "places st" using assms(11) by (simp add: places_def)
  obtain c1 a1 c2 a2 q1 q2 where w: "follows st q1 q2" "in_step q1 a1" "in_step q2 a2" "pass_two_statement st (c1, a1) = (c2, a2)"
    "as_diags a2 = as_diags a1" "as_symbols a1 = as_symbols a" "as_flat_base a1 = as_flat_base a" "as_relocations a1 = as_relocations a"
    "\<forall>operand \<in> set (st_operands st). od_reg operand < 32" "as_address a1 = st_address st"
    "length (as_flat_image a2) \<le> length (as_flat_image a')"
    "\<forall>k < length (as_flat_image a2). (\<forall>s \<in> set post. places s \<longrightarrow> k < unat (st_address s - as_flat_base a)) \<longrightarrow>
          as_flat_image a' ! k = as_flat_image a2 ! k"
    using flat_around [OF assms(1-10)] pl assms(12) by blast
  have f: "resolve_opcode st = Inr (st_opcode st)" "st_length st = oi_length (opcode_info (st_opcode st))"
    using w(1) assms(11) by (simp_all add: follows_def Let_def)
  have as: "oi_kind (opcode_info (st_opcode st)) = Assigned" using f(1) by (rule resolve_opcode_assigned)
  then have len: "0 < st_length st" using assigned_length_bounds(1) [OF as] f(2) by simp
  have lits: "plain_literals a1 (zip (pattern_for (st_opcode st)) (st_operands st))"
    using assms(14) plain_literals_cong [of a1 "a\<lparr>as_address := st_address st\<rparr>"] w(6,10) by simp
  have e: "a2 = encode_instruction st a1" using assms(11) w(4) len by (simp add: pass_two_statement_def)
  obtain bs r where b: "a2 = emit_bytes bs r" "only_reports a1 r" "length bs = st_length st"
    "\<forall>m root level. (\<forall>t < length bs. fetch_spec m root level (st_address st + of_nat t) = Inr (bs ! t)) \<longrightarrow>
       (\<exists>d. decode_spec m root level (st_address st) = Inr d \<and> decoded_says a1 (as_relocations r) st d)"
    using encoded_instruction_decodes [of st a1, OF _ as w(9)] w(5) f(2) lits unfolding e by auto
  have i1: "as_second_pass a1" "as_mode a1 = Flat" "as_current_section a1 = SEC_NULL" using w(2) by (simp_all add: in_step_def)
  note rf = only_reports_fields [OF b(2)]
  have ri: "image_index r = ?i" using w(7,10) by (simp add: image_index_def rf)
  have rr: "as_relocations r = as_relocations a" using rf(11) i1(2) w(8) by simp
  have "length (as_flat_image a2) < 2 ^ 64" using w(11) assms(12) by simp
  then have im: "?i + length bs \<le> length (as_flat_image a2)" "\<forall>t < length bs. as_flat_image a2 ! (?i + t) = bs ! t"
    using emit_bytes_flat [of r bs] i1(1,2) ri len b(1,3) by (auto simp: rf)
  have "as_flat_image a' ! (?i + t) = bs ! t" if "t < length bs" for t
  proof -
    have "\<forall>s \<in> set post. places s \<longrightarrow> ?i + t < unat (st_address s - as_flat_base a)" using assms(13) that b(3) by auto
    then show ?thesis using w(12) im that by auto
  qed
  then show ?thesis
    using f(1) b(3,4) im(1) w(6,10,11) i1(3) rr by (intro conjI exI [of _ bs] exI [of _ a1]) auto
qed

end
