(* ===== verification/Assembled.thy ===== *)
theory Assembled
  imports Layout
begin

text \<open>
  Modules assembled from source text: what parsing adds to the assembler, and that in a flat module
  that assembles without diagnostics every instruction is in the image and decodes to what was
  written, and every label names the address of the statement placed after it.
\<close>

section \<open>What parsing adds\<close>

lemma register_number_bound: "is_register_name t = Some n \<Longrightarrow> n < 32"
proof -
  assume "is_register_name t = Some n"
  then consider k where "k < 32" "n = of_nat k" | "(t, n) \<in> set kRegisterAliases" unfolding register_names by blast
  then show ?thesis
  proof cases
    case 1
    then show ?thesis by (simp add: word_less_nat_alt unat_of_nat)
  next
    case 2
    have "list_all (\<lambda>(t, n). n < 32) kRegisterAliases" by code_simp
    then show ?thesis using 2 by (auto simp: list_all_iff)
  qed
qed

lemma parse_string_register: "parse_string_operand field = Inr operand \<Longrightarrow> od_reg operand = 0"
  unfolding parse_string_operand_def
  by (auto simp: new_operand_def simp del: append_Cons append.simps split: if_splits option.splits)

lemma parse_memory_register:
  assumes "parse_memory_operand field = Inr operand"
  shows "od_reg operand < 32"
proof -
  define t where "t = takeWhile (\<lambda>c. c \<noteq> CHR ''+'' \<and> c \<noteq> CHR ''-'') (tl field)"
  define rest where "rest = dropWhile (\<lambda>c. c \<noteq> CHR ''+'' \<and> c \<noteq> CHR ''-'') (tl field)"
  note p = assms [unfolded parse_memory_operand_def Let_def, folded t_def rest_def]
  obtain n where n: "is_register_name t = Some n" using p by (cases "is_register_name t") simp_all
  have "od_reg operand = n"
    using p n by (cases rest) (auto simp del: append_Cons append.simps split: if_splits)
  then show ?thesis using register_number_bound [OF n] by simp
qed

lemma parse_slice_register: "parse_slice_operand field n suffix = Inr operand \<Longrightarrow> od_reg operand = n"
  unfolding parse_slice_operand_def Let_def by (auto simp del: append_Cons append.simps split: if_splits)

lemma parse_operand_register:
  assumes "parse_operand field = Inr operand"
  shows "od_reg operand < 32"
proof -
  define dot where "dot = dropWhile (\<lambda>c. c \<noteq> CHR ''.'') field"
  define sliced where "sliced = is_register_name (takeWhile (\<lambda>c. c \<noteq> CHR ''.'') field)"
  note p = assms [unfolded parse_operand_def Let_def, folded dot_def sliced_def]
  consider "field = []" | "field \<noteq> []" "hd field = double_quote" | "field \<noteq> []" "hd field \<noteq> double_quote" "hd field = CHR ''@''"
    | n where "field \<noteq> []" "hd field \<noteq> double_quote" "hd field \<noteq> CHR ''@''" "dot \<noteq> []" "sliced = Some n"
    | "field \<noteq> []" "hd field \<noteq> double_quote" "hd field \<noteq> CHR ''@''" "\<not> (dot \<noteq> [] \<and> sliced \<noteq> None)" by blast
  then show ?thesis
  proof cases
    case 2
    then have "parse_string_operand field = Inr operand" using p by simp
    then show ?thesis by (simp add: parse_string_register)
  next
    case 3
    then have "parse_memory_operand field = Inr operand" using p by simp
    then show ?thesis by (rule parse_memory_register)
  next
    case (4 n)
    then have "parse_slice_operand field n (tl dot) = Inr operand" using p by simp
    moreover have "n < 32" using 4(5) unfolding sliced_def by (rule register_number_bound)
    ultimately show ?thesis by (simp add: parse_slice_register)
  next
    case 5
    show ?thesis
    proof (cases "is_register_name field")
      case None
      then have "od_reg operand = 0" using p 5 by (auto simp: new_operand_def split: if_splits)
      then show ?thesis by simp
    next
      case (Some n)
      then have "od_reg operand = n" using p 5 by auto
      then show ?thesis using register_number_bound [OF Some] by simp
    qed
  qed (use p in simp)
qed

lemma parse_operands_registers: "parse_operands fs = Inr operands \<Longrightarrow> \<forall>operand \<in> set operands. od_reg operand < 32"
  by (induction fs arbitrary: operands) (auto dest: parse_operand_register split: sum.splits)

text \<open>Parsing adds statements with such operands, and diagnostics; it leaves the rest of the object alone.\<close>

definition parsed :: "Assembler \<Rightarrow> Assembler \<Rightarrow> bool" where
  "parsed a a' \<longleftrightarrow>
     (\<exists>sts. as_statements a' = as_statements a @ sts \<and> (\<forall>st \<in> set sts. \<forall>operand \<in> set (st_operands st). od_reg operand < 32)) \<and>
     as_symbols a' = as_symbols a \<and> as_mode a' = as_mode a \<and> as_relocations a' = as_relocations a"

lemma parsed_refl [simp]: "parsed a a"
  by (simp add: parsed_def)

lemma parsed_trans:
  assumes "parsed a b" and "parsed b c"
  shows "parsed a c"
proof -
  obtain xs ys where "as_statements b = as_statements a @ xs" "\<forall>st \<in> set xs. \<forall>operand \<in> set (st_operands st). od_reg operand < 32"
    "as_statements c = as_statements b @ ys" "\<forall>st \<in> set ys. \<forall>operand \<in> set (st_operands st). od_reg operand < 32"
    using assms unfolding parsed_def by blast
  then have "\<exists>sts. as_statements c = as_statements a @ sts \<and> (\<forall>st \<in> set sts. \<forall>operand \<in> set (st_operands st). od_reg operand < 32)"
    by (intro exI [of _ "xs @ ys"]) auto
  then show ?thesis using assms unfolding parsed_def by simp
qed

lemma parsed_error [simp]: "parsed a (add_error loc m a)"
  by (simp add: parsed_def add_error_def)

lemma parsed_label: "parsed a (parse_label fs loc a)"
  unfolding parse_label_def Let_def
  by (auto simp: parsed_def add_error_def new_statement_def simp del: append_Cons append.simps)

text \<open>What the line parser relies on: the parser of an included file only adds.\<close>

locale included_parser =
  fixes parse :: file_parser
  assumes adds: "parse t f d i a = Some a' \<Longrightarrow> parsed a a'"
begin

lemma include_adds:
  assumes "parse_include host parse operands loc dir inc a = Some a'"
  shows "parsed a a'"
proof -
  define key where "key = host_resolve host dir (od_string_value (hd operands))"
  show ?thesis
  proof (cases "length operands \<noteq> 1 \<or> od_kind (hd operands) \<noteq> StringText \<or> key \<in> set (as_include_stack a) \<or> host_read host key = None")
    case True
    then obtain m where "a' = add_error loc m a"
      using assms unfolding parse_include_def Let_def key_def [symmetric] read_source_def
      by (auto simp del: append_Cons append.simps split: if_splits)
    then show ?thesis by simp
  next
    case False
    let ?b = "a\<lparr>as_include_stack := key # as_include_stack a, as_include_order := as_include_order a @ [key]\<rparr>"
    obtain c where p: "parse (the (host_read host key)) key (host_parent host key) (Some (SourceLoc (sl_file loc) (sl_line loc) inc)) ?b = Some c"
      "a' = c\<lparr>as_include_order := butlast (as_include_order c), as_include_stack := removeAll key (as_include_stack c)\<rparr>"
      using assms False unfolding parse_include_def Let_def key_def [symmetric] read_source_def
      by (auto simp del: append_Cons append.simps split: if_splits option.splits)
    have "parsed a ?b" "parsed c a'" by (simp_all add: parsed_def p(2))
    then show ?thesis using adds [OF p(1)] parsed_trans by blast
  qed
qed

lemma line_adds:
  assumes "parse_line host parse line loc dir inc a = Some a'"
  shows "parsed a a'"
proof -
  have st: "parsed a (a\<lparr>as_statements := as_statements a @ [new_statement k loc h operands]\<rparr>)"
    if "parse_operands fs = Inr operands" for fs operands k h
    using parse_operands_registers [OF that] by (auto simp: parsed_def new_statement_def)
  show ?thesis
  proof (cases "line_characters_are_legal line")
    case (Some offending)
    then obtain m where "a' = add_error loc m a" using assms unfolding parse_line_def by (auto simp del: append_Cons append.simps)
    then show ?thesis by simp
  next
    case None
    show ?thesis
    proof (cases "split_fields line")
      case (Inl e)
      then show ?thesis using assms None unfolding parse_line_def by auto
    next
      case (Inr fs)
      show ?thesis
      proof (cases "parse_operands (tl fs)")
        case (Inl e)
        then show ?thesis using assms None Inr parsed_label unfolding parse_line_def by (auto split: if_splits)
      next
        case ops: (Inr operands)
        then show ?thesis
          using assms None Inr parsed_label st [OF ops] include_adds unfolding parse_line_def Let_def by (auto split: if_splits)
      qed
    qed
  qed
qed

lemma lines_add: "parse_lines host parse ls n file dir inc a = Some a' \<Longrightarrow> parsed a a'"
proof (induction ls arbitrary: n a)
  case (Cons l ls)
  let ?l = "if l \<noteq> [] \<and> last l = CHR 0x0D then butlast l else l"
  obtain b where b: "parse_line host parse ?l (SourceLoc file (n + 1) inc) dir inc a = Some b"
    "parse_lines host parse ls (n + 1) file dir inc b = Some a'"
    using Cons.prems unfolding parse_lines.simps Let_def by (auto split: option.splits)
  then show ?case using line_adds [OF b(1)] Cons.IH [OF b(2)] parsed_trans by blast
qed simp

end

lemma parsed_text: "parse_text host depth t f d i a = Some a' \<Longrightarrow> parsed a a'"
proof (induction depth arbitrary: t f d i a a')
  case (Suc depth)
  then have "included_parser (parse_text host depth)" by unfold_locales
  from included_parser.lines_add [OF this] Suc.prems show ?case by auto
qed simp

interpretation source_file: included_parser "parse_text host depth" for host depth
  by unfold_locales (rule parsed_text)


section \<open>Whole modules\<close>

lemma decoded_says_cong:
  assumes "as_symbols a' = as_symbols a" and "as_address a' = as_address a" and "as_current_section a' = as_current_section a"
  shows "decoded_says a' rels st d = decoded_says a rels st d"
proof -
  have "operand_value a' = operand_value a" by (intro ext) (simp add: operand_value_def lookup_cong [OF assms(1)] assms(2))
  moreover have "target_address a' = target_address a" by (rule ext) (simp add: target_address_def assms split: option.splits)
  moreover have "left_to_linker a' = left_to_linker a" by (intro ext) (simp add: left_to_linker_def assms)
  ultimately have "field_says a' = field_says a" by (intro ext) (simp only: field_says_def)
  then have "says a' rels st regs imms j k items = says a rels st regs imms j k items" for regs imms j k items
    by (induction items arbitrary: j k) auto
  then show ?thesis by (simp add: decoded_says_def)
qed

text \<open>The first pass from its start, and what it leaves for the second.\<close>

definition pass_one_start :: "Assembler \<Rightarrow> PassOne" where
  "pass_one_start a = \<lparr>p1_counters = replicate 5 0, p1_flat_base_pending = True,
     p1_assembler = a\<lparr>as_second_pass := False, as_address := 0, as_current_section := 0\<rparr>\<rparr>"

lemma pass_one_result:
  assumes "pass_one_loop (as_statements a) (pass_one_start a) = (sts, p)"
  shows "as_diags (pass_one a) = p1_diags p" "as_symbols (pass_one a) = as_symbols (p1_assembler p)"
    "as_statements (pass_one a) = sts" "as_relocations (pass_one a) = as_relocations (p1_assembler p)"
    "as_mode (pass_one a) = (if as_mode (p1_assembler p) = Undecided then Flat else as_mode (p1_assembler p))"
    "as_flat_base (pass_one a) = (if p1_flat_base_pending p then 0 else as_flat_base (p1_assembler p))"
  using assms unfolding pass_one_def pass_one_start_def by (simp_all add: Let_def)

lemma pass_two_result:
  assumes "as_mode a = Flat"
  shows "pass_two a = snd (fold pass_two_statement (as_statements a)
    (replicate 5 0, a\<lparr>as_second_pass := True, as_address := as_flat_base a, as_current_section := 0\<rparr>))"
  using assms by (simp add: pass_two_def Let_def)

text \<open>A flat module whose passes are both quiet, as the two loops in step.\<close>

lemma flat_module_passes:
  fixes a0 :: Assembler
  defines "a \<equiv> pass_two (pass_one a0)" and "p \<equiv> pass_one_start a0"
  assumes "as_symbols a0 = []" and "as_mode a0 = Undecided"
    and "as_diags (pass_one a0) = []" and "as_diags a = []" and "as_mode a = Flat"
  obtains pf c c' where "pass_one_loop (as_statements a0) p = (as_statements a, pf)" "p1_diags pf = p1_diags p" "p1_flat p"
    "as_mode (p1_assembler pf) \<noteq> Sectioned" "in_step p c" "symbols_kept (p1_assembler pf) c"
    "\<not> p1_flat_base_pending pf \<longrightarrow> as_flat_base c = as_flat_base (p1_assembler pf)"
    "fold pass_two_statement (as_statements a) (replicate 5 0, c) = (c', a)" "as_diags a = as_diags c"
    "as_relocations c = as_relocations a0"
proof -
  let ?b = "pass_one a0"
  let ?c = "?b\<lparr>as_second_pass := True, as_address := as_flat_base ?b, as_current_section := 0\<rparr>"
  obtain sts pf where l: "pass_one_loop (as_statements a0) p = (sts, pf)" by fastforce
  note r = pass_one_result [OF l [unfolded p_def]]
  have "later ?b (pass_two ?b)"
    using pass_two_fold_later [of "(replicate 5 0, ?b\<lparr>as_second_pass := True, as_address := (if as_mode ?b = Flat then as_flat_base ?b else 0), as_current_section := 0\<rparr>)" "as_statements ?b"]
    by (simp add: pass_two_def Let_def later_def)
  then have fl: "as_mode ?b = Flat" "as_statements ?b = as_statements a" using assms(7) by (simp_all add: later_def a_def)
  obtain c' where t: "fold pass_two_statement (as_statements a) (replicate 5 0, ?c) = (c', a)"
    using pass_two_result [OF fl(1)] fl(2) unfolding a_def by (metis prod.collapse)
  have "grows p pf" using grows_loop [of p "as_statements a0"] l by simp
  then have d: "p1_diags pf = p1_diags p" using r(1) assms(5) by (auto simp: grows_def)
  have m: "as_mode (p1_assembler pf) \<noteq> Sectioned" using fl(1) r(5) by (auto split: if_splits)
  have ok: "symbols_ok (p1_assembler p)"
    using assms(3) by (simp add: symbols_ok_def lookup_in_assembler_def unknown_symbol_def p_def pass_one_start_def)
  have p: "p1_flat p" using ok assms(4) by (simp add: p1_flat_def Let_def p_def pass_one_start_def)
  note q = quiet_loop [OF l d p m]
  have k: "symbols_kept (p1_assembler pf) ?c" using symbols_cong(2) [of ?c "p1_assembler pf"] r(2) by simp
  then have "symbols_kept (p1_assembler p) ?c" using q symbols_kept_trans by blast
  then have "in_step p ?c" using fl(1) unfolding in_step_def by (simp add: p_def pass_one_start_def)
  moreover have "as_relocations ?c = as_relocations a0" using q r(4) by (simp add: p_def pass_one_start_def)
  ultimately show ?thesis using that [of pf ?c c'] l d p m k t r(3,6) fl(2) assms(5,6) by simp
qed

lemma flat_module_instruction:
  fixes a0 :: Assembler
  defines "a \<equiv> pass_two (pass_one a0)"
  assumes "as_symbols a0 = []" and "as_mode a0 = Undecided" and "as_relocations a0 = []"
    and "\<forall>st \<in> set (as_statements a0). \<forall>operand \<in> set (st_operands st). od_reg operand < 32"
    and "as_diags (pass_one a0) = []" and "as_diags a = []" and "as_mode a = Flat"
    and "as_statements a = pre @ st # post" and "st_kind st = Instruction" and "length (as_flat_image a) < 2 ^ 64"
    and "\<forall>s \<in> set post. places s \<longrightarrow>
          unat (st_address st - as_flat_base a) + st_length st \<le> unat (st_address s - as_flat_base a)"
    and "plain_literals (a\<lparr>as_address := st_address st\<rparr>) (zip (pattern_for (st_opcode st)) (st_operands st))"
    and "\<forall>i < length (as_flat_image a). fetch_spec m root level (as_flat_base a + of_nat i) = Inr (as_flat_image a ! i)"
  shows "resolve_opcode st = Inr (st_opcode st) \<and>
    (\<exists>d. decode_spec m root level (st_address st) = Inr d \<and> decoded_says (a\<lparr>as_address := st_address st\<rparr>) [] st d)"
proof -
  obtain pf c c' where L: "pass_one_loop (as_statements a0) (pass_one_start a0) = (pre @ st # post, pf)"
    "p1_diags pf = p1_diags (pass_one_start a0)" "p1_flat (pass_one_start a0)"
    "as_mode (p1_assembler pf) \<noteq> Sectioned" "in_step (pass_one_start a0) c" "symbols_kept (p1_assembler pf) c"
    "\<not> p1_flat_base_pending pf \<longrightarrow> as_flat_base c = as_flat_base (p1_assembler pf)"
    "fold pass_two_statement (pre @ st # post) (replicate 5 0, c) = (c', a)" "as_diags a = as_diags c" "as_relocations c = []"
    by (rule flat_module_passes [OF assms(2,3,6) assms(7,8) [unfolded a_def], folded a_def, unfolded assms(9) assms(4)])
  have all: "in_step pf a" "as_flat_base a = as_flat_base c" "as_symbols a = as_symbols c"
    using flat_loop [OF L(1-7) assms(5) L(8,9)] by blast+
  let ?i = "unat (st_address st - as_flat_base a)"
  have lits: "plain_literals (c\<lparr>as_address := st_address st\<rparr>) (zip (pattern_for (st_opcode st)) (st_operands st))"
    using assms(13) plain_literals_cong [of "a\<lparr>as_address := st_address st\<rparr>" "c\<lparr>as_address := st_address st\<rparr>"] all(3) by simp
  have op: "resolve_opcode st = Inr (st_opcode st)"
    using flat_instruction [OF L(1-7) assms(5) L(8,9) assms(10,11), folded all(2), OF assms(12) lits] by blast
  obtain bs b where b: "length bs = st_length st" "?i + st_length st \<le> length (as_flat_image a)"
    "\<forall>t < length bs. as_flat_image a ! (?i + t) = bs ! t"
    "as_symbols b = as_symbols c" "as_address b = st_address st" "as_current_section b = SEC_NULL"
    "\<forall>m root level. (\<forall>t < length bs. fetch_spec m root level (st_address st + of_nat t) = Inr (bs ! t)) \<longrightarrow>
       (\<exists>d. decode_spec m root level (st_address st) = Inr d \<and> decoded_says b [] st d)"
    using flat_instruction [OF L(1-7) assms(5) L(8,9) assms(10,11), folded all(2), OF assms(12) lits] unfolding L(10) by blast
  have "fetch_spec m root level (st_address st + of_nat t) = Inr (bs ! t)" if "t < length bs" for t
  proof -
    have eq: "as_flat_base a + of_nat (?i + t) = st_address st + of_nat t" by simp
    have "?i + t < length (as_flat_image a)" using b(1,2) that by linarith
    then have "fetch_spec m root level (as_flat_base a + of_nat (?i + t)) = Inr (as_flat_image a ! (?i + t))" using assms(14) by blast
    then show ?thesis unfolding eq using b(3) that by simp
  qed
  then obtain d where "decode_spec m root level (st_address st) = Inr d" "decoded_says b [] st d" using b(7) by blast
  moreover have "decoded_says (a\<lparr>as_address := st_address st\<rparr>) [] st d = decoded_says b [] st d"
    using b(4-6) all(1,3) by (intro decoded_says_cong) (simp_all add: in_step_def)
  ultimately show ?thesis using op by blast
qed

text \<open>In a quiet flat module a label's value is the address of the next placed statement.\<close>

lemma flat_module_label:
  fixes a0 :: Assembler
  defines "a \<equiv> pass_two (pass_one a0)"
  assumes "as_symbols a0 = []" and "as_mode a0 = Undecided"
    and "\<forall>st \<in> set (as_statements a0). \<forall>operand \<in> set (st_operands st). od_reg operand < 32"
    and "as_diags (pass_one a0) = []" and "as_diags a = []" and "as_mode a = Flat"
    and "as_statements a = pre @ label # between @ st # post" and "st_kind label = Label"
    and "\<forall>s \<in> set between. stands_still s" and "places st"
  shows "lookup_in_assembler a (st_name label) = label_query (st_address st)"
proof -
  obtain pf c c' where L: "pass_one_loop (as_statements a0) (pass_one_start a0) = (as_statements a, pf)"
    "p1_diags pf = p1_diags (pass_one_start a0)" "p1_flat (pass_one_start a0)"
    "as_mode (p1_assembler pf) \<noteq> Sectioned" "in_step (pass_one_start a0) c" "symbols_kept (p1_assembler pf) c"
    "\<not> p1_flat_base_pending pf \<longrightarrow> as_flat_base c = as_flat_base (p1_assembler pf)"
    "fold pass_two_statement (as_statements a) (replicate 5 0, c) = (c', a)" "as_diags a = as_diags c"
    by (rule flat_module_passes [OF assms(2,3,5) assms(6,7) [unfolded a_def], folded a_def])
  have "in_step pf a" using flat_loop [OF L(1-7) assms(4) L(8,9)] by blast
  then have "symbols_kept (p1_assembler pf) a" by (simp add: in_step_def)
  moreover have "lookup_in_assembler (p1_assembler pf) (st_name label) = label_query (st_address st)"
    using L(1) unfolding assms(8) by (rule label_value [OF _ L(2-4) assms(9-11)])
  ultimately show ?thesis by (simp add: symbols_kept_def label_query_def)
qed

lemma assembled_module:
  assumes "assemble_text host depth contents name path new_assembler = Some (True, a)"
  obtains a0 where "a = pass_two (pass_one a0)" "as_diags (pass_one a0) = []" "as_diags a = []"
    "as_symbols a0 = []" "as_mode a0 = Undecided" "as_relocations a0 = []"
    "\<forall>st \<in> set (as_statements a0). \<forall>operand \<in> set (st_operands st). od_reg operand < 32"
proof -
  obtain a0 where a0: "parse_text host depth contents name path None (new_assembler\<lparr>as_base_path := path\<rparr>) = Some a0"
    using assms unfolding assemble_text_def by (cases "parse_text host depth contents name path None (new_assembler\<lparr>as_base_path := path\<rparr>)") simp_all
  let ?b = "pass_one a0"
  define c where "c = (if as_diags ?b = [] then pass_two ?b else ?b)"
  have "Some (as_diags c = [], c) = Some (True, a)" using assms unfolding assemble_text_def a0 Let_def option.case c_def .
  then have c: "as_diags c = []" "c = a" unfolding option.inject prod.inject by blast+
  have d: "as_diags ?b = []"
  proof (rule ccontr)
    assume "as_diags ?b \<noteq> []"
    then show False using c(1) by (simp add: c_def)
  qed
  have "parsed (new_assembler\<lparr>as_base_path := path\<rparr>) a0" using a0 by (rule source_file.adds)
  then have "as_symbols a0 = []" "as_mode a0 = Undecided" "as_relocations a0 = []"
    "\<forall>st \<in> set (as_statements a0). \<forall>operand \<in> set (st_operands st). od_reg operand < 32"
    by (auto simp: parsed_def new_assembler_def)
  then show ?thesis using that [of a0] c d by (simp add: c_def)
qed

lemma assembled_decodes:
  assumes "assemble_text host depth contents name path new_assembler = Some (True, a)" and "as_mode a = Flat"
    and "as_statements a = pre @ st # post" and "st_kind st = Instruction" and "length (as_flat_image a) < 2 ^ 64"
    and "\<forall>s \<in> set post. places s \<longrightarrow>
          unat (st_address st - as_flat_base a) + st_length st \<le> unat (st_address s - as_flat_base a)"
    and "plain_literals (a\<lparr>as_address := st_address st\<rparr>) (zip (pattern_for (st_opcode st)) (st_operands st))"
    and "\<forall>i < length (as_flat_image a). fetch_spec m root level (as_flat_base a + of_nat i) = Inr (as_flat_image a ! i)"
  shows "resolve_opcode st = Inr (st_opcode st) \<and>
    (\<exists>d. decode_spec m root level (st_address st) = Inr d \<and> decoded_says (a\<lparr>as_address := st_address st\<rparr>) [] st d)"
proof -
  obtain a0 where a: "a = pass_two (pass_one a0)" "as_diags (pass_one a0) = []" "as_diags a = []"
    and a0: "as_symbols a0 = []" "as_mode a0 = Undecided" "as_relocations a0 = []"
      "\<forall>st \<in> set (as_statements a0). \<forall>operand \<in> set (st_operands st). od_reg operand < 32"
    using assembled_module [OF assms(1)] .
  from flat_module_instruction [OF a0 a(2), folded a(1), OF a(3) assms(2-8)] show ?thesis .
qed

end
