(* ===== verification/Object_Format.thy ===== *)
theory Object_Format
  imports Assembly
begin

unbundle bit_operations_syntax

text \<open>
  The object file format, \<^verbatim>\<open>src/maize_obj.h\<close>: constants, section attributes, relocation widths, and the
  little-endian put and get helpers. A buffer is a list of bytes; \<open>get\<close> at an offset the buffer does
  not have is outside the model, and its users test for it.
\<close>

section \<open>Constants\<close>

abbreviation (input) MZO_MAGIC0 :: u8 where "MZO_MAGIC0 \<equiv> 0x4D"
abbreviation (input) MZO_MAGIC1 :: u8 where "MZO_MAGIC1 \<equiv> 0x5A"
abbreviation (input) MZO_MAGIC2 :: u8 where "MZO_MAGIC2 \<equiv> 0x4F"
abbreviation (input) MZO_VERSION :: u8 where "MZO_VERSION \<equiv> 1"
abbreviation (input) MZO_VERSION_V2 :: u8 where "MZO_VERSION_V2 \<equiv> 2"
abbreviation (input) MZO_HEADER_SIZE :: nat where "MZO_HEADER_SIZE \<equiv> 48"
abbreviation (input) SECTION_HDR_SIZE :: nat where "SECTION_HDR_SIZE \<equiv> 40"
abbreviation (input) SYMBOL_SIZE :: nat where "SYMBOL_SIZE \<equiv> 24"
abbreviation (input) RELOC_SIZE :: nat where "RELOC_SIZE \<equiv> 24"
abbreviation (input) MZA_VERSION :: u8 where "MZA_VERSION \<equiv> 1"
abbreviation (input) MZA_HEADER_SIZE :: nat where "MZA_HEADER_SIZE \<equiv> 16"
abbreviation (input) MZA_INDEX_ENTRY_SIZE :: nat where "MZA_INDEX_ENTRY_SIZE \<equiv> 24"
abbreviation (input) ATTR_EXEC :: u8 where "ATTR_EXEC \<equiv> 1"
abbreviation (input) ATTR_READ :: u8 where "ATTR_READ \<equiv> 2"
abbreviation (input) ATTR_WRITE :: u8 where "ATTR_WRITE \<equiv> 4"
abbreviation (input) ATTR_ALLOC :: u8 where "ATTR_ALLOC \<equiv> 8"
abbreviation (input) ATTR_NOBITS :: u8 where "ATTR_NOBITS \<equiv> 0x10"
abbreviation (input) BIND_LOCAL :: u8 where "BIND_LOCAL \<equiv> 0"
abbreviation (input) BIND_GLOBAL :: u8 where "BIND_GLOBAL \<equiv> 1"
abbreviation (input) TYPE_NOTYPE :: u8 where "TYPE_NOTYPE \<equiv> 0"
abbreviation (input) TYPE_FUNC :: u8 where "TYPE_FUNC \<equiv> 1"
abbreviation (input) TYPE_OBJECT :: u8 where "TYPE_OBJECT \<equiv> 2"
abbreviation (input) SHN_UNDEF :: u16 where "SHN_UNDEF \<equiv> 0xFFFF"
abbreviation (input) SHN_ABS :: u16 where "SHN_ABS \<equiv> 0xFFF0"
abbreviation (input) ENTRY_NONE :: u32 where "ENTRY_NONE \<equiv> 0xFFFFFFFF"

definition default_attrs :: "u8 \<Rightarrow> u8" where
  "default_attrs kind =
     (if kind = SEC_CODE then ATTR_EXEC OR ATTR_READ OR ATTR_ALLOC
      else if kind = SEC_RODATA then ATTR_READ OR ATTR_ALLOC
      else if kind = SEC_DATA then ATTR_READ OR ATTR_WRITE OR ATTR_ALLOC
      else if kind = SEC_BSS then ATTR_READ OR ATTR_WRITE OR ATTR_ALLOC OR ATTR_NOBITS
      else 0)"

definition reloc_width :: "u8 \<Rightarrow> nat" where
  "reloc_width r_type = (if r_type = 1 then 1 else if r_type = 2 then 2 else if r_type = 3 then 4 else if r_type = 4 then 8 else 0)"

section \<open>Little-endian fields\<close>

definition put_u8 :: "u8 \<Rightarrow> u8 list \<Rightarrow> u8 list" where
  "put_u8 v b = b @ [v]"

definition put_u16 :: "u16 \<Rightarrow> u8 list \<Rightarrow> u8 list" where
  "put_u16 v b = b @ [ucast (v AND 0xFF), ucast (drop_bit 8 v AND 0xFF)]"

definition put_u32 :: "u32 \<Rightarrow> u8 list \<Rightarrow> u8 list" where
  "put_u32 v b = fold (\<lambda>i b. b @ [ucast (drop_bit (8 * i) v AND 0xFF)]) [0..<4] b"

definition put_u64 :: "u64 \<Rightarrow> u8 list \<Rightarrow> u8 list" where
  "put_u64 v b = fold (\<lambda>i b. b @ [ucast (drop_bit (8 * i) v AND 0xFF)]) [0..<8] b"

definition get_u8 :: "u8 list \<Rightarrow> nat \<Rightarrow> u8" where
  "get_u8 b off = b ! off"

definition get_u16 :: "u8 list \<Rightarrow> nat \<Rightarrow> u16" where
  "get_u16 b off = ucast (b ! off) OR push_bit 8 (ucast (b ! (off + 1)))"

definition get_u32 :: "u8 list \<Rightarrow> nat \<Rightarrow> u32" where
  "get_u32 b off = fold (\<lambda>i v. v OR push_bit (8 * i) (ucast (b ! (off + i)))) [0..<4] 0"

definition get_u64 :: "u8 list \<Rightarrow> nat \<Rightarrow> u64" where
  "get_u64 b off = fold (\<lambda>i v. v OR push_bit (8 * i) (ucast (b ! (off + i)))) [0..<8] 0"

section \<open>Reading what was put\<close>

text \<open>The bytes of a value, least significant first.\<close>

definition le_bytes :: "nat \<Rightarrow> 'a :: len word \<Rightarrow> u8 list" where
  "le_bytes n v = map (\<lambda>i. ucast (drop_bit (8 * i) v)) [0..<n]"

lemma length_le_bytes [simp]: "length (le_bytes n v) = n"
  by (simp add: le_bytes_def)

lemma ucast_take_bit_8: "ucast (take_bit 8 v) = (ucast v :: u8)" for v :: "'a :: len word"
  by (rule bit_word_eqI) (auto simp: bit_simps dest: bit_imp_le_length)

lemma low_byte: "ucast (v AND 0xFF) = (ucast v :: u8)" for v :: "'a :: len word"
proof -
  have "v AND 0xFF = take_bit 8 v" by (simp add: take_bit_eq_mask mask_eq_exp_minus_1)
  then show ?thesis by (simp add: ucast_take_bit_8)
qed

lemma fold_append: "fold (\<lambda>i b. b @ [f i]) is b = b @ map f is"
  by (induction "is" arbitrary: b) simp_all

lemma put_appends:
  "put_u8 x b = b @ [x]" "put_u16 v16 b = b @ le_bytes 2 v16" "put_u32 v32 b = b @ le_bytes 4 v32" "put_u64 v64 b = b @ le_bytes 8 v64"
  by (simp_all add: put_u8_def put_u16_def put_u32_def put_u64_def le_bytes_def low_byte fold_append upt_rec)

lemma bit_gather:
  fixes f :: "nat \<Rightarrow> u8"
  shows "bit (fold (\<lambda>i v. v OR push_bit (8 * i) (ucast (f i))) [0..<n] 0 :: 'a :: len word) k \<longleftrightarrow>
     k < LENGTH('a) \<and> k div 8 < n \<and> bit (f (k div 8)) (k mod 8)"
proof (induction n)
  case (Suc n)
  have "bit (push_bit (8 * n) (ucast (f n)) :: 'a word) k \<longleftrightarrow> k < LENGTH('a) \<and> k div 8 = n \<and> bit (f n) (k mod 8)"
  proof (cases "k div 8 = n")
    case True
    then have "k = 8 * n + k mod 8" using div_mult_mod_eq [of k 8] by simp
    then have "k - 8 * n = k mod 8" "8 * n \<le> k" by linarith+
    with True show ?thesis by (auto simp: bit_simps dest: bit_imp_le_length)
  next
    case False
    then have "k < 8 * n \<or> 8 * n + 8 \<le> k" by linarith
    with False show ?thesis by (auto simp: bit_simps dest: bit_imp_le_length)
  qed
  with Suc show ?case by (auto simp: bit_simps less_Suc_eq)
qed simp

lemma gather_le_bytes:
  assumes "LENGTH('a) = 8 * n" and "\<And>i. i < n \<Longrightarrow> f i = le_bytes n v ! i"
  shows "(fold (\<lambda>i v. v OR push_bit (8 * i) (ucast (f i))) [0..<n] 0 :: 'a :: len word) = v"
proof (rule bit_word_eqI)
  fix k assume "k < LENGTH('a)"
  then have "k div 8 < n" using assms(1) by auto
  then show "bit (fold (\<lambda>i v. v OR push_bit (8 * i) (ucast (f i))) [0..<n] 0 :: 'a word) k = bit v k"
    using \<open>k < LENGTH('a)\<close> assms(2) by (simp add: bit_gather le_bytes_def bit_simps)
qed

lemma nth_of_slice:
  assumes "take n (drop off b) = r" and "length r = n" and "i < n"
  shows "b ! (off + i) = r ! i"
proof -
  have "off < length b" using assms by (auto simp: not_less [symmetric])
  then have "drop off b ! i = b ! (off + i)" by simp
  then show ?thesis using assms by auto
qed

lemma get_slices:
  "take 1 (drop off b) = [x] \<Longrightarrow> get_u8 b off = x"
  "take 2 (drop off b) = le_bytes 2 v16 \<Longrightarrow> get_u16 b off = v16"
  "take 4 (drop off b) = le_bytes 4 v32 \<Longrightarrow> get_u32 b off = v32"
  "take 8 (drop off b) = le_bytes 8 v64 \<Longrightarrow> get_u64 b off = v64"
proof -
  show "get_u8 b off = x" if "take 1 (drop off b) = [x]"
    using nth_of_slice [OF that, of 0] by (simp add: get_u8_def)
  show "get_u16 b off = v16" if "take 2 (drop off b) = le_bytes 2 v16"
  proof -
    have "(fold (\<lambda>i v. v OR push_bit (8 * i) (ucast (b ! (off + i)))) [0..<2] 0 :: u16) = v16"
      using nth_of_slice [OF that] by (intro gather_le_bytes) simp_all
    then show ?thesis by (simp add: get_u16_def upt_rec)
  qed
  show "get_u32 b off = v32" if "take 4 (drop off b) = le_bytes 4 v32"
    unfolding get_u32_def using nth_of_slice [OF that] by (intro gather_le_bytes) simp_all
  show "get_u64 b off = v64" if "take 8 (drop off b) = le_bytes 8 v64"
    unfolding get_u64_def using nth_of_slice [OF that] by (intro gather_le_bytes) simp_all
qed

text \<open>A field of a record, and a record of a table.\<close>

lemma slice_field:
  assumes "take m (drop off b) = r" and "j + k \<le> m"
  shows "take k (drop (off + j) b) = take k (drop j r)"
  using assms by (auto simp: drop_take min_def add.commute)

lemma slice_row:
  assumes "\<forall>x \<in> set xs. length (f x) = m" and "i < length xs"
  shows "take m (drop (length pre + i * m) (pre @ concat (map f xs) @ post)) = f (xs ! i)"
  using assms
proof (induction xs arbitrary: pre i)
  case (Cons x xs)
  show ?case
  proof (cases i)
    case 0
    then show ?thesis using Cons.prems by simp
  next
    case (Suc j)
    have l: "length pre + i * m = length (pre @ f x) + j * m" using Cons.prems Suc by simp
    show ?thesis unfolding l using Cons.IH [of j "pre @ f x"] Cons.prems Suc by simp
  qed
qed simp

end
