(* ===== verification/Object_Writer.thy ===== *)
theory Object_Writer
  imports Object_Format
begin

text \<open>
  The object writer, \<^verbatim>\<open>src/v2/mzasm_object.cpp\<close>: the sections that hold something are numbered, the string
  table, the symbols and the relocations of each section are collected, every part of the file is
  given its offset, and the file is written. The writer's lambdas are definitions that take and
  return the string table.
\<close>

section \<open>Collecting\<close>

definition section_order :: "u8 list" where
  "section_order = [SEC_CODE, SEC_RODATA, SEC_DATA, SEC_BSS]"

definition number_sections :: "u64 list \<Rightarrow> u8 list \<times> int list" where
  "number_sections sizes =
     fold (\<lambda>kind (present, section_index_of).
             if 0 < sizes ! unat kind then (present @ [kind], section_index_of[unat kind := int (length present)])
             else (present, section_index_of))
       section_order ([], replicate 5 (-1))"

definition add_string :: "string \<Rightarrow> u8 list \<Rightarrow> u32 \<times> u8 list" where
  "add_string s strtab = (of_nat (length strtab), strtab @ map of_char s @ [0])"

definition kind_name :: "u8 \<Rightarrow> string" where
  "kind_name kind =
     (if kind = SEC_CODE then ''.text'' else if kind = SEC_RODATA then ''.rodata''
      else if kind = SEC_DATA then ''.data'' else if kind = SEC_BSS then ''.bss'' else '''')"

fun add_section_names :: "u8 list \<Rightarrow> u8 list \<Rightarrow> u32 list \<times> u8 list" where
  "add_section_names [] strtab = ([], strtab)"
| "add_section_names (kind # rest) strtab =
     (case add_string (kind_name kind) strtab of
        (offset, strtab) \<Rightarrow> (case add_section_names rest strtab of (offsets, strtab) \<Rightarrow> (offset # offsets, strtab)))"

record OutSymbol =
  os_name_offset :: u32
  os_section_index :: u16
  os_binding :: u8
  os_type :: u8
  os_value :: u64
  os_size :: u64

definition out_symbol :: "int list \<Rightarrow> u32 \<Rightarrow> Symbol \<Rightarrow> OutSymbol" where
  "out_symbol section_index_of name_offset symbol =
     (if \<not> sy_defined symbol then
        \<lparr>os_name_offset = name_offset, os_section_index = SHN_UNDEF, os_binding = BIND_GLOBAL, os_type = TYPE_NOTYPE,
         os_value = 0, os_size = 0\<rparr>
      else
        let index = section_index_of ! unat (sy_section symbol);
            binding = (if sy_exported symbol then BIND_GLOBAL else BIND_LOCAL)
        in if 0 \<le> index then
             \<lparr>os_name_offset = name_offset, os_section_index = of_int index, os_binding = binding,
              os_type = (if sy_section symbol = SEC_CODE then TYPE_FUNC else TYPE_OBJECT),
              os_value = sy_value symbol, os_size = 0\<rparr>
           else
             \<lparr>os_name_offset = name_offset, os_section_index = SHN_ABS, os_binding = binding, os_type = TYPE_NOTYPE,
              os_value = sy_value symbol, os_size = 0\<rparr>)"

fun collect_symbols ::
  "int list \<Rightarrow> symbol_table \<Rightarrow> u8 list \<Rightarrow> OutSymbol list \<Rightarrow> (string \<rightharpoonup> u32) \<Rightarrow> u8 list \<times> OutSymbol list \<times> (string \<rightharpoonup> u32)" where
  "collect_symbols section_index_of [] strtab out_symbols symbol_index = (strtab, out_symbols, symbol_index)"
| "collect_symbols section_index_of ((name, symbol) # rest) strtab out_symbols symbol_index =
     (if sy_is_constant symbol then collect_symbols section_index_of rest strtab out_symbols symbol_index
      else
        case add_string name strtab of
          (offset, strtab) \<Rightarrow>
            collect_symbols section_index_of rest strtab (out_symbols @ [out_symbol section_index_of offset symbol])
              (symbol_index(name \<mapsto> of_nat (length out_symbols))))"

record OutRelocation =
  or_offset :: u64
  or_symbol :: u32
  or_type :: u8
  or_addend :: u64

definition out_relocation :: "(string \<rightharpoonup> u32) \<Rightarrow> Relocation \<Rightarrow> OutRelocation" where
  "out_relocation symbol_index relocation =
     \<lparr>or_offset = rl_offset relocation,
      or_symbol = (case symbol_index (rl_symbol relocation) of None \<Rightarrow> 0 | Some index \<Rightarrow> index),
      or_type = rl_type relocation, or_addend = rl_addend relocation\<rparr>"

definition group_relocations ::
  "int list \<Rightarrow> (string \<rightharpoonup> u32) \<Rightarrow> nat \<Rightarrow> Relocation list \<Rightarrow> OutRelocation list list" where
  "group_relocations section_index_of symbol_index n relocations =
     fold (\<lambda>relocation groups.
             let index = section_index_of ! unat (rl_section relocation)
             in if index < 0 then groups
                else groups[nat index := groups ! nat index @ [out_relocation symbol_index relocation]])
       relocations (replicate n [])"

record ObjectPlan =
  pn_present :: "u8 list"
  pn_name_offsets :: "u32 list"
  pn_strtab :: "u8 list"
  pn_symbols :: "OutSymbol list"
  pn_relocations :: "OutRelocation list list"
  pn_entry :: u32

definition plan_object :: "Assembler \<Rightarrow> ObjectPlan" where
  "plan_object a =
     (let (present, section_index_of) = number_sections (as_section_sizes a);
          (name_offsets, strtab) = add_section_names present [0];
          (strtab, out_symbols, symbol_index) = collect_symbols section_index_of (as_symbols a) strtab [] Map.empty
      in \<lparr>pn_present = present, pn_name_offsets = name_offsets, pn_strtab = strtab, pn_symbols = out_symbols,
          pn_relocations = group_relocations section_index_of symbol_index (length present) (as_relocations a),
          pn_entry = (case symbol_index ''_start'' of None \<Rightarrow> ENTRY_NONE | Some index \<Rightarrow> index)\<rparr>)"

section \<open>Writing\<close>

text \<open>The offsets of a row of blocks, of which some take no room in the file.\<close>

fun assign_offsets :: "(bool \<times> u64) list \<Rightarrow> u64 \<Rightarrow> u64 list \<times> u64" where
  "assign_offsets [] cursor = ([], cursor)"
| "assign_offsets ((stored, extent) # rest) cursor =
     (case assign_offsets rest (if stored then cursor + extent else cursor) of
        (offsets, final) \<Rightarrow> ((if stored then cursor else 0) # offsets, final))"

definition put_header :: "u16 \<Rightarrow> u64 \<Rightarrow> u64 \<Rightarrow> u32 \<Rightarrow> u64 \<Rightarrow> u32 \<Rightarrow> u32 \<Rightarrow> u8 list \<Rightarrow> u8 list" where
  "put_header section_count section_header_offset symbol_offset symbol_count string_offset string_size entry contents =
     (let contents = put_u8 MZO_MAGIC0 contents; contents = put_u8 MZO_MAGIC1 contents; contents = put_u8 MZO_MAGIC2 contents;
          contents = put_u8 MZO_VERSION_V2 contents; contents = put_u16 0 contents; contents = put_u16 section_count contents;
          contents = put_u64 section_header_offset contents; contents = put_u64 symbol_offset contents;
          contents = put_u32 symbol_count contents; contents = put_u64 string_offset contents;
          contents = put_u32 string_size contents; contents = put_u32 entry contents
      in put_u32 0 contents)"

definition put_section_header :: "u32 \<Rightarrow> u8 \<Rightarrow> u64 \<Rightarrow> u64 \<Rightarrow> u64 \<Rightarrow> u64 \<Rightarrow> u8 list \<Rightarrow> u8 list" where
  "put_section_header name_offset kind file_offset extent relocation_offset relocation_count contents =
     (let contents = put_u32 name_offset contents; contents = put_u8 kind contents;
          contents = put_u8 (default_attrs kind) contents; contents = put_u8 0 contents; contents = put_u8 0 contents;
          contents = put_u64 (if kind = SEC_BSS then 0 else file_offset) contents; contents = put_u64 extent contents;
          contents = put_u64 relocation_offset contents
      in put_u64 relocation_count contents)"

definition put_relocation :: "OutRelocation \<Rightarrow> u8 list \<Rightarrow> u8 list" where
  "put_relocation relocation contents =
     (let contents = put_u64 (or_offset relocation) contents; contents = put_u32 (or_symbol relocation) contents;
          contents = put_u8 (or_type relocation) contents; contents = put_u8 0 contents; contents = put_u8 0 contents;
          contents = put_u8 0 contents
      in put_u64 (or_addend relocation) contents)"

definition put_symbol_entry :: "OutSymbol \<Rightarrow> u8 list \<Rightarrow> u8 list" where
  "put_symbol_entry symbol contents =
     (let contents = put_u32 (os_name_offset symbol) contents; contents = put_u16 (os_section_index symbol) contents;
          contents = put_u8 (os_binding symbol) contents; contents = put_u8 (os_type symbol) contents;
          contents = put_u64 (os_value symbol) contents
      in put_u64 (os_size symbol) contents)"

definition resized :: "u8 list \<Rightarrow> nat \<Rightarrow> u8 list" where
  "resized bytes n = take n bytes @ replicate (n - length bytes) 0"

definition serialize_plan :: "u64 list \<Rightarrow> u8 list list \<Rightarrow> ObjectPlan \<Rightarrow> u8 list" where
  "serialize_plan sizes sections p =
     (let present = pn_present p; n = length present;
          section_header_offset = of_nat MZO_HEADER_SIZE;
          cursor = section_header_offset + of_nat n * of_nat SECTION_HDR_SIZE;
          (section_file_offset, cursor) =
            assign_offsets (map (\<lambda>kind. (kind \<noteq> SEC_BSS, sizes ! unat kind)) present) cursor;
          (relocation_offset, cursor) =
            assign_offsets (map (\<lambda>rs. (rs \<noteq> [], of_nat (length rs) * of_nat RELOC_SIZE)) (pn_relocations p)) cursor;
          symbol_offset = cursor;
          string_offset = cursor + of_nat (length (pn_symbols p)) * of_nat SYMBOL_SIZE;
          contents = put_header (of_nat n) section_header_offset symbol_offset (of_nat (length (pn_symbols p))) string_offset
                       (of_nat (length (pn_strtab p))) (pn_entry p) [];
          contents = fold (\<lambda>i. put_section_header (pn_name_offsets p ! i) (present ! i) (section_file_offset ! i)
                               (sizes ! unat (present ! i)) (relocation_offset ! i)
                               (of_nat (length (pn_relocations p ! i)))) [0..<n] contents;
          contents = fold (\<lambda>kind contents. if kind = SEC_BSS then contents
                                           else contents @ resized (sections ! unat kind) (unat (sizes ! unat kind)))
                       present contents;
          contents = fold (fold put_relocation) (pn_relocations p) contents;
          contents = fold put_symbol_entry (pn_symbols p) contents
      in contents @ pn_strtab p)"

definition serialize_object :: "Assembler \<Rightarrow> u8 list" where
  "serialize_object a = serialize_plan (as_section_sizes a) (as_sections a) (plan_object a)"

section \<open>The file as rows\<close>

definition header_row :: "u8 \<Rightarrow> u16 \<Rightarrow> u64 \<Rightarrow> u64 \<Rightarrow> u32 \<Rightarrow> u64 \<Rightarrow> u32 \<Rightarrow> u32 \<Rightarrow> u8 list" where
  "header_row version count shoff symoff symcount stroff strsize entry =
     [MZO_MAGIC0, MZO_MAGIC1, MZO_MAGIC2, version] @ le_bytes 2 (0 :: u16) @ le_bytes 2 count @ le_bytes 8 shoff @
     le_bytes 8 symoff @ le_bytes 4 symcount @ le_bytes 8 stroff @ le_bytes 4 strsize @ le_bytes 4 entry @ le_bytes 4 (0 :: u32)"

definition section_row :: "u32 \<Rightarrow> u8 \<Rightarrow> u64 \<Rightarrow> u64 \<Rightarrow> u64 \<Rightarrow> u64 \<Rightarrow> u8 list" where
  "section_row name kind offset extent relocs count =
     le_bytes 4 name @ [kind, default_attrs kind, 0, 0] @ le_bytes 8 (if kind = SEC_BSS then 0 else offset) @
     le_bytes 8 extent @ le_bytes 8 relocs @ le_bytes 8 count"

definition relocation_row :: "OutRelocation \<Rightarrow> u8 list" where
  "relocation_row r =
     le_bytes 8 (or_offset r) @ le_bytes 4 (or_symbol r) @ [or_type r, 0, 0, 0] @ le_bytes 8 (or_addend r)"

definition symbol_row :: "OutSymbol \<Rightarrow> u8 list" where
  "symbol_row s =
     le_bytes 4 (os_name_offset s) @ le_bytes 2 (os_section_index s) @ [os_binding s, os_type s] @
     le_bytes 8 (os_value s) @ le_bytes 8 (os_size s)"

lemma length_rows [simp]:
  "length (header_row v n a b c d e f) = 48" "length (section_row x k g h i j) = 40"
  "length (relocation_row r) = 24" "length (symbol_row s) = 24"
  by (simp_all add: header_row_def section_row_def relocation_row_def symbol_row_def)

lemma put_rows:
  "put_header n a b c d e f w = w @ header_row MZO_VERSION_V2 n a b c d e f"
  "put_section_header x k g h i j w = w @ section_row x k g h i j"
  "put_relocation r w = w @ relocation_row r" "put_symbol_entry s w = w @ symbol_row s"
  by (simp_all add: put_header_def put_section_header_def put_relocation_def put_symbol_entry_def put_appends Let_def
      header_row_def section_row_def relocation_row_def symbol_row_def)

lemma fold_rows: "(\<And>x w. g x w = w @ f x) \<Longrightarrow> fold g xs w = w @ concat (map f xs)"
  by (induction xs arbitrary: w) simp_all

definition contents_block :: "u64 list \<Rightarrow> u8 list list \<Rightarrow> u8 \<Rightarrow> u8 list" where
  "contents_block sizes sections kind = (if kind = SEC_BSS then [] else resized (sections ! unat kind) (unat (sizes ! unat kind)))"

definition relocations_block :: "OutRelocation list \<Rightarrow> u8 list" where
  "relocations_block rs = concat (map relocation_row rs)"

lemma length_resized [simp]: "length (resized bytes n) = n"
  by (simp add: resized_def)

lemma length_relocations_block [simp]: "length (relocations_block rs) = 24 * length rs"
  by (induction rs) (simp_all add: relocations_block_def)

lemma length_symbol_rows [simp]: "length (concat (map symbol_row ss)) = 24 * length ss"
  by (induction ss) simp_all

text \<open>The offsets are those at which the blocks stand.\<close>

lemma assign_offsets_blocks:
  assumes "\<forall>x \<in> set xs. (\<not> stored x \<longrightarrow> bl x = []) \<and> (stored x \<longrightarrow> extent x = of_nat (length (bl x)))"
  shows "assign_offsets (map (\<lambda>x. (stored x, extent x)) xs) (of_nat n) =
    (map (\<lambda>i. if stored (xs ! i) then of_nat (n + length (concat (map bl (take i xs)))) else 0) [0..<length xs],
     of_nat (n + length (concat (map bl xs))))"
  using assms
proof (induction xs arbitrary: n)
  case (Cons x xs)
  have s: "(if stored x then of_nat n + extent x else of_nat n) = (of_nat (n + length (bl x)) :: u64)" using Cons.prems by auto
  have u: "[0..<length (x # xs)] = 0 # map Suc [0..<length xs]" by (simp add: upt_conv_Cons map_Suc_upt del: upt_Suc)
  have ih: "assign_offsets (map (\<lambda>x. (stored x, extent x)) xs) (of_nat (n + length (bl x))) =
    (map (\<lambda>i. if stored (xs ! i) then of_nat (n + length (bl x) + length (concat (map bl (take i xs)))) else 0) [0..<length xs],
     of_nat (n + length (bl x) + length (concat (map bl xs))))"
    using Cons.prems by (intro Cons.IH) simp
  show ?case
    unfolding u list.map assign_offsets.simps s ih prod.case by (simp add: comp_def add.assoc)
qed simp

definition object_rows :: "u8 \<Rightarrow> u64 list \<Rightarrow> u8 list list \<Rightarrow> ObjectPlan \<Rightarrow> u8 list" where
  "object_rows version sizes sections p =
     (let present = pn_present p; n = length present;
          shend = MZO_HEADER_SIZE + n * SECTION_HDR_SIZE;
          contents = concat (map (contents_block sizes sections) present);
          relocs = concat (map relocations_block (pn_relocations p));
          symoff = shend + length contents + length relocs;
          stroff = symoff + SYMBOL_SIZE * length (pn_symbols p)
      in header_row version (of_nat n) (of_nat MZO_HEADER_SIZE) (of_nat symoff) (of_nat (length (pn_symbols p))) (of_nat stroff)
           (of_nat (length (pn_strtab p))) (pn_entry p) @
         concat (map (\<lambda>i. section_row (pn_name_offsets p ! i) (present ! i)
                          (of_nat (shend + length (concat (map (contents_block sizes sections) (take i present)))))
                          (sizes ! unat (present ! i))
                          (if pn_relocations p ! i \<noteq> [] then
                             of_nat (shend + length contents + length (concat (map relocations_block (take i (pn_relocations p)))))
                           else 0)
                          (of_nat (length (pn_relocations p ! i)))) [0..<n]) @
         contents @ relocs @ concat (map symbol_row (pn_symbols p)) @ pn_strtab p)"

lemma serialize_plan_rows:
  assumes "length (pn_relocations p) = length (pn_present p)"
  shows "serialize_plan sizes sections p = object_rows MZO_VERSION_V2 sizes sections p"
proof -
  let ?n = "length (pn_present p)" and ?c = "contents_block sizes sections"
  let ?m = "48 + ?n * 40" and ?k = "length (concat (map (contents_block sizes sections) (pn_present p)))"
  have c: "assign_offsets (map (\<lambda>kind. (kind \<noteq> SEC_BSS, sizes ! unat kind)) (pn_present p)) (of_nat ?m) =
    (map (\<lambda>i. if pn_present p ! i \<noteq> SEC_BSS then of_nat (?m + length (concat (map ?c (take i (pn_present p))))) else 0) [0..<?n],
     of_nat (?m + ?k))"
    by (rule assign_offsets_blocks) (simp add: contents_block_def)
  have r: "assign_offsets (map (\<lambda>rs. (rs \<noteq> [], of_nat (length rs) * of_nat RELOC_SIZE)) (pn_relocations p)) (of_nat (?m + ?k)) =
    (map (\<lambda>i. if pn_relocations p ! i \<noteq> [] then of_nat (?m + ?k + length (concat (map relocations_block (take i (pn_relocations p))))) else 0)
       [0..<length (pn_relocations p)],
     of_nat (?m + ?k + length (concat (map relocations_block (pn_relocations p)))))"
  proof (rule assign_offsets_blocks, intro ballI conjI impI)
    show "relocations_block rs = []" if "\<not> rs \<noteq> []" for rs using that by (simp add: relocations_block_def)
    show "of_nat (length rs) * of_nat 24 = (of_nat (length (relocations_block rs)) :: u64)" for rs by simp
  qed
  have m: "of_nat 48 + of_nat ?n * of_nat 40 = (of_nat ?m :: u64)" by simp
  have f: "fold (fold put_relocation) rss w = w @ concat (map relocations_block rss)" for rss w
    by (rule fold_rows) (simp add: relocations_block_def fold_rows [OF put_rows(3)])
  have g: "fold (\<lambda>kind contents. if kind = SEC_BSS then contents else contents @ resized (sections ! unat kind) (unat (sizes ! unat kind)))
     ks w = w @ concat (map ?c ks)" for ks w
    by (rule fold_rows) (simp add: contents_block_def)
  have h: "fold (\<lambda>i. put_section_header (no i) (ki i) (fo i) (ex i) (ro i) (co i)) is w =
     w @ concat (map (\<lambda>i. section_row (no i) (ki i) (fo i) (ex i) (ro i) (co i)) is)" for no ki fo ex ro co "is" w
    by (rule fold_rows) (simp add: put_rows)
  have o: "of_nat x + of_nat y * of_nat 24 = (of_nat (x + 24 * y) :: u64)" for x y by simp
  have rows: "map (\<lambda>i. section_row (pn_name_offsets p ! i) (pn_present p ! i)
        (map (\<lambda>i. if pn_present p ! i \<noteq> SEC_BSS then of_nat (?m + length (concat (map ?c (take i (pn_present p))))) else 0) [0..<?n] ! i)
        (sizes ! unat (pn_present p ! i))
        (map (\<lambda>i. if pn_relocations p ! i \<noteq> [] then of_nat (?m + ?k + length (concat (map relocations_block (take i (pn_relocations p))))) else 0)
          [0..<length (pn_relocations p)] ! i)
        (of_nat (length (pn_relocations p ! i)))) [0..<?n] =
    map (\<lambda>i. section_row (pn_name_offsets p ! i) (pn_present p ! i)
        (of_nat (?m + length (concat (map ?c (take i (pn_present p)))))) (sizes ! unat (pn_present p ! i))
        (if pn_relocations p ! i \<noteq> [] then of_nat (?m + ?k + length (concat (map relocations_block (take i (pn_relocations p))))) else 0)
        (of_nat (length (pn_relocations p ! i)))) [0..<?n]"
    by (rule map_cong [OF refl]) (simp add: assms section_row_def del: of_nat_add)
  show ?thesis
    unfolding serialize_plan_def object_rows_def Let_def m c r prod.case f g h fold_rows [OF put_rows(4)] put_rows(1) rows o
    by (simp only: append_Nil append.assoc)
qed

section \<open>What was collected\<close>

definition position :: "'a \<Rightarrow> 'a list \<Rightarrow> nat option" where
  "position x xs = (if x \<in> set xs then Some (length (takeWhile (\<lambda>y. y \<noteq> x) xs)) else None)"

lemma position_simps [simp]:
  "position x [] = None"
  "position x (y # ys) = (if x = y then Some 0 else map_option Suc (position x ys))"
  by (auto simp: position_def)

lemma position_Some: "position x xs = Some i \<Longrightarrow> i < length xs \<and> xs ! i = x"
  by (induction xs arbitrary: i) (auto split: if_splits)

lemma position_nth: "distinct xs \<Longrightarrow> i < length xs \<Longrightarrow> position (xs ! i) xs = Some i"
  by (induction xs arbitrary: i) (auto simp: nth_Cons split: nat.splits)

definition present_sections :: "u64 list \<Rightarrow> u8 list" where
  "present_sections sizes = filter (\<lambda>kind. 0 < sizes ! unat kind) section_order"

lemma number_sections_present: "fst (number_sections sizes) = present_sections sizes"
  by (simp add: number_sections_def present_sections_def section_order_def)

lemma number_sections_index:
  assumes "kind < 5"
  shows "snd (number_sections sizes) ! unat kind = (case position kind (present_sections sizes) of None \<Rightarrow> -1 | Some i \<Rightarrow> int i)"
proof -
  have "unat kind < 5" using assms by (simp add: word_less_nat_alt)
  then have "unat kind = 0 \<or> unat kind = 1 \<or> unat kind = 2 \<or> unat kind = 3 \<or> unat kind = 4" by linarith
  moreover have "kind = of_nat (unat kind)" by simp
  ultimately have "kind = 0 \<or> kind = 1 \<or> kind = 2 \<or> kind = 3 \<or> kind = 4" by (elim disjE) simp_all
  then show ?thesis
    by (elim disjE) (simp_all add: number_sections_def present_sections_def section_order_def)
qed

text \<open>The offsets of rows of differing length.\<close>

fun row_offsets :: "('a \<Rightarrow> 'b list) \<Rightarrow> nat \<Rightarrow> 'a list \<Rightarrow> nat list" where
  "row_offsets f n [] = []"
| "row_offsets f n (x # xs) = n # row_offsets f (n + length (f x)) xs"

lemma length_row_offsets [simp]: "length (row_offsets f n xs) = length xs"
  by (induction xs arbitrary: n) simp_all

lemma row_offsets_split:
  assumes "i < length xs"
  obtains pre post where "concat (map f xs) = pre @ f (xs ! i) @ post" "row_offsets f n xs ! i = n + length pre"
proof -
  have "\<exists>pre post. concat (map f xs) = pre @ f (xs ! i) @ post \<and> row_offsets f n xs ! i = n + length pre"
    using assms
  proof (induction xs arbitrary: i n)
    case (Cons x xs)
    show ?case
    proof (cases i)
      case 0
      then show ?thesis by (intro exI [of _ "[]"] exI [of _ "concat (map f xs)"]) simp
    next
      case (Suc j)
      have "j < length xs" using Cons.prems Suc by simp
      then obtain pre post where "concat (map f xs) = pre @ f (xs ! j) @ post"
        "row_offsets f (n + length (f x)) xs ! j = n + length (f x) + length pre" using Cons.IH by blast
      then show ?thesis using Suc by (intro exI [of _ "f x @ pre"] exI [of _ post]) simp
    qed
  qed simp
  then show ?thesis using that by blast
qed

definition name_row :: "string \<Rightarrow> u8 list" where
  "name_row name = map of_char name @ [0]"

lemma add_section_names_rows:
  "add_section_names kinds strtab =
   (map of_nat (row_offsets (\<lambda>kind. name_row (kind_name kind)) (length strtab) kinds),
    strtab @ concat (map (\<lambda>kind. name_row (kind_name kind)) kinds))"
  by (induction kinds arbitrary: strtab) (simp_all add: add_string_def name_row_def)

definition linkable :: "symbol_table \<Rightarrow> symbol_table" where
  "linkable symbols = filter (\<lambda>(name, symbol). \<not> sy_is_constant symbol) symbols"

lemma collect_symbols_rows:
  assumes "collect_symbols idx symbols strtab outs index = (strtab', outs', index')"
  shows "strtab' = strtab @ concat (map (\<lambda>e. name_row (fst e)) (linkable symbols)) \<and>
    outs' = outs @ map2 (\<lambda>off e. out_symbol idx (of_nat off) (snd e))
                     (row_offsets (\<lambda>e. name_row (fst e)) (length strtab) (linkable symbols)) (linkable symbols)"
  using assms
proof (induction symbols arbitrary: strtab outs index)
  case (Cons e rest)
  obtain name symbol where e: "e = (name, symbol)" by fastforce
  show ?case
  proof (cases "sy_is_constant symbol")
    case True
    then show ?thesis using Cons e by (simp add: linkable_def)
  next
    case False
    let ?o = "out_symbol idx (of_nat (length strtab)) symbol"
    have "collect_symbols idx rest (strtab @ name_row name) (outs @ [?o]) (index(name \<mapsto> of_nat (length outs))) = (strtab', outs', index')"
      using Cons.prems False e by (simp add: add_string_def name_row_def)
    from Cons.IH [OF this] show ?thesis using False by (simp add: e linkable_def)
  qed
qed (simp add: linkable_def)

lemma collect_symbols_index:
  assumes "collect_symbols idx symbols strtab outs index = (strtab', outs', index')" and "distinct (map fst symbols)"
  shows "index' name =
    (case position name (map fst (linkable symbols)) of None \<Rightarrow> index name | Some i \<Rightarrow> Some (of_nat (length outs + i)))"
  using assms
proof (induction symbols arbitrary: strtab outs index)
  case (Cons e rest)
  obtain n symbol where e: "e = (n, symbol)" by fastforce
  show ?case
  proof (cases "sy_is_constant symbol")
    case True
    then show ?thesis using Cons e by (simp add: linkable_def)
  next
    case False
    let ?o = "out_symbol idx (of_nat (length strtab)) symbol"
    have c: "collect_symbols idx rest (strtab @ name_row n) (outs @ [?o]) (index(n \<mapsto> of_nat (length outs))) = (strtab', outs', index')"
      using Cons.prems False e by (simp add: add_string_def name_row_def)
    have d: "distinct (map fst rest)" using Cons.prems(2) by simp
    have r: "position n (map fst (linkable rest)) = None"
      using Cons.prems(2) e by (auto simp: position_def linkable_def)
    from Cons.IH [OF c d] show ?thesis using False r by (auto simp: e linkable_def split: option.splits)
  qed
qed (simp add: linkable_def)

lemma group_relocations_spec:
  assumes "\<forall>r \<in> set relocations. idx ! unat (rl_section r) < int n"
  shows "length (group_relocations idx si n relocations) = n \<and>
    (\<forall>i < n. group_relocations idx si n relocations ! i =
       map (out_relocation si) (filter (\<lambda>r. idx ! unat (rl_section r) = int i) relocations))"
  using assms
proof (induction relocations rule: rev_induct)
  case (snoc r rs)
  then show ?case
    by (auto simp: group_relocations_def Let_def nth_list_update)
qed (simp add: group_relocations_def)

end
