(* ===== verification/Object_Reader.thy ===== *)
theory Object_Reader
  imports Object_Writer
begin

text \<open>
  The linker's reader, \<^verbatim>\<open>src/mzld.cpp\<close> through \<^verbatim>\<open>parse_archive\<close>, and that it reads back what the object
  writer wrote. A step that fails gives the message it reports; a read outside its buffer, which
  the source's own tests can let through because their sums wrap, gives \<open>OutOfBounds\<close>.
\<close>

section \<open>Objects\<close>

datatype LinkError = Message string | OutOfBounds

record LinkReloc =
  r_offset :: u64
  r_symbol :: u32
  r_type :: u8
  r_addend :: u64

record LinkSymbol =
  ls_name :: string
  ls_section_index :: u16
  ls_binding :: u8
  ls_type :: u8
  ls_value :: u64
  ls_size :: u64

record LinkSection =
  se_name :: string
  se_kind :: u8
  se_attrs :: u8
  se_align :: u8
  se_size :: u64
  se_data :: "u8 list"
  se_relocs :: "LinkReloc list"
  se_vaddr :: u64
  se_placed :: bool

record LinkObject =
  lo_source :: string
  lo_sections :: "LinkSection list"
  lo_symbols :: "LinkSymbol list"

definition read_string :: "u8 list \<Rightarrow> u32 \<Rightarrow> LinkError + string" where
  "read_string strtab off =
     (if length strtab \<le> unat off then Inr []
      else
        let s = takeWhile (\<lambda>c. c \<noteq> 0) (drop (unat off) strtab)
        in if unat off + length s < length strtab then Inr (map (\<lambda>c. char_of (unat c)) s) else Inl OutOfBounds)"

section \<open>Reading an object\<close>

fun collect :: "('i \<Rightarrow> 'e + 'a) \<Rightarrow> 'i list \<Rightarrow> 'e + 'a list" where
  "collect f [] = Inr []"
| "collect f (i # rest) =
     (case f i of
        Inl e \<Rightarrow> Inl e
      | Inr x \<Rightarrow> (case collect f rest of Inl e \<Rightarrow> Inl e | Inr xs \<Rightarrow> Inr (x # xs)))"

definition file_says :: "string \<Rightarrow> string \<Rightarrow> LinkError" where
  "file_says path what = Message (CHR 0x27 # path @ CHR 0x27 # what)"

definition parse_reloc :: "u8 list \<Rightarrow> nat \<Rightarrow> LinkReloc" where
  "parse_reloc b ro =
     \<lparr>r_offset = get_u64 b ro, r_symbol = get_u32 b (ro + 8), r_type = get_u8 b (ro + 12), r_addend = get_u64 b (ro + 16)\<rparr>"

definition parse_relocs :: "string \<Rightarrow> string \<Rightarrow> u8 list \<Rightarrow> u64 \<Rightarrow> u64 \<Rightarrow> LinkError + LinkReloc list" where
  "parse_relocs path name b reloc_off reloc_count =
     (if reloc_off \<noteq> 0 \<and> reloc_count \<noteq> 0 then
        if length b < unat (reloc_off + reloc_count * of_nat RELOC_SIZE)
        then Inl (file_says path ('' section '' @ quoted name @ '' relocations out of bounds''))
        else if length b < unat reloc_off + unat reloc_count * RELOC_SIZE then Inl OutOfBounds
        else Inr (map (\<lambda>r. parse_reloc b (unat reloc_off + r * RELOC_SIZE)) [0..<unat reloc_count])
      else Inr [])"

definition parse_contents :: "string \<Rightarrow> string \<Rightarrow> u8 list \<Rightarrow> u8 \<Rightarrow> u64 \<Rightarrow> u64 \<Rightarrow> LinkError + u8 list" where
  "parse_contents path name b attrs file_off extent =
     (if attrs AND ATTR_NOBITS = 0 \<and> 0 < extent then
        if length b < unat (file_off + extent)
        then Inl (file_says path ('' section '' @ quoted name @ '' contents out of bounds''))
        else if length b < unat file_off + unat extent then Inl OutOfBounds
        else Inr (take (unat extent) (drop (unat file_off) b))
      else Inr [])"

definition parse_section :: "string \<Rightarrow> u8 list \<Rightarrow> u8 list \<Rightarrow> u64 \<Rightarrow> nat \<Rightarrow> LinkError + LinkSection" where
  "parse_section path b strtab shoff i =
     (let so = shoff + of_nat i * of_nat SECTION_HDR_SIZE
      in if length b < unat (so + of_nat SECTION_HDR_SIZE)
         then Inl (file_says path '' section header out of bounds'')
         else if length b < unat so + SECTION_HDR_SIZE then Inl OutOfBounds
         else
           let so = unat so; align = get_u8 b (so + 6); attrs = get_u8 b (so + 5); extent = get_u64 b (so + 16)
           in case read_string strtab (get_u32 b so) of
                Inl e \<Rightarrow> Inl e
              | Inr name \<Rightarrow>
                  (case parse_contents path name b attrs (get_u64 b (so + 8)) extent of
                     Inl e \<Rightarrow> Inl e
                   | Inr contents \<Rightarrow>
                       (case parse_relocs path name b (get_u64 b (so + 24)) (get_u64 b (so + 32)) of
                          Inl e \<Rightarrow> Inl e
                        | Inr relocs \<Rightarrow>
                            Inr \<lparr>se_name = name, se_kind = get_u8 b (so + 4), se_attrs = attrs,
                                 se_align = (if align = 0 then 1 else align), se_size = extent, se_data = contents,
                                 se_relocs = relocs, se_vaddr = 0, se_placed = False\<rparr>)))"

definition parse_link_symbol :: "string \<Rightarrow> u8 list \<Rightarrow> u8 list \<Rightarrow> u64 \<Rightarrow> nat \<Rightarrow> LinkError + LinkSymbol" where
  "parse_link_symbol path b strtab symoff i =
     (let yo = symoff + of_nat i * of_nat SYMBOL_SIZE
      in if length b < unat (yo + of_nat SYMBOL_SIZE)
         then Inl (file_says path '' symbol table out of bounds'')
         else if length b < unat yo + SYMBOL_SIZE then Inl OutOfBounds
         else
           let yo = unat yo
           in case read_string strtab (get_u32 b yo) of
                Inl e \<Rightarrow> Inl e
              | Inr name \<Rightarrow>
                  Inr \<lparr>ls_name = name, ls_section_index = get_u16 b (yo + 4), ls_binding = get_u8 b (yo + 6),
                       ls_type = get_u8 b (yo + 7), ls_value = get_u64 b (yo + 8), ls_size = get_u64 b (yo + 16)\<rparr>)"

definition parse_object_buf :: "u8 list \<Rightarrow> string \<Rightarrow> LinkError + LinkObject" where
  "parse_object_buf b path =
     (if length b < MZO_HEADER_SIZE then Inl (file_says path '' is too small to be a .mzo'')
      else if b ! 0 \<noteq> MZO_MAGIC0 \<or> b ! 1 \<noteq> MZO_MAGIC1 \<or> b ! 2 \<noteq> MZO_MAGIC2 \<or> b ! 3 \<noteq> MZO_VERSION
      then Inl (file_says path '' is not a v1 .mzo object (bad magic)'')
      else
        let stroff = get_u64 b 28; strsize = get_u32 b 36
        in if length b < unat (stroff + ucast strsize) then Inl (file_says path '' string table out of bounds'')
           else if length b < unat stroff + unat strsize then Inl OutOfBounds
           else
             let strtab = take (unat strsize) (drop (unat stroff) b)
             in case collect (parse_section path b strtab (get_u64 b 8)) [0..<unat (get_u16 b 6)] of
                  Inl e \<Rightarrow> Inl e
                | Inr sections \<Rightarrow>
                    (case collect (parse_link_symbol path b strtab (get_u64 b 16)) [0..<unat (get_u32 b 24)] of
                       Inl e \<Rightarrow> Inl e
                     | Inr symbols \<Rightarrow> Inr \<lparr>lo_source = path, lo_sections = sections, lo_symbols = symbols\<rparr>))"

text \<open>A \<^verbatim>\<open>.mza\<close> archive: its members in the order of the index, each read as an object.\<close>

definition parse_member :: "string \<Rightarrow> u8 list \<Rightarrow> u64 \<Rightarrow> nat \<Rightarrow> LinkError + LinkObject" where
  "parse_member path b index_off i =
     (let eo = index_off + of_nat i * of_nat MZA_INDEX_ENTRY_SIZE
      in if length b < unat (eo + of_nat MZA_INDEX_ENTRY_SIZE)
         then Inl (file_says path '' archive member index out of bounds'')
         else if length b < unat eo + MZA_INDEX_ENTRY_SIZE then Inl OutOfBounds
         else
           let eo = unat eo; name_off = get_u32 b eo; member_off = get_u64 b (eo + 8); member_size = get_u64 b (eo + 16)
           in if length b < unat (member_off + member_size)
              then Inl (file_says path '' archive member contents out of bounds'')
              else if length b < unat member_off + unat member_size then Inl OutOfBounds
              else
                let tag = map (\<lambda>c. char_of (unat c)) (takeWhile (\<lambda>c. c \<noteq> 0) (drop (unat name_off) b));
                    member = take (unat member_size) (drop (unat member_off) b)
                in parse_object_buf member (path @ ''('' @ (if tag = [] then to_string i else tag) @ '')''))"

definition parse_archive :: "string \<Rightarrow> u8 list \<Rightarrow> LinkError + LinkObject list" where
  "parse_archive path b =
     (if length b < MZA_HEADER_SIZE then Inl (file_says path '' is too small to be a .mza archive'')
      else if b ! 3 \<noteq> MZA_VERSION then Inl (file_says path '' is not a v1 .mza archive (bad version)'')
      else collect (parse_member path b (get_u64 b 8)) [0..<unat (get_u16 b 6)])"

section \<open>Reading the writer's rows\<close>

lemma section_row_fields:
  assumes "take 40 (drop so b) = section_row name kind offset extent relocs count"
  shows "get_u32 b so = name" "get_u8 b (so + 4) = kind" "get_u8 b (so + 5) = default_attrs kind" "get_u8 b (so + 6) = 0"
    "get_u64 b (so + 8) = (if kind = SEC_BSS then 0 else offset)" "get_u64 b (so + 16) = extent"
    "get_u64 b (so + 24) = relocs" "get_u64 b (so + 32) = count"
  using slice_field [OF assms, of 0 4] slice_field [OF assms, of 4 1] slice_field [OF assms, of 5 1]
    slice_field [OF assms, of 6 1] slice_field [OF assms, of 8 8] slice_field [OF assms, of 16 8]
    slice_field [OF assms, of 24 8] slice_field [OF assms, of 32 8]
  by (simp_all add: section_row_def get_slices)

lemma symbol_row_fields:
  assumes "take 24 (drop yo b) = symbol_row s"
  shows "get_u32 b yo = os_name_offset s" "get_u16 b (yo + 4) = os_section_index s" "get_u8 b (yo + 6) = os_binding s"
    "get_u8 b (yo + 7) = os_type s" "get_u64 b (yo + 8) = os_value s" "get_u64 b (yo + 16) = os_size s"
  using slice_field [OF assms, of 0 4] slice_field [OF assms, of 4 2] slice_field [OF assms, of 6 1]
    slice_field [OF assms, of 7 1] slice_field [OF assms, of 8 8] slice_field [OF assms, of 16 8]
  by (simp_all add: symbol_row_def get_slices)

lemma relocation_row_fields:
  assumes "take 24 (drop ro b) = relocation_row r"
  shows "parse_reloc b ro = \<lparr>r_offset = or_offset r, r_symbol = or_symbol r, r_type = or_type r, r_addend = or_addend r\<rparr>"
  using slice_field [OF assms, of 0 8] slice_field [OF assms, of 8 4] slice_field [OF assms, of 12 1]
    slice_field [OF assms, of 16 8]
  by (simp add: relocation_row_def parse_reloc_def get_slices)

lemma header_row_fields:
  assumes "take 48 b = header_row v n shoff symoff symcount stroff strsize entry"
  shows "b ! 0 = MZO_MAGIC0" "b ! 1 = MZO_MAGIC1" "b ! 2 = MZO_MAGIC2" "b ! 3 = v" "get_u16 b 6 = n" "get_u64 b 8 = shoff"
    "get_u64 b 16 = symoff" "get_u32 b 24 = symcount" "get_u64 b 28 = stroff" "get_u32 b 36 = strsize"
proof -
  have r: "take 48 (drop 0 b) = header_row v n shoff symoff symcount stroff strsize entry" using assms by simp
  show "b ! 0 = MZO_MAGIC0" "b ! 1 = MZO_MAGIC1" "b ! 2 = MZO_MAGIC2" "b ! 3 = v"
    using nth_of_slice [OF r, of 0] nth_of_slice [OF r, of 1] nth_of_slice [OF r, of 2] nth_of_slice [OF r, of 3]
    by (simp_all add: header_row_def numeral_2_eq_2 numeral_3_eq_3)
  show "get_u16 b 6 = n" "get_u64 b 8 = shoff" "get_u64 b 16 = symoff" "get_u32 b 24 = symcount" "get_u64 b 28 = stroff"
    "get_u32 b 36 = strsize"
    using slice_field [OF r, of 6 2] slice_field [OF r, of 8 8] slice_field [OF r, of 16 8] slice_field [OF r, of 24 4]
      slice_field [OF r, of 28 8] slice_field [OF r, of 36 4]
    by (simp_all add: header_row_def get_slices)
qed

lemma unat_of_char: "unat (of_char c :: u8) = of_char c"
proof -
  have "(of_char c :: u8) = of_nat (of_char c)" by (rule of_nat_of_char [symmetric])
  then show ?thesis using nat_of_char_less_256 [of c] by (simp only: unat_of_nat) simp
qed

lemma read_name:
  assumes "strtab = pre @ name_row name @ post" and "CHR 0x00 \<notin> set name" and "length pre < 2 ^ 32"
  shows "read_string strtab (of_nat (length pre)) = Inr name"
proof -
  have o: "unat (of_nat (length pre) :: u32) = length pre" unfolding unat_of_nat using assms(3) by (intro mod_less) simp
  have z: "(of_char c :: u8) \<noteq> 0" if "c \<in> set name" for c
  proof
    assume "(of_char c :: u8) = 0"
    then have "(of_char c :: nat) = 0" using unat_of_char [of c] by simp
    moreover have "c = char_of (of_char c :: nat)" by simp
    ultimately have "c = char_of (0 :: nat)" by (simp only:)
    then have "c = CHR 0x00" by (simp add: char_of_def)
    then show False using that assms(2) by blast
  qed
  have "x \<noteq> 0" if "x \<in> set (map of_char name :: u8 list)" for x using that z by auto
  from takeWhile_append2 [of "map of_char name" "\<lambda>c. c \<noteq> 0" "0 # post", OF this]
  have t: "takeWhile (\<lambda>c. c \<noteq> 0) (drop (length pre) strtab) = map of_char name"
    by (simp add: assms(1) name_row_def)
  have "map ((\<lambda>c. char_of (unat c)) \<circ> (of_char :: char \<Rightarrow> u8)) name = name" by (simp add: comp_def unat_of_char)
  moreover have "length pre + length name < length strtab" by (simp add: assms(1) name_row_def)
  ultimately show ?thesis unfolding read_string_def Let_def o t by (simp add: not_le)
qed

lemma collect_Inr:
  assumes "\<And>i. i < n \<Longrightarrow> f i = Inr (g i)"
  shows "collect f [0..<n] = Inr (map g [0..<n])"
proof -
  have "collect f xs = Inr (map g xs)" if "\<forall>i \<in> set xs. f i = Inr (g i)" for xs using that by (induction xs) simp_all
  then show ?thesis using assms by simp
qed

lemma parse_contents_at:
  assumes "b = pre @ blk @ post" and "length b < 2 ^ 64" and "unat extent = length blk" and "attrs AND ATTR_NOBITS = 0" and "0 < extent"
  shows "parse_contents path name b attrs (of_nat (length pre)) extent = Inr blk"
proof -
  have u: "unat (of_nat (length pre) :: u64) = length pre" using assms(1,2) by (simp add: unat_of_nat_64)
  have "of_nat (length pre) + extent = (of_nat (length pre + length blk) :: u64)" by (simp flip: assms(3))
  then have "unat (of_nat (length pre) + extent) = length pre + length blk" using assms(1,2) by (simp add: unat_of_nat_64 del: of_nat_add)
  then show ?thesis using assms u by (simp add: parse_contents_def)
qed

definition reloc_of :: "OutRelocation \<Rightarrow> LinkReloc" where
  "reloc_of r = \<lparr>r_offset = or_offset r, r_symbol = or_symbol r, r_type = or_type r, r_addend = or_addend r\<rparr>"

lemma parse_relocs_at:
  assumes "b = pre @ relocations_block rs @ post" and "length b < 2 ^ 64" and "pre \<noteq> []" and "rs \<noteq> []"
  shows "parse_relocs path name b (of_nat (length pre)) (of_nat (length rs)) = Inr (map reloc_of rs)"
proof -
  have u: "unat (of_nat (length pre) :: u64) = length pre" "unat (of_nat (length rs) :: u64) = length rs"
    using assms(1,2) by (simp_all add: unat_of_nat_64)
  then have nz: "(of_nat (length pre) :: u64) \<noteq> 0" "(of_nat (length rs) :: u64) \<noteq> 0"
    using assms(3,4) by (auto simp flip: unat_eq_zero)
  have "of_nat (length pre) + of_nat (length rs) * of_nat 24 = (of_nat (length pre + length rs * 24) :: u64)" by simp
  then have w: "unat (of_nat (length pre) + of_nat (length rs) * of_nat 24 :: u64) = length pre + length rs * 24"
    using assms(1,2) by (simp add: unat_of_nat_64 mult.commute del: of_nat_add of_nat_mult of_nat_numeral)
  have "map (\<lambda>r. parse_reloc b (length pre + r * 24)) [0..<length rs] = map reloc_of rs"
  proof (rule nth_equalityI)
    fix i assume "i < length (map (\<lambda>r. parse_reloc b (length pre + r * 24)) [0..<length rs])"
    then have i: "i < length rs" by simp
    have "take 24 (drop (length pre + i * 24) b) = relocation_row (rs ! i)"
      unfolding assms(1) relocations_block_def using i by (intro slice_row) simp_all
    then show "map (\<lambda>r. parse_reloc b (length pre + r * 24)) [0..<length rs] ! i = map reloc_of rs ! i"
      using i by (simp add: relocation_row_fields reloc_of_def)
  qed simp
  then show ?thesis using nz w assms(1) by (simp add: parse_relocs_def u mult.commute)
qed

lemma concat_split: "i < length xs \<Longrightarrow>
    concat (map f xs) = concat (map f (take i xs)) @ f (xs ! i) @ concat (map f (drop (Suc i) xs))"
  using arg_cong [OF id_take_nth_drop [of i xs], of "\<lambda>xs. concat (map f xs)"] by simp

lemma length_uniform: "(\<And>x. length (f x) = m) \<Longrightarrow> length (concat (map f xs)) = length xs * m"
  by (induction xs) simp_all

lemma length_concat_rows: "(\<And>x. 0 < length (f x)) \<Longrightarrow> length xs \<le> length (concat (map f xs))"
proof (induction xs)
  case (Cons x xs)
  then show ?case using Cons.IH [OF Cons.prems] Cons.prems [of x]
    unfolding list.map concat.simps length_append list.size by linarith
qed simp

lemma section_attrs:
  assumes "kind \<in> set section_order"
  shows "default_attrs kind AND ATTR_NOBITS = 0 \<longleftrightarrow> kind \<noteq> SEC_BSS"
  using assms by (auto simp: section_order_def default_attrs_def)

section \<open>Reading the writer's file\<close>

text \<open>A plan whose rows can be read: as many rows everywhere as sections, names in the string table.\<close>

definition readable_plan :: "u64 list \<Rightarrow> ObjectPlan \<Rightarrow> (nat \<Rightarrow> string) \<Rightarrow> (nat \<Rightarrow> string) \<Rightarrow> bool" where
  "readable_plan sizes p section_name symbol_name \<longleftrightarrow>
     length (pn_relocations p) = length (pn_present p) \<and> length (pn_present p) \<le> 4 \<and>
     (\<forall>kind \<in> set (pn_present p). kind \<in> set section_order \<and> 0 < sizes ! unat kind) \<and>
     (\<forall>i < length (pn_present p). read_string (pn_strtab p) (pn_name_offsets p ! i) = Inr (section_name i)) \<and>
     (\<forall>i < length (pn_symbols p). read_string (pn_strtab p) (os_name_offset (pn_symbols p ! i)) = Inr (symbol_name i)) \<and>
     length (pn_strtab p) < 2 ^ 32 \<and> length (pn_symbols p) < 2 ^ 32"

definition section_of :: "u64 list \<Rightarrow> u8 list list \<Rightarrow> ObjectPlan \<Rightarrow> string \<Rightarrow> nat \<Rightarrow> LinkSection" where
  "section_of sizes sections p name i =
     (let kind = pn_present p ! i
      in \<lparr>se_name = name, se_kind = kind, se_attrs = default_attrs kind, se_align = 1, se_size = sizes ! unat kind,
          se_data = contents_block sizes sections kind, se_relocs = map reloc_of (pn_relocations p ! i), se_vaddr = 0,
          se_placed = False\<rparr>)"

definition symbol_of :: "string \<Rightarrow> OutSymbol \<Rightarrow> LinkSymbol" where
  "symbol_of name s =
     \<lparr>ls_name = name, ls_section_index = os_section_index s, ls_binding = os_binding s, ls_type = os_type s,
      ls_value = os_value s, ls_size = os_size s\<rparr>"

lemma parse_section_row:
  assumes "readable_plan sizes p sn yn" and "length (object_rows v sizes sections p) < 2 ^ 64" and "i < length (pn_present p)"
  shows "parse_section path (object_rows v sizes sections p) (pn_strtab p) 48 i = Inr (section_of sizes sections p (sn i) i)"
proof -
  define b where "b = object_rows v sizes sections p"
  let ?ks = "pn_present p" and ?rs = "pn_relocations p" and ?k = "pn_present p ! i"
  let ?c = "contents_block sizes sections" and ?n = "length (pn_present p)"
  define H where "H = take 48 b"
  define f where "f = (\<lambda>i. section_row (pn_name_offsets p ! i) (?ks ! i) (of_nat (48 + ?n * 40 + length (concat (map ?c (take i ?ks)))))
      (sizes ! unat (?ks ! i))
      (if ?rs ! i \<noteq> [] then of_nat (48 + ?n * 40 + length (concat (map ?c ?ks)) + length (concat (map relocations_block (take i ?rs)))) else 0)
      (of_nat (length (?rs ! i))))"
  let ?S = "concat (map f [0..<?n])" and ?C = "concat (map ?c ?ks)" and ?R = "concat (map relocations_block ?rs)"
  let ?Y = "concat (map symbol_row (pn_symbols p)) @ pn_strtab p"
  have b: "b = H @ ?S @ ?C @ ?R @ ?Y" "length H = 48"
    unfolding b_def H_def object_rows_def Let_def f_def by simp_all
  have ls: "length ?S = ?n * 40" by (subst length_uniform [of f 40]) (simp_all add: f_def)
  have len: "length b < 2 ^ 64" using assms(2) by (simp add: b_def)
  have r: "length ?rs = ?n" "?k \<in> set section_order" "0 < sizes ! unat ?k"
    using assms(1,3) nth_mem [OF assms(3)] unfolding readable_plan_def by blast+
  have row: "take 40 (drop (48 + i * 40) b) = f i"
    using slice_row [of "[0..<?n]" f 40 i H "?C @ ?R @ ?Y"] b assms(3) by (simp add: f_def)
  note g = section_row_fields [OF row [unfolded f_def]]
  have so: "(48 :: u64) + of_nat i * of_nat 40 = of_nat (48 + i * 40)" "(of_nat (48 + i * 40) :: u64) + of_nat 40 = of_nat (48 + i * 40 + 40)"
    by simp_all
  have bnd: "48 + i * 40 + 40 \<le> length b" using b ls assms(3) by (simp add: b(1) ls b(2) del: length_concat)
  then have un: "unat (of_nat (48 + i * 40) :: u64) = 48 + i * 40" "unat (of_nat (48 + i * 40 + 40) :: u64) = 48 + i * 40 + 40"
    using len by (simp_all add: unat_of_nat_64 del: of_nat_add)
  have c: "parse_contents path name b (default_attrs ?k) (if ?k = SEC_BSS then 0 else of_nat (48 + ?n * 40 + length (concat (map ?c (take i ?ks)))))
      (sizes ! unat ?k) = Inr (?c ?k)" for name
  proof (cases "?k = SEC_BSS")
    case True
    then show ?thesis using section_attrs [OF r(2)] by (simp add: parse_contents_def contents_block_def)
  next
    case False
    have "b = (H @ ?S @ concat (map ?c (take i ?ks))) @ ?c ?k @ (concat (map ?c (drop (Suc i) ?ks)) @ ?R @ ?Y)"
      unfolding b(1) concat_split [OF assms(3), of ?c] by simp
    from parse_contents_at [OF this len _ _ r(3), of "default_attrs ?k" path name] show ?thesis
      using section_attrs [OF r(2)] False by (simp add: contents_block_def b(2) ls add.assoc del: length_concat of_nat_add)
  qed
  have q: "parse_relocs path name b (if ?rs ! i \<noteq> [] then of_nat (48 + ?n * 40 + length ?C + length (concat (map relocations_block (take i ?rs)))) else 0)
      (of_nat (length (?rs ! i))) = Inr (map reloc_of (?rs ! i))" for name
  proof (cases "?rs ! i = []")
    case True
    then show ?thesis by (simp add: parse_relocs_def)
  next
    case False
    have e: "b = (H @ ?S @ ?C @ concat (map relocations_block (take i ?rs))) @ relocations_block (?rs ! i) @ (concat (map relocations_block (drop (Suc i) ?rs)) @ ?Y)"
      unfolding b(1) concat_split [of i ?rs relocations_block, unfolded r(1), OF assms(3)] by simp
    have "H @ ?S @ ?C @ concat (map relocations_block (take i ?rs)) \<noteq> []" using b(2) by auto
    from parse_relocs_at [OF e len this False, of path name] show ?thesis
      using False b(2) ls by (simp del: length_concat of_nat_add add: add.assoc)
  qed
  have nm: "read_string (pn_strtab p) (pn_name_offsets p ! i) = Inr (sn i)" using assms(1,3) by (simp add: readable_plan_def)
  show ?thesis
    unfolding b_def [symmetric] parse_section_def Let_def so un g nm c q section_of_def
    using bnd by simp
qed

lemma parse_symbol_row:
  assumes "readable_plan sizes p sn yn" and "length (object_rows v sizes sections p) < 2 ^ 64" and "i < length (pn_symbols p)"
    and "symoff = 48 + length (pn_present p) * 40 + length (concat (map (contents_block sizes sections) (pn_present p))) +
      length (concat (map relocations_block (pn_relocations p)))"
  shows "parse_link_symbol path (object_rows v sizes sections p) (pn_strtab p) (of_nat symoff) i =
    Inr (symbol_of (yn i) (pn_symbols p ! i))"
proof -
  define b where "b = object_rows v sizes sections p"
  define P where "P = take symoff b"
  have b: "b = P @ concat (map symbol_row (pn_symbols p)) @ pn_strtab p" "length P = symoff"
    unfolding P_def b_def assms(4) object_rows_def Let_def
    by (simp_all add: length_uniform [where m = 40] del: length_concat)
  have len: "length b < 2 ^ 64" using assms(2) by (simp add: b_def)
  have row: "take 24 (drop (symoff + i * 24) b) = symbol_row (pn_symbols p ! i)"
    unfolding b(1) b(2) [symmetric] using assms(3) by (intro slice_row) simp_all
  have bnd: "symoff + i * 24 + 24 \<le> length b" using assms(3) by (simp add: b(1) b(2) del: length_concat)
  have yo: "of_nat symoff + of_nat i * of_nat 24 = (of_nat (symoff + i * 24) :: u64)"
    "(of_nat (symoff + i * 24) :: u64) + of_nat 24 = of_nat (symoff + i * 24 + 24)" by simp_all
  have un: "unat (of_nat (symoff + i * 24) :: u64) = symoff + i * 24" "unat (of_nat (symoff + i * 24 + 24) :: u64) = symoff + i * 24 + 24"
    using bnd len by (simp_all add: unat_of_nat_64 del: of_nat_add)
  have nm: "read_string (pn_strtab p) (os_name_offset (pn_symbols p ! i)) = Inr (yn i)" using assms(1,3) by (simp add: readable_plan_def)
  show ?thesis
    unfolding b_def [symmetric] parse_link_symbol_def Let_def yo un symbol_row_fields [OF row] nm symbol_of_def
    using bnd by simp
qed

lemma parse_object_rows:
  assumes "readable_plan sizes p sn yn" and "length (object_rows MZO_VERSION sizes sections p) < 2 ^ 64"
  shows "parse_object_buf (object_rows MZO_VERSION sizes sections p) path =
    Inr \<lparr>lo_source = path, lo_sections = map (\<lambda>i. section_of sizes sections p (sn i) i) [0..<length (pn_present p)],
         lo_symbols = map (\<lambda>i. symbol_of (yn i) (pn_symbols p ! i)) [0..<length (pn_symbols p)]\<rparr>"
proof -
  define b where "b = object_rows MZO_VERSION sizes sections p"
  define symoff where "symoff = 48 + length (pn_present p) * 40 + length (concat (map (contents_block sizes sections) (pn_present p))) +
      length (concat (map relocations_block (pn_relocations p)))"
  let ?stroff = "symoff + 24 * length (pn_symbols p)"
  have hd: "take 48 b = header_row MZO_VERSION (of_nat (length (pn_present p))) (of_nat 48) (of_nat symoff)
      (of_nat (length (pn_symbols p))) (of_nat ?stroff) (of_nat (length (pn_strtab p))) (pn_entry p)"
    unfolding b_def object_rows_def Let_def symoff_def by simp
  note h = header_row_fields [OF hd]
  have st: "drop ?stroff b = pn_strtab p"  "length b = ?stroff + length (pn_strtab p)"
    unfolding b_def object_rows_def Let_def symoff_def
    by (simp_all add: length_uniform [where m = 40] del: length_concat)
  have len: "length b < 2 ^ 64" using assms(2) by (simp add: b_def)
  have l: "length (pn_strtab p) < 2 ^ 32" "length (pn_symbols p) < 2 ^ 32" "length (pn_present p) < 2 ^ 16"
    using assms(1) by (simp_all add: readable_plan_def)
  have un: "unat (of_nat (length (pn_strtab p)) :: u32) = length (pn_strtab p)" "unat (of_nat (length (pn_symbols p)) :: u32) = length (pn_symbols p)"
    "unat (of_nat (length (pn_present p)) :: u16) = length (pn_present p)" "unat (of_nat ?stroff :: u64) = ?stroff"
    unfolding unat_of_nat using l len st(2) by (intro mod_less; simp)+
  have "of_nat ?stroff + ucast (of_nat (length (pn_strtab p)) :: u32) = (of_nat (length b) :: u64)"
    unfolding st(2) using l(1) by (simp add: unsigned_of_nat take_bit_nat_eq_self)
  then have su: "unat (of_nat ?stroff + ucast (of_nat (length (pn_strtab p)) :: u32) :: u64) = length b"
    using len by (simp add: unat_of_nat_64 del: of_nat_add)
  have sec: "collect (parse_section path b (pn_strtab p) (of_nat 48)) [0..<length (pn_present p)] =
      Inr (map (\<lambda>i. section_of sizes sections p (sn i) i) [0..<length (pn_present p)])"
    using parse_section_row [OF assms(1,2)] by (intro collect_Inr) (simp add: b_def)
  have sym: "collect (parse_link_symbol path b (pn_strtab p) (of_nat symoff)) [0..<length (pn_symbols p)] =
      Inr (map (\<lambda>i. symbol_of (yn i) (pn_symbols p ! i)) [0..<length (pn_symbols p)])"
    using parse_symbol_row [OF assms(1,2)] by (intro collect_Inr) (simp add: b_def symoff_def)
  have str: "take (length (pn_strtab p)) (drop ?stroff b) = pn_strtab p" using st(1) by simp
  have "48 \<le> length b" using st(2) by (simp add: symoff_def)
  then show ?thesis
    unfolding b_def [symmetric] parse_object_buf_def h Let_def un su str sec sym using st(2) by simp
qed

section \<open>The object as the linker sees it\<close>

text \<open>What an assembled module says to a linker, straight from the assembler's tables.\<close>

definition link_reloc :: "string list \<Rightarrow> Relocation \<Rightarrow> LinkReloc" where
  "link_reloc names r =
     \<lparr>r_offset = rl_offset r, r_symbol = (case position (rl_symbol r) names of None \<Rightarrow> 0 | Some i \<Rightarrow> of_nat i),
      r_type = rl_type r, r_addend = rl_addend r\<rparr>"

definition link_symbol :: "u8 list \<Rightarrow> string \<times> Symbol \<Rightarrow> LinkSymbol" where
  "link_symbol kinds e =
     (case e of (name, s) \<Rightarrow>
        if \<not> sy_defined s then
          \<lparr>ls_name = name, ls_section_index = SHN_UNDEF, ls_binding = BIND_GLOBAL, ls_type = TYPE_NOTYPE, ls_value = 0, ls_size = 0\<rparr>
        else
          \<lparr>ls_name = name,
           ls_section_index = (case position (sy_section s) kinds of None \<Rightarrow> SHN_ABS | Some i \<Rightarrow> of_nat i),
           ls_binding = (if sy_exported s then BIND_GLOBAL else BIND_LOCAL),
           ls_type = (if position (sy_section s) kinds = None then TYPE_NOTYPE
                      else if sy_section s = SEC_CODE then TYPE_FUNC else TYPE_OBJECT),
           ls_value = sy_value s, ls_size = 0\<rparr>)"

definition link_section :: "Assembler \<Rightarrow> u8 \<Rightarrow> LinkSection" where
  "link_section a kind =
     \<lparr>se_name = kind_name kind, se_kind = kind, se_attrs = default_attrs kind, se_align = 1,
      se_size = as_section_sizes a ! unat kind,
      se_data = (if kind = SEC_BSS then [] else resized (as_sections a ! unat kind) (unat (as_section_sizes a ! unat kind))),
      se_relocs = map (link_reloc (map fst (linkable (as_symbols a)))) (filter (\<lambda>r. rl_section r = kind) (as_relocations a)),
      se_vaddr = 0, se_placed = False\<rparr>"

definition link_view :: "string \<Rightarrow> Assembler \<Rightarrow> LinkObject" where
  "link_view path a =
     (let kinds = present_sections (as_section_sizes a)
      in \<lparr>lo_source = path, lo_sections = map (link_section a) kinds,
          lo_symbols = map (link_symbol kinds) (linkable (as_symbols a))\<rparr>)"

definition writable :: "Assembler \<Rightarrow> bool" where
  "writable a \<longleftrightarrow>
     distinct (map fst (as_symbols a)) \<and>
     (\<forall>e \<in> set (as_symbols a). CHR 0x00 \<notin> set (fst e) \<and> sy_section (snd e) < 5) \<and>
     (\<forall>r \<in> set (as_relocations a). rl_section r < 5) \<and>
     length (pn_strtab (plan_object a)) < 2 ^ 32 \<and> length (serialize_object a) < 2 ^ 64"

lemma present_kind:
  assumes "kind \<in> set (present_sections sizes)"
  shows "kind \<in> set section_order" "0 < sizes ! unat kind" "kind < 5" "CHR 0x00 \<notin> set (kind_name kind)"
proof -
  show k: "kind \<in> set section_order" and "0 < sizes ! unat kind" using assms unfolding present_sections_def by simp_all
  show "kind < 5" "CHR 0x00 \<notin> set (kind_name kind)" using k by (auto simp: section_order_def kind_name_def)
qed

lemma present_distinct: "distinct (present_sections sizes)" "length (present_sections sizes) \<le> 4"
  using length_filter_le [of "\<lambda>kind. 0 < sizes ! unat kind" section_order]
  by (auto simp: present_sections_def section_order_def simp del: length_filter_le)

lemma plan_object_parts:
  fixes a :: Assembler
  defines "sizes \<equiv> as_section_sizes a" and "p \<equiv> plan_object a"
  defines "kinds \<equiv> present_sections sizes" and "ls \<equiv> linkable (as_symbols a)"
  assumes "writable a"
  shows "pn_present p = kinds" "pn_strtab p = [0] @ concat (map (\<lambda>k. name_row (kind_name k)) kinds) @ concat (map (\<lambda>e. name_row (fst e)) ls)"
    "pn_name_offsets p = map of_nat (row_offsets (\<lambda>k. name_row (kind_name k)) 1 kinds)"
    "pn_symbols p = map2 (\<lambda>off e. out_symbol (snd (number_sections sizes)) (of_nat off) (snd e))
       (row_offsets (\<lambda>e. name_row (fst e)) (length ([0] @ concat (map (\<lambda>k. name_row (kind_name k)) kinds))) ls) ls"
    "length (pn_relocations p) = length kinds"
    "i < length kinds \<Longrightarrow> map reloc_of (pn_relocations p ! i) = se_relocs (link_section a (kinds ! i))"
proof -
  obtain strtab outs index where c: "collect_symbols (snd (number_sections sizes)) (as_symbols a)
      ([0] @ concat (map (\<lambda>k. name_row (kind_name k)) kinds)) [] Map.empty = (strtab, outs, index)" by (metis prod_cases3)
  have ns: "number_sections sizes = (kinds, snd (number_sections sizes))"
    using number_sections_present [of sizes] by (simp add: kinds_def prod_eq_iff)
  have p: "p = \<lparr>pn_present = kinds, pn_name_offsets = map of_nat (row_offsets (\<lambda>k. name_row (kind_name k)) 1 kinds), pn_strtab = strtab,
      pn_symbols = outs, pn_relocations = group_relocations (snd (number_sections sizes)) index (length kinds) (as_relocations a),
      pn_entry = (case index ''_start'' of None \<Rightarrow> ENTRY_NONE | Some index \<Rightarrow> index)\<rparr>"
    unfolding p_def plan_object_def sizes_def [symmetric] by (subst ns) (simp add: add_section_names_rows Let_def c [simplified])
  note rows = collect_symbols_rows [OF c, folded ls_def]
  show "pn_present p = kinds" "pn_name_offsets p = map of_nat (row_offsets (\<lambda>k. name_row (kind_name k)) 1 kinds)" by (simp_all add: p)
  show "pn_strtab p = [0] @ concat (map (\<lambda>k. name_row (kind_name k)) kinds) @ concat (map (\<lambda>e. name_row (fst e)) ls)"
    using rows by (simp add: p)
  show "pn_symbols p = map2 (\<lambda>off e. out_symbol (snd (number_sections sizes)) (of_nat off) (snd e))
       (row_offsets (\<lambda>e. name_row (fst e)) (length ([0] @ concat (map (\<lambda>k. name_row (kind_name k)) kinds))) ls) ls"
    using rows by (simp add: p)
  have sec: "rl_section r < 5" if "r \<in> set (as_relocations a)" for r using that assms(5) by (simp add: writable_def)
  have ix: "snd (number_sections sizes) ! unat (rl_section r) = (case position (rl_section r) kinds of None \<Rightarrow> -1 | Some i \<Rightarrow> int i)"
    if "r \<in> set (as_relocations a)" for r
    unfolding kinds_def using number_sections_index sec that by blast
  have "\<forall>r \<in> set (as_relocations a). snd (number_sections sizes) ! unat (rl_section r) < int (length kinds)"
  proof
    fix r assume r: "r \<in> set (as_relocations a)"
    show "snd (number_sections sizes) ! unat (rl_section r) < int (length kinds)"
      unfolding ix [OF r] by (cases "position (rl_section r) kinds") (simp_all add: position_Some)
  qed
  note g = group_relocations_spec [OF this, of index]
  then show "length (pn_relocations p) = length kinds" by (simp add: p)
  assume i: "i < length kinds"
  have d: "distinct kinds" unfolding kinds_def by (rule present_distinct)
  have f: "filter (\<lambda>r. snd (number_sections sizes) ! unat (rl_section r) = int i) (as_relocations a) =
      filter (\<lambda>r. rl_section r = kinds ! i) (as_relocations a)"
  proof (rule filter_cong [OF refl])
    fix r assume r: "r \<in> set (as_relocations a)"
    show "(snd (number_sections sizes) ! unat (rl_section r) = int i) = (rl_section r = kinds ! i)"
      unfolding ix [OF r] using position_nth [OF d i] position_Some [of "rl_section r" kinds i] by (auto split: option.splits)
  qed
  have o: "reloc_of (out_relocation index r) = link_reloc (map fst ls) r" for r
    using collect_symbols_index [OF c, of "rl_symbol r"] assms(5)
    by (auto simp: out_relocation_def reloc_of_def link_reloc_def writable_def ls_def split: option.splits)
  show "map reloc_of (pn_relocations p ! i) = se_relocs (link_section a (kinds ! i))"
    using g i by (simp add: p f o link_section_def ls_def)
qed

lemma plan_readable:
  assumes "writable a"
  shows "readable_plan (as_section_sizes a) (plan_object a)
    (\<lambda>i. kind_name (present_sections (as_section_sizes a) ! i)) (\<lambda>i. fst (linkable (as_symbols a) ! i))"
proof -
  let ?p = "plan_object a" and ?kinds = "present_sections (as_section_sizes a)" and ?ls = "linkable (as_symbols a)"
  let ?K = "concat (map (\<lambda>k. name_row (kind_name k)) ?kinds)" and ?L = "concat (map (\<lambda>e. name_row (fst e)) ?ls)"
  note P = plan_object_parts [OF assms]
  have w: "length (pn_strtab ?p) < 2 ^ 32" using assms by (simp add: writable_def)
  have kinds: "read_string (pn_strtab ?p) (pn_name_offsets ?p ! i) = Inr (kind_name (?kinds ! i))" if i: "i < length ?kinds" for i
  proof -
    obtain pre post where s: "?K = pre @ name_row (kind_name (?kinds ! i)) @ post"
      "row_offsets (\<lambda>k. name_row (kind_name k)) 1 ?kinds ! i = 1 + length pre"
      using row_offsets_split [OF i, of "\<lambda>k. name_row (kind_name k)" 1] by blast
    have "pn_strtab ?p = ([0] @ pre) @ name_row (kind_name (?kinds ! i)) @ (post @ ?L)" unfolding P(2) s(1) by simp
    moreover have "pn_name_offsets ?p ! i = of_nat (length ([0 :: u8] @ pre))" unfolding P(3) using i s(2) by simp
    ultimately show ?thesis using read_name [of "pn_strtab ?p" "[0] @ pre"] present_kind(4) [OF nth_mem [OF i]] w by simp
  qed
  have syms: "read_string (pn_strtab ?p) (os_name_offset (pn_symbols ?p ! i)) = Inr (fst (?ls ! i))" if i: "i < length ?ls" for i
  proof -
    obtain pre post where s: "?L = pre @ name_row (fst (?ls ! i)) @ post"
      "row_offsets (\<lambda>e. name_row (fst e)) (length ([0] @ ?K)) ?ls ! i = length ([0] @ ?K) + length pre"
      using row_offsets_split [OF i, of "\<lambda>e. name_row (fst e)" "length ([0] @ ?K)"] by blast
    have e: "pn_strtab ?p = ([0] @ ?K @ pre) @ name_row (fst (?ls ! i)) @ post" unfolding P(2) s(1) by simp
    have o: "os_name_offset (pn_symbols ?p ! i) = of_nat (length ([0] @ ?K @ pre))"
      unfolding P(4) using i s(2) by (simp add: out_symbol_def Let_def del: length_concat of_nat_add)
    have "CHR 0x00 \<notin> set (fst (?ls ! i))"
      using assms nth_mem [OF i] by (auto simp: writable_def linkable_def)
    then show ?thesis unfolding o using w e by (intro read_name) simp_all
  qed
  have "length (pn_symbols ?p) = length ?ls" unfolding P(4) by simp
  moreover have "length ?ls \<le> length ?L" by (rule length_concat_rows) (simp add: name_row_def)
  ultimately have "length (pn_symbols ?p) < 2 ^ 32" using w unfolding P(2) by (simp del: length_concat)
  then show ?thesis
    unfolding readable_plan_def using P(1,5) present_distinct(2) present_kind kinds syms w \<open>length (pn_symbols ?p) = length ?ls\<close> by simp
qed

lemma serialize_object_rows:
  assumes "writable a"
  shows "(serialize_object a)[3 := v] = object_rows v (as_section_sizes a) (as_sections a) (plan_object a)"
proof -
  have "length (pn_relocations (plan_object a)) = length (pn_present (plan_object a))"
    using plan_object_parts(1,5) [OF assms] by simp
  from serialize_plan_rows [OF this] show ?thesis
    unfolding serialize_object_def by (simp add: object_rows_def Let_def header_row_def numeral_3_eq_3)
qed

lemma section_of_view:
  assumes "writable a" and "i < length (present_sections (as_section_sizes a))"
  shows "section_of (as_section_sizes a) (as_sections a) (plan_object a) (kind_name (present_sections (as_section_sizes a) ! i)) i =
    link_section a (present_sections (as_section_sizes a) ! i)"
  using plan_object_parts(1,6) [OF assms(1)] assms(2)
  by (simp add: section_of_def link_section_def Let_def contents_block_def)

lemma symbol_of_view:
  assumes "writable a" and "i < length (linkable (as_symbols a))"
  shows "symbol_of (fst (linkable (as_symbols a) ! i)) (pn_symbols (plan_object a) ! i) =
    link_symbol (present_sections (as_section_sizes a)) (linkable (as_symbols a) ! i)"
proof -
  obtain name s where e: "linkable (as_symbols a) ! i = (name, s)" by fastforce
  have "(name, s) \<in> set (as_symbols a)" using nth_mem [OF assms(2)] e by (auto simp: linkable_def)
  then have "sy_section s < 5" using assms(1) by (auto simp: writable_def)
  note n = number_sections_index [OF this, of "as_section_sizes a"]
  show ?thesis
    unfolding plan_object_parts(4) [OF assms(1)] using assms(2) e n
    by (auto simp: symbol_of_def link_symbol_def out_symbol_def Let_def split: option.splits)
qed

section \<open>The round trip\<close>

text \<open>C14: The linker reads what the object writer writes. For a module whose tables fit the format
  (distinct names without a zero character, sections of the known kinds, sizes within the field
  widths), reading the written file under the version the reader accepts gives exactly the module's
  sections with their bytes, attributes and relocations, each relocation naming its symbol by the
  symbol's place in the table, and the module's linkable symbols; as written, with the version that
  marks it as a v2 object, the reader refuses it.\<close>

theorem object_round_trip:
  assumes "writable a"
  shows "parse_object_buf ((serialize_object a)[3 := MZO_VERSION]) path = Inr (link_view path a) \<and>
    parse_object_buf (serialize_object a) path = Inl (file_says path '' is not a v1 .mzo object (bad magic)'')"
proof
  let ?sizes = "as_section_sizes a" and ?p = "plan_object a"
  note r = serialize_object_rows [OF assms] and P = plan_object_parts [OF assms]
  have len: "length (object_rows v ?sizes (as_sections a) ?p) < 2 ^ 64" for v
    using assms arg_cong [OF r [of v], of length] by (simp add: writable_def)
  have n: "length (pn_symbols ?p) = length (linkable (as_symbols a))" unfolding P(4) by simp
  have "map (\<lambda>i. section_of ?sizes (as_sections a) ?p (kind_name (present_sections ?sizes ! i)) i) [0..<length (present_sections ?sizes)] =
      map (link_section a) (present_sections ?sizes)"
    using section_of_view [OF assms] by (intro nth_equalityI) simp_all
  moreover have "map (\<lambda>i. symbol_of (fst (linkable (as_symbols a) ! i)) (pn_symbols ?p ! i)) [0..<length (pn_symbols ?p)] =
      map (link_symbol (present_sections ?sizes)) (linkable (as_symbols a))"
    using symbol_of_view [OF assms] n by (intro nth_equalityI) simp_all
  ultimately show "parse_object_buf ((serialize_object a)[3 := MZO_VERSION]) path = Inr (link_view path a)"
    unfolding r parse_object_rows [OF plan_readable [OF assms] len] P(1) link_view_def Let_def by simp
  have "serialize_object a = object_rows MZO_VERSION_V2 ?sizes (as_sections a) ?p"
    unfolding serialize_object_def using P(1,5) by (intro serialize_plan_rows) simp
  then show "parse_object_buf (serialize_object a) path = Inl (file_says path '' is not a v1 .mzo object (bad magic)'')"
    by (simp add: parse_object_buf_def object_rows_def Let_def header_row_def numeral_3_eq_3)
qed

text \<open>A module with code that calls an external routine, and some zeroed space.\<close>

definition call_module :: Assembler where
  "call_module = new_assembler\<lparr>as_mode := Sectioned, as_section_sizes := [0, 6, 0, 0, 16],
     as_sections := [[], [0x50, 0, 0, 0, 0, op_kHalt], [], [], []],
     as_symbols := [(''_start'', new_symbol\<lparr>sy_name := ''_start'', sy_section := SEC_CODE, sy_defined := True, sy_exported := True\<rparr>),
                    (''buffer'', new_symbol\<lparr>sy_name := ''buffer'', sy_section := SEC_BSS, sy_defined := True\<rparr>),
                    (''eight'', new_symbol\<lparr>sy_name := ''eight'', sy_value := 8, sy_defined := True, sy_is_constant := True\<rparr>),
                    (''puts'', new_symbol\<lparr>sy_name := ''puts'', sy_external := True\<rparr>)],
     as_relocations := [\<lparr>rl_section = SEC_CODE, rl_offset = 1, rl_symbol = ''puts'', rl_type = R_MAIZE_REL32, rl_addend = 0\<rparr>]\<rparr>"

lemma call_module_writable: "writable call_module"
proof -
  have "length (pn_strtab (plan_object call_module)) = 31" "length (serialize_object call_module) = 261" by code_simp+
  moreover have "distinct (map fst (as_symbols call_module))" "\<forall>e \<in> set (as_symbols call_module). CHR 0x00 \<notin> set (fst e) \<and> sy_section (snd e) < 5"
    "\<forall>r \<in> set (as_relocations call_module). rl_section r < 5"
    by (simp_all add: call_module_def new_symbol_def)
  ultimately show ?thesis unfolding writable_def by simp
qed

theorem object_round_trip_witness:
  "case parse_object_buf ((serialize_object call_module)[3 := MZO_VERSION]) ''m.mzo'' of
     Inl _ \<Rightarrow> False
   | Inr obj \<Rightarrow> map ls_name (lo_symbols obj) = [''_start'', ''buffer'', ''puts''] \<and>
       map se_data (lo_sections obj) = [[0x50, 0, 0, 0, 0, op_kHalt], []] \<and>
       map (map r_symbol \<circ> se_relocs) (lo_sections obj) = [[2], []]"
  unfolding conjunct1 [OF object_round_trip [OF call_module_writable]] sum.case by code_simp

text \<open>The reader's own bounds test can be passed by offsets whose sum wraps: this header puts a one-byte
  string table at the last address there is, and the read that follows is outside the file.\<close>

lemma string_table_bound_wraps:
  "parse_object_buf (header_row MZO_VERSION 0 48 48 0 0xFFFFFFFFFFFFFFFF 1 0) path = Inl OutOfBounds"
  by (simp add: parse_object_buf_def header_row_fields Let_def) (simp add: header_row_def)

end
