(* ===== verification/Spec2Isabelle.thy ===== *)
theory Spec2Isabelle
  imports Step Expression_Syntax Assembled Object_Reader
begin

text \<open>
  \<^bold>\<open>The Maize v2 machine and its assembler.\<close>

  Maize v2 is a 64-bit virtual machine and the assembler for it. The machine (\<^verbatim>\<open>src/src/v2\<close>) is a register
  file, a byte-addressed memory behind a four-level page table with a translation cache, a file of
  control and status registers with two privilege levels, port-mapped devices with interrupt lines,
  and an interpreter that decodes and executes one instruction at each boundary. The assembler reads
  source text line by line, lays the statements out in a first pass and emits bytes in a second, into
  a flat image that the machine loads or into sections with relocations.

  \<^bold>\<open>The theories, in the order they build on each other.\<close>

  The machine:

  \<^item> \<^verbatim>\<open>Maize_Prelude\<close>: the word types, the interface \<open>byte_store\<close> of a store of bytes, and the facts on
    words, lists and folds that the components share.
  \<^item> \<^verbatim>\<open>Registers\<close> (\<^verbatim>\<open>registers_v2.h\<close>), \<^verbatim>\<open>Memory\<close> (\<^verbatim>\<open>memory_v2.h\<close>), \<^verbatim>\<open>Traps\<close> (\<^verbatim>\<open>trap_v2.h\<close>), \<^verbatim>\<open>Opcodes\<close>
    (\<^verbatim>\<open>opcode_v2.h\<close>): the register file with its element views, the populated bytes with range checks,
    little-endian access and image loading, the trap causes and the frame, the opcode numbers with
    their shapes, slots and lengths.
  \<^item> \<^verbatim>\<open>Csr\<close> (\<^verbatim>\<open>csr_v2.h\<close>): one record field per register, the checked \<open>access\<close> in the order of the source's
    refusals, the status word, the pending and enable arrays.
  \<^item> \<^verbatim>\<open>Translate\<close> (\<^verbatim>\<open>translate_v2.h\<close>): the walk, the permission test and the round-robin cache. The
    interface \<open>cached_lookup\<close> states what a cache owes its uncached function; \<open>translate\<close> interprets it.
    \<open>maps_by\<close> reads the tables bit by bit, without the code's masks, and is what the walk is held against.
  \<^item> \<^verbatim>\<open>Decode\<close> (\<^verbatim>\<open>decode_v2.h\<close>, \<^verbatim>\<open>decode_v2.cpp\<close>): fetching and decoding. \<open>cached_fetch\<close> extends the interface
    above, so decoding through the cache is decoding of the uncached bytes, \<open>decode_spec\<close>.
  \<^item> \<^verbatim>\<open>Devices\<close> (\<^verbatim>\<open>device_v2.h\<close>): the port skeleton, console, timer and the surface with its lines and clock.
    \<open>device_class\<close> and \<open>byte_queue\<close> are its interfaces; \<open>received\<close> runs any sequence of console events.
  \<^item> \<^verbatim>\<open>Machine\<close>, \<^verbatim>\<open>Alu\<close>, \<^verbatim>\<open>Block\<close>, \<^verbatim>\<open>Execute\<close>, \<^verbatim>\<open>Step\<close> (\<^verbatim>\<open>interpreter_v2.h\<close>, \<^verbatim>\<open>interpreter_v2.cpp\<close>): the machine
    state, planned accesses, trap and interrupt delivery and return; the arithmetic helpers; the
    block-memory loops; every instruction group of \<open>execute\<close> in the order of its tests; the boundary,
    the run loop and the host's entry points as an inductive relation. \<^verbatim>\<open>Effects\<close> holds what
    instructions may and may not change.

  The assembler:

  \<^item> \<^verbatim>\<open>Mnemonics\<close> (\<^verbatim>\<open>mnemonic_v2.h\<close>): the table of spellings and its consistency with the opcode table.
  \<^item> \<^verbatim>\<open>Expressions\<close> (\<^verbatim>\<open>mzasm_lexer.cpp\<close>): register spellings, the field test \<open>fits\<close>, and the expression
    parser, one function per precedence level. \<open>operand_parser\<close> is the contract between the levels.
    \<^verbatim>\<open>Expression_Syntax\<close> proves the parser against an abstract syntax with its own printer;
    \<^verbatim>\<open>Expression_Settling\<close> shows that a value that does not depend on an undefined symbol is the same
    once more symbols are defined.
  \<^item> \<^verbatim>\<open>Statements\<close> and \<^verbatim>\<open>Assembly\<close> (\<^verbatim>\<open>mzasm_assemble.cpp\<close>, \<^verbatim>\<open>mzasm.h\<close>): lines, operands and inclusion; mnemonic
    selection, both passes, the directives and the encoder.
  \<^item> \<^verbatim>\<open>Encoding\<close>, \<^verbatim>\<open>Encoder\<close>, \<^verbatim>\<open>Layout\<close>, \<^verbatim>\<open>Assembled\<close>: the operand patterns fit the shapes the decoder reads;
    what the encoder emits decodes to what the operands say; the passes agree on every address; a
    module from source text. The interface \<open>included_parser\<close> is the parser of included files.

  Object files:

  \<^item> \<^verbatim>\<open>Object_Format\<close> (\<^verbatim>\<open>src/src/maize_obj.h\<close>): the constants of the format and its little-endian helpers.
  \<^item> \<^verbatim>\<open>Object_Writer\<close> (\<^verbatim>\<open>mzasm_object.cpp\<close>): what the assembler writes for a module with sections, as
    collected tables and as rows of the file at computed offsets.
  \<^item> \<^verbatim>\<open>Object_Reader\<close> (\<^verbatim>\<open>src/src/mzld.cpp\<close>, the part that reads objects and archives): every diagnostic of
    the reader, and the reads its wrapping bounds tests let through as the failure \<open>OutOfBounds\<close>;
    that it reads back what the writer wrote.

  This theory composes the machine and the assembler: an assembled program, loaded, executes as written.

  \<^bold>\<open>How the code is translated.\<close> A class is a record and a method a function that takes the object and
  returns it changed, paired with its result; out-parameters are components of the result. An
  instruction outcome is a status beside the machine, a trap a value of a sum type, a diagnostic an
  entry of the assembler's list. Fixed-width integers are words, so arithmetic wraps as in the source;
  sizes and indices are naturals. Every loop is a fold or a structural recursion over what it scans,
  with these exceptions: \<open>run_loop\<close> without a bound is a partial function whose value is \<open>None\<close> when
  it does not return; the expression parser recurses with the length of the text as fuel, and
  \<open>Expressions\<close> shows that each level consumes input, so the fuel is never exhausted; the depth of
  file inclusion is an argument, and \<open>None\<close> stands for running out of it. The file system is a
  parameter of the assembler (the record \<open>Host\<close>), and so is the input the console receives.

  \<^bold>\<open>What is shown.\<close> For the machine: a step executes the instruction that is in memory; caches are
  transparent; traps are precise and a return undoes a delivery; user code is confined to what its
  level and its page permissions allow; the invariant of the machine holds in every reachable state;
  block instructions meet their specifications for overlapping ranges, with translation off and
  interrupts disabled; arithmetic is exact; devices keep time and order. For the assembler: the
  expression parser inverts the printer; fields accept exactly the values they can hold; an
  instruction that assembles is in the image at its address and decodes to its mnemonic and operands,
  unless a later statement is placed over it or a literal displacement also names a symbol, which the
  encoder drops; labels are the addresses of what follows them, unless an origin comes between; an
  object file is read back as the sections, relocations and symbols it was written from.

  \<^bold>\<open>Not modelled.\<close> Floating point is not implemented by the source: \<open>execute\<close> reports it, and so does the
  model. The layout theorems are about flat modules; a module with sections is assembled by the same
  definitions, but its relocations are resolved by a linker, and the one there is refuses v2 objects;
  of that linker only the reader is modelled. The front ends \<^verbatim>\<open>mzasm_main.cpp\<close> and \<^verbatim>\<open>mzvm_main.cpp\<close> with their
  options are left out: they move the modelled results to and from files and terminals. The first
  version of the machine with its assembler and disassembler, its C compiler driver, the
  host file-system bridge, the compiler back end, the guest operating system and the demonstration
  programs (\<^verbatim>\<open>src/src\<close> outside \<^verbatim>\<open>v2\<close>, \<^verbatim>\<open>src/toolchain\<close>, \<^verbatim>\<open>src/os\<close>, \<^verbatim>\<open>src/demos\<close>) are archived sources that the
  build no longer compiles, and mostly operating-system calls or vendored code.
\<close>

section \<open>From source text to execution\<close>

definition no_files :: Host where
  "no_files = \<lparr>host_read = (\<lambda>_. None), host_canonical = (\<lambda>p. p), host_resolve = (\<lambda>d p. p), host_parent = (\<lambda>p. p)\<rparr>"

definition stop_label :: Statement where
  "stop_label = new_statement Label (SourceLoc ''stop.mzasm'' 1 None) ''stop'' []"

definition stop_halt :: Statement where
  "stop_halt =
     (new_statement Instruction (SourceLoc ''stop.mzasm'' 2 None) ''halt'' [])\<lparr>st_opcode := op_kHalt, st_length := 1\<rparr>"

lemma stop_assembles:
  "map_option (\<lambda>(ok, a). (ok, as_mode a, as_flat_base a, as_flat_image a, as_statements a))
     (assemble_text no_files 1 (''stop:'' @ [CHR 0x0A] @ ''halt'') ''stop.mzasm'' [] new_assembler) =
   Some (True, Flat, 0, [op_kHalt], [stop_label, stop_halt])"
  by code_simp

lemma stop_module:
  obtains a where "assemble_text no_files 1 (''stop:'' @ [CHR 0x0A] @ ''halt'') ''stop.mzasm'' [] new_assembler = Some (True, a)"
    "as_mode a = Flat" "as_flat_base a = 0" "as_flat_image a = [op_kHalt]" "as_statements a = [stop_label, stop_halt]"
  using stop_assembles by auto

lemma stop_statements:
  "st_kind stop_label = Label" "st_name stop_label = ''stop''" "st_kind stop_halt = Instruction"
  "st_address stop_halt = 0" "st_opcode stop_halt = op_kHalt" "st_operands stop_halt = []"
  by (simp_all add: stop_label_def stop_halt_def new_statement_def)

text \<open>C1: A flat module runs as it was written. When a source text assembles without diagnostics to a
  flat image shorter than the address space, and the image is loaded at its base into the memory of a
  machine that runs with paging off, is not halted and has no interrupt to take, then with the program
  counter at an instruction statement the next step executes an instruction whose opcode is the one
  selected for the statement's mnemonic and whose fields hold what its operands say: the register
  numbers and elements, the immediates as their fields read back, and in a target slot the number
  written there or the displacement that reaches the address a symbol or relocatable expression names.
  Two conditions are on the module: no later statement is placed over the instruction, and a target
  written as a literal displacement does not also name a symbol, which the encoder would drop.\<close>

theorem assembled_program_executes:
  assumes "assemble_text host depth contents name path new_assembler = Some (True, a)" and "as_mode a = Flat"
    and "as_statements a = before @ st # behind" and "st_kind st = Instruction"
    and "length (as_flat_image a) < 2 ^ 64"
    and "\<forall>s \<in> set behind. places s \<longrightarrow>
          unat (st_address st - as_flat_base a) + st_length st \<le> unat (st_address s - as_flat_base a)"
    and "plain_literals (a\<lparr>as_address := st_address st\<rparr>) (zip (pattern_for (st_opcode st)) (st_operands st))"
    and "load_image memory (as_flat_base a) (as_flat_image a) = Some (m_memory m)"
    and "wf_machine m" and "tlb_ok m" and "\<not> m_halted m"
    and "deliverable_interrupt (sample_device_interrupts m) = kNoCause"
    and "c_paging_root (m_csr m) = paging_root_kModeBare" and "m_pc m = st_address st"
  shows "resolve_opcode st = Inr (st_opcode st) \<and>
    (\<exists>d t. decoded_says (a\<lparr>as_address := st_address st\<rparr>) [] st d \<and>
     step m = ticked (execute d ((sample_device_interrupts m)\<lparr>m_translator := t, m_steps_taken := m_steps_taken m + 1\<rparr>)))"
proof -
  have f: "fetch_spec (m_memory m) (c_paging_root (m_csr m)) (level m) (as_flat_base a + of_nat i) = Inr (as_flat_image a ! i)"
    if "i < length (as_flat_image a)" for i
    using load_image_places [OF assms(8) _ that] assms(5,13) by (simp add: fetch_spec_def translate_spec_def)
  then obtain d where d: "decode_spec (m_memory m) (c_paging_root (m_csr m)) (level m) (m_pc m) = Inr d"
    "decoded_says (a\<lparr>as_address := st_address st\<rparr>) [] st d"
    using conjunct2 [OF assembled_decodes [OF assms(1-7)]] unfolding assms(14) by blast
  from boundary_decodes [OF assms(9,10)] obtain t
    where "decode_at_pc (sample_device_interrupts m) = (Inr d, (sample_device_interrupts m)\<lparr>m_translator := t\<rparr>)"
    unfolding d(1) .
  then have "step m = ticked (execute d ((sample_device_interrupts m)\<lparr>m_translator := t, m_steps_taken := m_steps_taken m + 1\<rparr>))"
    by (rule step_decoded [OF assms(11,12)])
  then show ?thesis using d(2) conjunct1 [OF assembled_decodes [OF assms(1-7)]] f by blast
qed

theorem assembled_program_executes_witness:
  "\<exists>d t. d_opcode d = op_kHalt \<and>
     step halting_machine =
       ticked (execute d ((sample_device_interrupts halting_machine)\<lparr>m_translator := t, m_steps_taken := m_steps_taken halting_machine + 1\<rparr>))"
proof -
  note h = halting_machine_fields and s = stop_statements
  obtain a where a: "assemble_text no_files 1 (''stop:'' @ [CHR 0x0A] @ ''halt'') ''stop.mzasm'' [] new_assembler = Some (True, a)"
    "as_mode a = Flat" "as_flat_base a = 0" "as_flat_image a = [op_kHalt]" "as_statements a = [stop_label, stop_halt]"
    by (rule stop_module)
  have l: "load_image (new_memory 1) 0 [op_kHalt] = Some \<lparr>mem_bytes = [op_kHalt]\<rparr>" by code_simp
  have "\<exists>d t. decoded_says (a\<lparr>as_address := st_address stop_halt\<rparr>) [] stop_halt d \<and>
     step halting_machine =
       ticked (execute d ((sample_device_interrupts halting_machine)\<lparr>m_translator := t, m_steps_taken := m_steps_taken halting_machine + 1\<rparr>))"
    using l h halting_machine_levels(3) s(4) a(5)
    by (intro conjunct2 [OF assembled_program_executes [OF a(1,2) _ s(3), where memory = "new_memory 1" and before = "[stop_label]" and behind = "[]"]])
      (simp_all add: a(3,4) plain_literals_def s(6))
  then show ?thesis using s(5) by (auto simp: decoded_says_def)
qed

text \<open>C2: A label is the address of what follows it. In a flat module that assembles without
  diagnostics, when only labels, constants and linkage directives stand between a label and the next
  statement that places something, the symbol of the label has the address of that statement as its
  value; so a jump to the label reaches exactly that statement. An origin directive between the two is
  excluded: the code then leaves the label at the address before the origin.\<close>

theorem label_names_next_statement:
  assumes "assemble_text host depth contents name path new_assembler = Some (True, a)" and "as_mode a = Flat"
    and "as_statements a = before @ label # between @ st # behind" and "st_kind label = Label"
    and "\<forall>s \<in> set between. stands_still s" and "places st"
  shows "lookup_in_assembler a (st_name label) = label_query (st_address st)"
proof -
  obtain a0 where a: "a = pass_two (pass_one a0)" "as_diags (pass_one a0) = []" "as_diags a = []"
    and a0: "as_symbols a0 = []" "as_mode a0 = Undecided" "as_relocations a0 = []"
      "\<forall>st \<in> set (as_statements a0). \<forall>operand \<in> set (st_operands st). od_reg operand < 32"
    using assembled_module [OF assms(1)] .
  from flat_module_label [OF a0(1,2,4) a(2), folded a(1), OF a(3) assms(2-6)] show ?thesis .
qed

theorem label_names_next_statement_witness:
  "\<exists>a. assemble_text no_files 1 (''stop:'' @ [CHR 0x0A] @ ''halt'') ''stop.mzasm'' [] new_assembler = Some (True, a) \<and>
     lookup_in_assembler a ''stop'' = label_query 0"
proof -
  note s = stop_statements
  obtain a where a: "assemble_text no_files 1 (''stop:'' @ [CHR 0x0A] @ ''halt'') ''stop.mzasm'' [] new_assembler = Some (True, a)"
    "as_mode a = Flat" "as_statements a = [] @ stop_label # [] @ stop_halt # []"
    by (rule stop_module) simp
  have "lookup_in_assembler a (st_name stop_label) = label_query (st_address stop_halt)"
    by (rule label_names_next_statement [OF a s(1)]) (simp_all add: places_def s(3))
  then show ?thesis using a(1) by (auto simp: s)
qed

text \<open>The excluded case: the label keeps address 0, and the instruction after the origin is at 16.\<close>

lemma origin_leaves_label:
  "map_option (\<lambda>(ok, a). (ok, lookup_in_assembler a ''stop'' = label_query 0,
       map (\<lambda>st. (st_name st, st_address st)) (as_statements a)))
     (assemble_text no_files 1 (''stop:'' @ [CHR 0x0A] @ ''origin $10'' @ [CHR 0x0A] @ ''halt'') ''stop.mzasm'' []
        new_assembler) =
   Some (True, True, [(''stop'', 0), (''origin'', 16), (''halt'', 16)])"
  by code_simp

end
